(* ===== verification/Sylar_Prelude.thy ===== *)
theory Sylar_Prelude
  imports Main "HOL-Library.Word" "HOL-Library.Char_ord" "HOL-Library.List_Lexorder"
begin

unbundle bit_operations_syntax

text \<open>
  Shared vocabulary of the development: names for the machine integers, the
  indeterminate memory cells that \<^verbatim>\<open>malloc\<close> and uninitialised arrays hold, the result type of
  operations that may throw or crash, \<^verbatim>\<open>memcpy\<close> into a buffer, and linked lists in a node heap.
  The generic lemmas are declared \<open>[simp]\<close> or collected in \<open>memory_simps\<close> and \<open>chain_simps\<close>.
\<close>

section \<open>Types\<close>

type_synonym u8 = "8 word"
type_synonym u16 = "16 word"
type_synonym u32 = "32 word"
type_synonym u64 = "64 word"

text \<open>A byte of memory: \<open>None\<close> is a byte nothing has been stored in yet.\<close>

type_synonym cell = "u8 option"

text \<open>A heap address; a C++ pointer is an \<open>addr option\<close>, \<open>None\<close> being \<^verbatim>\<open>nullptr\<close>.\<close>

type_synonym addr = nat

text \<open>Error numbers of Linux; \<^verbatim>\<open>EWOULDBLOCK\<close> is \<^verbatim>\<open>EAGAIN\<close>.\<close>

definition EAGAIN :: int where "EAGAIN = 11"
definition EINTR :: int where "EINTR = 4"

named_theorems memory_simps "buffers, cells and memcpy"
named_theorems chain_simps "linked lists in a heap of nodes"

section \<open>Results\<close>

definition res_bind :: "'e + 'a \<Rightarrow> ('a \<Rightarrow> 'e + 'b) \<Rightarrow> 'e + 'b" where
  "res_bind m f = (case m of Inl e \<Rightarrow> Inl e | Inr x \<Rightarrow> f x)"

lemma res_bind_simps [simp]:
  "res_bind (Inl e) f = Inl e"
  "res_bind (Inr x) f = f x"
  by (simp_all add: res_bind_def)

lemma res_bind_eq_Inr:
  "res_bind m f = Inr y \<longleftrightarrow> (\<exists>x. m = Inr x \<and> f x = Inr y)"
  by (cases m) auto

lemma res_bind_Inr [simp]: "res_bind m Inr = m"
  by (cases m) auto

lemma res_bind_assoc: "res_bind (res_bind m f) g = res_bind m (\<lambda>x. res_bind (f x) g)"
  by (cases m) auto

lemma res_bind_cong [fundef_cong]:
  "m = m' \<Longrightarrow> (\<And>x. m' = Inr x \<Longrightarrow> f x = g x) \<Longrightarrow> res_bind m f = res_bind m' g"
  by (cases m') auto

text \<open>
  A sequence of operations that may fail. When every operation succeeds and keeps an invariant, so
  does every sequence: components with such operations interpret the locale.
\<close>

fun res_run :: "('op \<Rightarrow> 'st \<Rightarrow> 'e + 'st) \<Rightarrow> 'op list \<Rightarrow> 'st \<Rightarrow> 'e + 'st" where
  "res_run step [] p = Inr p"
| "res_run step (x # xs) p = res_bind (step x p) (res_run step xs)"

locale total_steps =
  fixes step :: "'op \<Rightarrow> 'st \<Rightarrow> 'e + 'st"
    and ok :: "'op \<Rightarrow> bool"
    and inv :: "'st \<Rightarrow> bool"
  assumes step_inv: "inv p \<Longrightarrow> ok x \<Longrightarrow> \<exists>p'. step x p = Inr p' \<and> inv p'"
begin

lemma run_inv: "inv p \<Longrightarrow> \<forall>x\<in>set xs. ok x \<Longrightarrow> \<exists>p'. res_run step xs p = Inr p' \<and> inv p'"
proof (induction xs arbitrary: p)
  case (Cons x xs)
  then obtain p1 where "step x p = Inr p1" "inv p1" using step_inv by force
  with Cons show ?case by simp
qed simp

end

section \<open>Memory\<close>

text \<open>\<^verbatim>\<open>memcpy(dst + start, src, length src)\<close>.\<close>

definition memcpy_at :: "nat \<Rightarrow> 'a list \<Rightarrow> 'a list \<Rightarrow> 'a list" where
  "memcpy_at start src dst = take start dst @ src @ drop (start + length src) dst"

lemma length_memcpy_at [memory_simps]:
  "start + length src \<le> length dst \<Longrightarrow> length (memcpy_at start src dst) = length dst"
  by (simp add: memcpy_at_def)

lemma take_memcpy_at [memory_simps]:
  "start + length src \<le> length dst \<Longrightarrow>
   take (start + length src) (memcpy_at start src dst) = take start dst @ src"
  by (simp add: memcpy_at_def)

lemma memcpy_at_fill [memory_simps]:
  "start + length src = length dst \<Longrightarrow> memcpy_at start src dst = take start dst @ src"
  by (simp add: memcpy_at_def)

lemma take_split_at: "k \<le> n \<Longrightarrow> take k xs @ take (n - k) (drop k xs) = take n xs"
  by (metis le_add_diff_inverse take_add)

text \<open>A run of cells as bytes; \<open>None\<close> when one of them is indeterminate.\<close>

fun cells_bytes :: "cell list \<Rightarrow> u8 list option" where
  "cells_bytes [] = Some []"
| "cells_bytes (None # cs) = None"
| "cells_bytes (Some b # cs) = map_option (Cons b) (cells_bytes cs)"

lemma cells_bytes_map_Some [simp]: "cells_bytes (map Some bs) = Some bs"
  by (induction bs) auto

lemma cells_bytes_eq_Some: "cells_bytes cs = Some bs \<longleftrightarrow> cs = map Some bs"
  by (induction cs arbitrary: bs rule: cells_bytes.induct) auto

section \<open>Linked lists in a heap\<close>

text \<open>
  \<open>chain nx n p as\<close>: following the successor function \<open>nx\<close> from the pointer \<open>p\<close> visits
  exactly the addresses \<open>as\<close>, all below the allocation bound \<open>n\<close>, and ends at \<^verbatim>\<open>nullptr\<close>.
\<close>

fun chain :: "(addr \<Rightarrow> addr option) \<Rightarrow> nat \<Rightarrow> addr option \<Rightarrow> addr list \<Rightarrow> bool" where
  "chain nx n p [] \<longleftrightarrow> p = None"
| "chain nx n p (a # as) \<longleftrightarrow> p = Some a \<and> a < n \<and> chain nx n (nx a) as"

text \<open>The same up to a pointer \<open>q\<close>: a list segment.\<close>

fun chain_seg ::
  "(addr \<Rightarrow> addr option) \<Rightarrow> nat \<Rightarrow> addr option \<Rightarrow> addr list \<Rightarrow> addr option \<Rightarrow> bool" where
  "chain_seg nx n p [] q \<longleftrightarrow> p = q"
| "chain_seg nx n p (a # as) q \<longleftrightarrow> p = Some a \<and> a < n \<and> chain_seg nx n (nx a) as q"

lemma chain_append [chain_simps]:
  "chain nx n p (as @ bs) \<longleftrightarrow> (\<exists>q. chain_seg nx n p as q \<and> chain nx n q bs)"
  by (induction as arbitrary: p) auto

lemma chain_seg_append [chain_simps]:
  "chain_seg nx n p (as @ bs) q \<longleftrightarrow> (\<exists>r. chain_seg nx n p as r \<and> chain_seg nx n r bs q)"
  by (induction as arbitrary: p) auto

lemma chain_bound: "chain nx n p as \<Longrightarrow> a \<in> set as \<Longrightarrow> a < n"
  by (induction as arbitrary: p) auto

lemma chain_seg_bound: "chain_seg nx n p as q \<Longrightarrow> a \<in> set as \<Longrightarrow> a < n"
  by (induction as arbitrary: p) auto

lemma chain_cong:
  "chain nx n p as \<Longrightarrow> (\<And>a. a \<in> set as \<Longrightarrow> nx' a = nx a) \<Longrightarrow> n \<le> n' \<Longrightarrow> chain nx' n' p as"
  by (induction as arbitrary: p) auto

lemma chain_seg_cong:
  "chain_seg nx n p as q \<Longrightarrow> (\<And>a. a \<in> set as \<Longrightarrow> nx' a = nx a) \<Longrightarrow> n \<le> n' \<Longrightarrow>
   chain_seg nx' n' p as q"
  by (induction as arbitrary: p) auto

text \<open>The \<open>k\<close>-th pointer of a walk along \<open>as\<close>: \<^verbatim>\<open>nullptr\<close> once the list is used up.\<close>

definition nth_ptr :: "addr list \<Rightarrow> nat \<Rightarrow> addr option" where
  "nth_ptr as k = (if k < length as then Some (as ! k) else None)"

lemma nth_ptr_eq_Some [chain_simps]: "nth_ptr as k = Some a \<longleftrightarrow> k < length as \<and> as ! k = a"
  by (auto simp: nth_ptr_def)

lemma nth_ptr_append_left [chain_simps]: "k < length as \<Longrightarrow> nth_ptr (as @ bs) k = nth_ptr as k"
  by (simp add: nth_ptr_def nth_append)

lemma chain_nth_next:
  "chain nx n p as \<Longrightarrow> k < length as \<Longrightarrow> nx (as ! k) = nth_ptr as (Suc k)"
proof (induction as arbitrary: p k)
  case Nil
  then show ?case by simp
next
  case (Cons a as)
  show ?case
  proof (cases k)
    case 0
    from Cons.prems have "chain nx n (nx a) as" by simp
    with 0 show ?thesis by (cases as) (auto simp: nth_ptr_def)
  next
    case (Suc k')
    with Cons show ?thesis by (auto simp: nth_ptr_def)
  qed
qed

section \<open>Blocks of a fixed size\<close>

lemma length_concat_blocks:
  "(\<And>x. x \<in> set xs \<Longrightarrow> length (f x) = b) \<Longrightarrow> length (concat (map f xs)) = b * length xs"
  by (induction xs) auto

lemma drop_concat_blocks:
  "(\<And>x. x \<in> set xs \<Longrightarrow> length (f x) = b) \<Longrightarrow> k \<le> length xs \<Longrightarrow>
   drop (b * k) (concat (map f xs)) = concat (map f (drop k xs))"
proof (induction xs arbitrary: k)
  case Nil
  then show ?case by simp
next
  case (Cons x xs)
  then show ?case by (cases k) auto
qed

end
