(* ===== verification/Byte_Array.thy ===== *)
theory Byte_Array
  imports Sylar_Prelude
begin

text \<open>
  The growable byte buffer of \<^verbatim>\<open>src/src/bytearray.cc\<close>: a linked list of nodes of \<open>base_size\<close>
  bytes with one write position and one read position.
  Nodes live in an explicit heap, since \<^verbatim>\<open>ExtendCapacity\<close> relinks them while \<^verbatim>\<open>read_ptr_\<close> and
  \<^verbatim>\<open>write_ptr_\<close> keep pointing into the list; a node is never freed while a pointer reaches it
  (they are shared pointers), so the heap only grows. Sizes are naturals: every size the
  code computes is bounded by the memory it has allocated. Memory does not run out here; \<open>Byte_Memory\<close> is about that.
  This theory holds the definitions; theory \<open>Byte_Queue\<close> has the invariant and the proofs.
\<close>

section \<open>State\<close>

text \<open>
  What can go wrong: \<open>OutOfRange\<close> and \<open>LengthError\<close> are C++ exceptions, \<open>NullDeref\<close>
  a dereferenced null pointer, \<open>Hang\<close> a loop that does not end, \<open>DivByZero\<close> a zero divisor,
  \<open>Indeterminate\<close> a value computed from memory nothing was stored in and \<open>ShiftRange\<close> a shift by
  more than the width of its operand.
\<close>

datatype ba_error = OutOfRange | LengthError | NullDeref | Hang | DivByZero | Indeterminate | ShiftRange

record node =
  base_ptr :: "cell list"
  rest_size :: nat
  next_ptr :: "addr option"

record bytearray =
  base_size :: nat
  read_pos :: nat
  capacity :: nat
  root_ptr :: addr
  write_ptr :: "addr option"
  read_ptr :: "addr option"
  heap :: "node list"

definition RoundUp :: "nat \<Rightarrow> nat \<Rightarrow> nat" where
  "RoundUp n m = (n + m - 1) div m"

definition RoundDown :: "nat \<Rightarrow> nat \<Rightarrow> nat" where
  "RoundDown n m = n div m"

definition NODE_SIZE :: nat where
  "NODE_SIZE = 128"

definition Node :: "nat \<Rightarrow> node" where
  "Node sz = \<lparr>base_ptr = replicate sz None, rest_size = sz, next_ptr = None\<rparr>"

definition ByteArray :: "nat \<Rightarrow> bytearray" where
  "ByteArray baseSize =
     (let b = (if baseSize < NODE_SIZE then NODE_SIZE else baseSize) in
      \<lparr>base_size = b, read_pos = 0, capacity = b, root_ptr = 0,
       write_ptr = Some 0, read_ptr = Some 0, heap = [Node b]\<rparr>)"

definition GetCapacity :: "bytearray \<Rightarrow> nat" where
  "GetCapacity ba = capacity ba"

section \<open>Operations\<close>

text \<open>The allocation loop of \<^verbatim>\<open>ExtendCapacity\<close>: link a new node behind \<open>tmp\<close>, move on to it.\<close>

fun extend_loop :: "nat \<Rightarrow> addr \<Rightarrow> bytearray \<Rightarrow> bytearray" where
  "extend_loop 0 tmp ba = ba"
| "extend_loop (Suc n) tmp ba =
     (let a = length (heap ba);
          h = heap ba @ [Node (base_size ba)]
      in extend_loop n a
           (ba\<lparr>heap := h[tmp := (h ! tmp)\<lparr>next_ptr := Some a\<rparr>],
               capacity := capacity ba + base_size ba\<rparr>))"

definition ExtendCapacity :: "bytearray \<Rightarrow> nat \<Rightarrow> ba_error + bytearray" where
  "ExtendCapacity ba delta =
     (let node_cnt = RoundUp delta (base_size ba) in
      case write_ptr ba of
        None \<Rightarrow> if node_cnt = 0 then Inr ba else Inl NullDeref
      | Some tmp \<Rightarrow> Inr (extend_loop node_cnt tmp ba))"

text \<open>
  The copy loop of \<^verbatim>\<open>Write\<close>; \<open>buf\<close> is what is left of the source, from \<^verbatim>\<open>buf_pos\<close> on. With a null
  \<^verbatim>\<open>write_ptr_\<close> neither branch of the body runs and the loop spins: the value is \<open>None\<close>.
\<close>

partial_function (option) write_loop :: "bytearray \<Rightarrow> cell list \<Rightarrow> bytearray option" where
  "write_loop ba buf =
     (if buf = [] then Some ba
      else case write_ptr ba of
        None \<Rightarrow> write_loop ba buf
      | Some p \<Rightarrow>
          (let nd = heap ba ! p;
               start = base_size ba - rest_size nd
           in if length buf \<le> rest_size nd
              then Some (ba\<lparr>heap := (heap ba)
                     [p := nd\<lparr>base_ptr := memcpy_at start buf (base_ptr nd),
                              rest_size := rest_size nd - length buf\<rparr>]\<rparr>)
              else write_loop
                     (ba\<lparr>heap := (heap ba)
                          [p := nd\<lparr>base_ptr := memcpy_at start (take (rest_size nd) buf) (base_ptr nd),
                                   rest_size := 0\<rparr>],
                         write_ptr := next_ptr nd\<rparr>)
                     (drop (rest_size nd) buf)))"

definition Write :: "bytearray \<Rightarrow> cell list \<Rightarrow> ba_error + bytearray" where
  "Write ba buf =
     (case write_ptr ba of
        None \<Rightarrow> Inr ba
      | Some p \<Rightarrow>
          if buf = [] then Inr ba
          else res_bind
                 (if rest_size (heap ba ! p) < length buf
                  then ExtendCapacity ba (length buf) else Inr ba)
                 (\<lambda>ba'. case write_loop ba' buf of None \<Rightarrow> Inl Hang | Some ba'' \<Rightarrow> Inr ba''))"

text \<open>The copy loop of \<^verbatim>\<open>Read\<close>; the bytes copied so far are accumulated in front.\<close>

function read_loop :: "bytearray \<Rightarrow> nat \<Rightarrow> ba_error + cell list \<times> bytearray" where
  "read_loop ba sz =
     (if sz = 0 then Inr ([], ba)
      else if base_size ba = 0 then Inl DivByZero
      else let start = read_pos ba mod base_size ba;
               read_sz = min (base_size ba - start) sz
           in case read_ptr ba of
                None \<Rightarrow> Inl NullDeref
              | Some p \<Rightarrow>
                  (let nd = heap ba ! p;
                       ba' = ba\<lparr>read_ptr := (if start + read_sz = base_size ba
                                            then next_ptr nd else read_ptr ba),
                                read_pos := read_pos ba + read_sz\<rparr>
                   in res_bind (read_loop ba' (sz - read_sz))
                        (\<lambda>(rest, ba''). Inr (take read_sz (drop start (base_ptr nd)) @ rest, ba''))))"
  by pat_completeness auto
termination
  by (relation "measure (\<lambda>(ba, sz). sz)") auto

declare read_loop.simps [simp del]

definition Read :: "bytearray \<Rightarrow> nat \<Rightarrow> ba_error + cell list \<times> bytearray" where
  "Read ba sz = (if sz > capacity ba then Inl OutOfRange else read_loop ba sz)"

definition Clear :: "bytearray \<Rightarrow> bytearray" where
  "Clear ba =
     (let a = length (heap ba) in
      ba\<lparr>heap := heap ba @ [Node (base_size ba)], root_ptr := a,
         read_ptr := Some a, write_ptr := Some a, read_pos := 0\<rparr>)"

definition SetAllBits :: "bytearray \<Rightarrow> cell list \<Rightarrow> ba_error + bytearray" where
  "SetAllBits ba iov = Write (Clear ba) iov"

text \<open>
  \<^verbatim>\<open>BitsStream\<close> walks the list from the root: a node with a successor is copied whole, the last
  one up to its write position. \<open>None\<close> would be a walk that never reaches the end.
\<close>

partial_function (option) bits_loop :: "bytearray \<Rightarrow> addr option \<Rightarrow> cell list \<Rightarrow> cell list option" where
  "bits_loop ba tmp buf =
     (case tmp of
        None \<Rightarrow> Some buf
      | Some p \<Rightarrow>
          (let nd = heap ba ! p in
           if next_ptr nd \<noteq> None
           then bits_loop ba (next_ptr nd) (buf @ take (base_size ba) (base_ptr nd))
           else bits_loop ba (next_ptr nd)
                  (buf @ take (base_size ba - rest_size nd) (base_ptr nd))))"

definition BitsStream :: "bytearray \<Rightarrow> cell list option" where
  "BitsStream ba = bits_loop ba (Some (root_ptr ba)) []"

definition GetAllBits :: "bytearray \<Rightarrow> cell list option" where
  "GetAllBits ba = BitsStream ba"

text \<open>An \<^verbatim>\<open>iovec\<close> that points at the start of a node's buffer: the node and a length.\<close>

partial_function (option) buffer_loop ::
  "bytearray \<Rightarrow> addr option \<Rightarrow> (addr \<times> nat) list \<Rightarrow> (addr \<times> nat) list option" where
  "buffer_loop ba tmp ivec =
     (case tmp of
        None \<Rightarrow> Some ivec
      | Some p \<Rightarrow>
          (let nd = heap ba ! p;
               iov_len = (if rest_size nd = 0 then base_size ba else base_size ba - rest_size nd)
           in buffer_loop ba (next_ptr nd) (ivec @ [(p, iov_len)])))"

definition GetBuffer ::
  "bytearray \<Rightarrow> (addr \<times> nat) list \<Rightarrow> nat \<Rightarrow> ba_error + (addr \<times> nat) list \<times> bytearray" where
  "GetBuffer ba ivec len =
     res_bind (if capacity ba < len then ExtendCapacity ba len else Inr ba)
       (\<lambda>ba'. case buffer_loop ba' (Some (root_ptr ba')) ivec of
                None \<Rightarrow> Inl Hang
              | Some ivec' \<Rightarrow> Inr (ivec', ba'))"

text \<open>
  \<^verbatim>\<open>Dump\<close> prints one line per node through \<^verbatim>\<open>PrintMemory\<close>, which accepts the sizes of the
  integer types only; the output is the error line or the bytes shown.
\<close>

datatype dump_line = InvalidNumBytes | Bytes "cell list"

definition PrintMemory :: "cell list \<Rightarrow> nat \<Rightarrow> dump_line" where
  "PrintMemory ptr numBytes =
     (if numBytes \<noteq> 1 \<and> numBytes \<noteq> 2 \<and> numBytes \<noteq> 4 \<and> numBytes \<noteq> 8 then InvalidNumBytes
      else Bytes (take numBytes ptr))"

partial_function (option) dump_loop ::
  "bytearray \<Rightarrow> addr option \<Rightarrow> dump_line list \<Rightarrow> dump_line list option" where
  "dump_loop ba tmp out =
     (case tmp of
        None \<Rightarrow> Some out
      | Some p \<Rightarrow>
          dump_loop ba (next_ptr (heap ba ! p))
            (out @ [PrintMemory (base_ptr (heap ba ! p)) (base_size ba)]))"

definition Dump :: "bytearray \<Rightarrow> dump_line list option" where
  "Dump ba = dump_loop ba (Some (root_ptr ba)) []"

end
