(* ===== verification/Byte_Queue.thy ===== *)
theory Byte_Queue
  imports Byte_Array
begin

text \<open>
  The byte array implements a first-in first-out queue of bytes.
  \<open>ba_rep\<close> is the invariant of the linked list, \<open>ba_queue\<close> the abstraction relation, the locale
  \<open>byte_stream\<close> the interface the codecs build on, interpreted by \<open>Write\<close> and \<open>Read\<close>.
  The last section has the properties, those that hold and the states in which the code
  leaves the queue behaviour (a drained node, spare nodes, a stale capacity).
\<close>

section \<open>Representation\<close>

text \<open>
  \<open>ba_rep ba pre p post\<close>: the list from the root is \<open>pre @ p # post\<close>; the nodes \<open>pre\<close> are full,
  \<open>p\<close> is where writing goes on, the nodes \<open>post\<close> are still empty.
\<close>

definition ba_rep :: "bytearray \<Rightarrow> addr list \<Rightarrow> addr \<Rightarrow> addr list \<Rightarrow> bool" where
  "ba_rep ba pre p post \<longleftrightarrow>
     0 < base_size ba \<and>
     chain (\<lambda>a. next_ptr (heap ba ! a)) (length (heap ba)) (Some (root_ptr ba)) (pre @ p # post) \<and>
     distinct (pre @ p # post) \<and> write_ptr ba = Some p \<and>
     (\<forall>a \<in> set (pre @ p # post). length (base_ptr (heap ba ! a)) = base_size ba) \<and>
     (\<forall>a \<in> set pre. rest_size (heap ba ! a) = 0) \<and>
     rest_size (heap ba ! p) \<le> base_size ba \<and>
     (\<forall>a \<in> set post. rest_size (heap ba ! a) = base_size ba) \<and>
     base_size ba * length (pre @ p # post) \<le> capacity ba"

text \<open>All bytes of the nodes \<open>as\<close>, and the bytes written so far.\<close>

definition node_bytes :: "bytearray \<Rightarrow> addr list \<Rightarrow> cell list" where
  "node_bytes ba as = concat (map (\<lambda>a. base_ptr (heap ba ! a)) as)"

definition stored :: "bytearray \<Rightarrow> addr list \<Rightarrow> addr \<Rightarrow> cell list" where
  "stored ba pre p = node_bytes ba pre @
     take (base_size ba - rest_size (heap ba ! p)) (base_ptr (heap ba ! p))"

text \<open>The read pointer is the node the read position lies in.\<close>

definition reader_at :: "bytearray \<Rightarrow> addr list \<Rightarrow> bool" where
  "reader_at ba as \<longleftrightarrow> read_ptr ba = nth_ptr as (read_pos ba div base_size ba)"

lemma ba_repD:
  assumes "ba_rep ba pre p post"
  shows "0 < base_size ba"
    "chain (\<lambda>a. next_ptr (heap ba ! a)) (length (heap ba)) (Some (root_ptr ba)) (pre @ p # post)"
    "distinct (pre @ p # post)" "write_ptr ba = Some p"
    "\<And>a. a \<in> set (pre @ p # post) \<Longrightarrow> length (base_ptr (heap ba ! a)) = base_size ba"
    "\<And>a. a \<in> set pre \<Longrightarrow> rest_size (heap ba ! a) = 0"
    "rest_size (heap ba ! p) \<le> base_size ba"
    "\<And>a. a \<in> set post \<Longrightarrow> rest_size (heap ba ! a) = base_size ba"
    "base_size ba * length (pre @ p # post) \<le> capacity ba"
    "\<And>a. a \<in> set (pre @ p # post) \<Longrightarrow> a < length (heap ba)"
  using assms by (auto simp: ba_rep_def dest: chain_bound)

lemma length_node_bytes:
  "ba_rep ba pre p post \<Longrightarrow> set as \<subseteq> set (pre @ p # post) \<Longrightarrow>
   length (node_bytes ba as) = base_size ba * length as"
  unfolding node_bytes_def by (rule length_concat_blocks) (blast dest: ba_repD(5))

lemma length_stored:
  assumes "ba_rep ba pre p post"
  shows "length (stored ba pre p) =
    base_size ba * length pre + (base_size ba - rest_size (heap ba ! p))"
proof -
  have "length (node_bytes ba pre) = base_size ba * length pre"
    by (rule length_node_bytes [OF assms]) auto
  with ba_repD(5) [OF assms, of p] show ?thesis by (simp add: stored_def)
qed

lemma node_bytes_append: "node_bytes ba (as @ bs) = node_bytes ba as @ node_bytes ba bs"
  by (simp add: node_bytes_def)

lemma stored_prefix:
  assumes "ba_rep ba pre p post"
  shows "take (length (stored ba pre p)) (node_bytes ba (pre @ p # post)) = stored ba pre p"
proof -
  have "length (node_bytes ba pre) = base_size ba * length pre"
    by (rule length_node_bytes [OF assms]) auto
  with length_stored [OF assms] ba_repD(5) [OF assms, of p] show ?thesis
    by (simp add: stored_def node_bytes_def)
qed

lemma node_bytes_cong:
  "(\<And>a. a \<in> set as \<Longrightarrow> base_ptr (heap ba' ! a) = base_ptr (heap ba ! a)) \<Longrightarrow>
   node_bytes ba' as = node_bytes ba as"
  by (simp add: node_bytes_def cong: map_cong)

lemma RoundUp_bounds:
  assumes "0 < m"
  shows "n \<le> m * RoundUp n m" and "m * RoundUp n m < n + m"
proof -
  have "m * RoundUp n m + (n + m - 1) mod m = n + m - 1"
    by (simp add: RoundUp_def)
  moreover have "(n + m - 1) mod m < m" using assms by simp
  ultimately show "n \<le> m * RoundUp n m" "m * RoundUp n m < n + m"
    using assms by linarith+
qed

section \<open>Writing\<close>

text \<open>Updating the contents of one node leaves the links of the list alone.\<close>

lemma next_ptr_update:
  "next_ptr nd = next_ptr (h ! p) \<Longrightarrow> next_ptr (h[p := nd] ! a) = next_ptr (h ! a)"
  by (cases "p < length h"; cases "a = p") (auto simp: nth_list_update list_update_beyond)

lemma chain_update_node:
  "chain (\<lambda>a. next_ptr (h ! a)) (length h) q as \<Longrightarrow> next_ptr nd = next_ptr (h ! p) \<Longrightarrow>
   chain (\<lambda>a. next_ptr (h[p := nd] ! a)) (length h) q as"
  by (erule chain_cong) (simp_all add: next_ptr_update)

lemma ba_rep_next:
  assumes "ba_rep ba pre p post"
  shows "next_ptr (heap ba ! p) = (case post of [] \<Rightarrow> None | q # _ \<Rightarrow> Some q)"
  using chain_nth_next [OF ba_repD(2) [OF assms], of "length pre"]
  by (cases post) (auto simp: nth_append nth_ptr_def)

text \<open>The final step of the loop: the rest of the source fits into the current node.\<close>

lemma ba_rep_fill:
  assumes rep: "ba_rep ba pre p post" and fits: "length buf \<le> rest_size (heap ba ! p)"
    and ba': "ba' = ba\<lparr>heap := (heap ba)[p := (heap ba ! p)
        \<lparr>base_ptr := memcpy_at (base_size ba - rest_size (heap ba ! p)) buf (base_ptr (heap ba ! p)),
         rest_size := rest_size (heap ba ! p) - length buf\<rparr>]\<rparr>"
  shows "ba_rep ba' pre p post" and "stored ba' pre p = stored ba pre p @ buf"
proof -
  let ?nd = "heap ba ! p"
  have p: "p < length (heap ba)" and len: "length (base_ptr ?nd) = base_size ba"
    and rest: "rest_size ?nd \<le> base_size ba" and fresh: "p \<notin> set pre" "p \<notin> set post"
    using ba_repD [OF rep] by auto
  have other: "heap ba' ! a = heap ba ! a" if "a \<noteq> p" for a
    using that by (simp add: ba')
  have here: "base_ptr (heap ba' ! p) = memcpy_at (base_size ba - rest_size ?nd) buf (base_ptr ?nd)"
      "rest_size (heap ba' ! p) = rest_size ?nd - length buf"
    using p by (simp_all add: ba')
  have fits': "base_size ba - rest_size ?nd + length buf \<le> length (base_ptr ?nd)"
    using fits rest len by simp
  have flds: "base_size ba' = base_size ba" "root_ptr ba' = root_ptr ba"
      "write_ptr ba' = write_ptr ba" "capacity ba' = capacity ba"
    by (simp_all add: ba')
  show "ba_rep ba' pre p post"
    unfolding ba_rep_def flds
  proof (intro conjI ballI)
    show "chain (\<lambda>a. next_ptr (heap ba' ! a)) (length (heap ba')) (Some (root_ptr ba)) (pre @ p # post)"
      unfolding ba' using ba_repD(2) [OF rep] by (simp add: chain_update_node del: chain.simps)
    show "length (base_ptr (heap ba' ! a)) = base_size ba" if "a \<in> set (pre @ p # post)" for a
      using that ba_repD(5) [OF rep, of a] other here fits' len
      by (cases "a = p") (simp_all add: memory_simps)
    show "rest_size (heap ba' ! a) = 0" if "a \<in> set pre" for a
      using that ba_repD(6) [OF rep, of a] other [of a] fresh by (cases "a = p") auto
    show "rest_size (heap ba' ! a) = base_size ba" if "a \<in> set post" for a
      using that ba_repD(8) [OF rep, of a] other [of a] fresh by (cases "a = p") auto
  qed (use ba_repD [OF rep] here rest in auto)
  have "node_bytes ba' pre = node_bytes ba pre"
    by (rule node_bytes_cong) (metis fresh(1) other)
  moreover have "base_size ba - (rest_size ?nd - length buf) = base_size ba - rest_size ?nd + length buf"
    using fits rest by simp
  ultimately show "stored ba' pre p = stored ba pre p @ buf"
    using fits' by (simp add: stored_def flds here memory_simps)
qed

text \<open>The other step: the node is filled up and writing moves on to its successor.\<close>

lemma ba_rep_advance:
  assumes rep: "ba_rep ba pre p (q # post)" and full: "rest_size (heap ba ! p) = 0"
  shows "ba_rep (ba\<lparr>write_ptr := Some q\<rparr>) (pre @ [p]) q post"
    and "stored (ba\<lparr>write_ptr := Some q\<rparr>) (pre @ [p]) q = stored ba pre p"
  using ba_repD [OF rep] full by (auto simp: ba_rep_def stored_def node_bytes_def)

text \<open>What a write leaves alone.\<close>

definition same_frame :: "bytearray \<Rightarrow> bytearray \<Rightarrow> bool" where
  "same_frame ba ba' \<longleftrightarrow> base_size ba' = base_size ba \<and> root_ptr ba' = root_ptr ba \<and>
     read_pos ba' = read_pos ba \<and> read_ptr ba' = read_ptr ba"

lemma same_frame_trans: "same_frame a b \<Longrightarrow> same_frame b c \<Longrightarrow> same_frame a c"
  by (simp add: same_frame_def)

lemma write_loop_fits:
  assumes rep: "ba_rep ba pre p post" and fits: "length buf \<le> rest_size (heap ba ! p)"
  shows "\<exists>ba'. write_loop ba buf = Some ba' \<and> ba_rep ba' pre p post \<and>
    stored ba' pre p = stored ba pre p @ buf \<and> same_frame ba ba' \<and> capacity ba' = capacity ba \<and>
    (buf \<noteq> [] \<longrightarrow> rest_size (heap ba' ! p) < base_size ba)"
proof (cases "buf = []")
  case True
  with rep show ?thesis
    by (subst write_loop.simps) (auto simp: same_frame_def)
next
  case False
  let ?nd = "heap ba ! p"
  let ?ba' = "ba\<lparr>heap := (heap ba)[p := ?nd
      \<lparr>base_ptr := memcpy_at (base_size ba - rest_size ?nd) buf (base_ptr ?nd),
       rest_size := rest_size ?nd - length buf\<rparr>]\<rparr>"
  have "write_loop ba buf = Some ?ba'"
    using False fits ba_repD(4) [OF rep] by (subst write_loop.simps) (simp add: Let_def)
  moreover have "rest_size (heap ?ba' ! p) < base_size ba"
  proof -
    have "0 < length buf" using False by simp
    with fits ba_repD(7) [OF rep] have "rest_size ?nd - length buf < base_size ba" by linarith
    with ba_repD(10) [OF rep, of p] show ?thesis by simp
  qed
  ultimately show ?thesis
    using ba_rep_fill [OF rep fits refl] by (intro exI [of _ ?ba']) (simp add: same_frame_def)
qed

lemma write_loop_step:
  assumes rep: "ba_rep ba pre p (q # post)" and more: "rest_size (heap ba ! p) < length buf"
  shows "\<exists>ba'. write_loop ba buf = write_loop ba' (drop (rest_size (heap ba ! p)) buf) \<and>
    ba_rep ba' (pre @ [p]) q post \<and>
    stored ba' (pre @ [p]) q = stored ba pre p @ take (rest_size (heap ba ! p)) buf \<and>
    same_frame ba ba' \<and> capacity ba' = capacity ba \<and> rest_size (heap ba' ! q) = base_size ba"
proof -
  let ?nd = "heap ba ! p"
  let ?src = "take (rest_size ?nd) buf"
  let ?ba1 = "ba\<lparr>heap := (heap ba)[p := ?nd
      \<lparr>base_ptr := memcpy_at (base_size ba - rest_size ?nd) ?src (base_ptr ?nd),
       rest_size := rest_size ?nd - length ?src\<rparr>]\<rparr>"
  let ?ba2 = "?ba1\<lparr>write_ptr := Some q\<rparr>"
  have len: "length ?src = rest_size ?nd" using more by simp
  then have fits: "length ?src \<le> rest_size ?nd" by simp
  note fill = ba_rep_fill [OF rep fits refl]
  have p: "p < length (heap ba)" using ba_repD(10) [OF rep, of p] by simp
  then have full: "rest_size (heap ?ba1 ! p) = 0" using len by simp
  note adv = ba_rep_advance [OF fill(1) full]
  have "write_loop ba buf = write_loop ?ba2 (drop (rest_size ?nd) buf)"
    using more len ba_repD(4) [OF rep] ba_rep_next [OF rep]
    by (subst write_loop.simps) (auto simp: Let_def)
  moreover have "rest_size (heap ?ba2 ! q) = base_size ba"
    using ba_repD(3,8) [OF rep] by auto
  ultimately show ?thesis
    using adv fill(2) by (intro exI [of _ ?ba2]) (simp add: same_frame_def)
qed

text \<open>With enough room in the list the loop ends and has appended exactly the source.\<close>

lemma write_loop_correct:
  assumes "ba_rep ba pre p post"
    and "length buf \<le> rest_size (heap ba ! p) + base_size ba * length post"
  shows "\<exists>ba' pre' p' post'. write_loop ba buf = Some ba' \<and> ba_rep ba' pre' p' post' \<and>
    pre' @ p' # post' = pre @ p # post \<and> length pre \<le> length pre' \<and>
    stored ba' pre' p' = stored ba pre p @ buf \<and>
    same_frame ba ba' \<and> capacity ba' = capacity ba \<and>
    (buf \<noteq> [] \<longrightarrow> rest_size (heap ba' ! p') < base_size ba)"
  using assms
proof (induction post arbitrary: ba pre p buf)
  case Nil
  then show ?case using write_loop_fits [OF Nil.prems(1), of buf] by fastforce
next
  case (Cons q post)
  let ?r = "rest_size (heap ba ! p)"
  show ?case
  proof (cases "length buf \<le> ?r")
    case True
    then show ?thesis using write_loop_fits [OF Cons.prems(1)] by blast
  next
    case False
    then obtain ba1 where ba1: "write_loop ba buf = write_loop ba1 (drop ?r buf)"
        "ba_rep ba1 (pre @ [p]) q post" "stored ba1 (pre @ [p]) q = stored ba pre p @ take ?r buf"
        "same_frame ba ba1" "capacity ba1 = capacity ba" "rest_size (heap ba1 ! q) = base_size ba"
      using write_loop_step [OF Cons.prems(1), of buf] by auto
    have "length (drop ?r buf) \<le> rest_size (heap ba1 ! q) + base_size ba1 * length post"
      using Cons.prems(2) ba1(4,6) by (simp add: same_frame_def)
    from Cons.IH [OF ba1(2) this] obtain ba' pre' p' post' where ba':
        "write_loop ba1 (drop ?r buf) = Some ba'" "ba_rep ba' pre' p' post'"
        "pre' @ p' # post' = (pre @ [p]) @ q # post" "length (pre @ [p]) \<le> length pre'"
        "stored ba' pre' p' = stored ba1 (pre @ [p]) q @ drop ?r buf"
        "same_frame ba1 ba'" "capacity ba' = capacity ba1"
        "drop ?r buf \<noteq> [] \<longrightarrow> rest_size (heap ba' ! p') < base_size ba1"
      by blast
    have "same_frame ba ba'" using ba1(4) ba'(6) by (rule same_frame_trans)
    with ba' ba1 False show ?thesis
      by (intro exI [of _ ba'] exI [of _ pre'] exI [of _ p'] exI [of _ post'])
         (auto simp: same_frame_def)
  qed
qed

section \<open>Growing\<close>

lemma extend_loop_frame:
  "same_frame ba (extend_loop n tmp ba) \<and> write_ptr (extend_loop n tmp ba) = write_ptr ba \<and>
   capacity (extend_loop n tmp ba) = capacity ba + n * base_size ba \<and>
   length (heap (extend_loop n tmp ba)) = length (heap ba) + n"
proof (induction n arbitrary: tmp ba)
  case 0
  then show ?case by (simp add: same_frame_def)
next
  case (Suc n)
  then show ?case by (auto simp: Let_def same_frame_def)
qed

text \<open>The nodes there were keep their contents; only \<open>tmp\<close> gets a new successor.\<close>

lemma extend_loop_old:
  "a < length (heap ba) \<Longrightarrow> tmp < length (heap ba) \<Longrightarrow>
   heap (extend_loop n tmp ba) ! a =
     (if a = tmp \<and> 0 < n then (heap ba ! a)\<lparr>next_ptr := Some (length (heap ba))\<rparr> else heap ba ! a)"
proof (induction n arbitrary: tmp ba)
  case 0
  then show ?case by simp
next
  case (Suc n)
  then show ?case by (simp add: Let_def nth_append nth_list_update)
qed

text \<open>The new ones are empty and linked in order.\<close>

lemma extend_loop_new:
  "i < n \<Longrightarrow> tmp < length (heap ba) \<Longrightarrow>
   heap (extend_loop n tmp ba) ! (length (heap ba) + i) = (Node (base_size ba))
     \<lparr>next_ptr := (if Suc i < n then Some (length (heap ba) + Suc i) else None)\<rparr>"
proof (induction n arbitrary: tmp ba i)
  case 0
  then show ?case by simp
next
  case (Suc n)
  let ?L = "length (heap ba)"
  let ?h = "heap ba @ [Node (base_size ba)]"
  let ?ba1 = "ba\<lparr>heap := ?h[tmp := (?h ! tmp)\<lparr>next_ptr := Some ?L\<rparr>],
      capacity := capacity ba + base_size ba\<rparr>"
  have step: "extend_loop (Suc n) tmp ba = extend_loop n ?L ?ba1" by (simp add: Let_def)
  have L: "?L < length (heap ?ba1)" by simp
  show ?case
  proof (cases i)
    case 0
    with extend_loop_old [OF L L, of n] Suc.prems(2) show ?thesis
      unfolding step by (simp add: nth_append Node_def)
  next
    case (Suc j)
    with Suc.IH [of j ?L ?ba1] Suc.prems show ?thesis
      unfolding step by simp
  qed
qed

lemma chain_upt:
  assumes "\<And>i. i < n \<Longrightarrow> nx (L + i) = (if Suc i < n then Some (L + Suc i) else None)"
  shows "j \<le> n \<Longrightarrow> chain nx (L + n) (if j < n then Some (L + j) else None) [L + j..<L + n]"
proof (induction "n - j" arbitrary: j)
  case 0
  then show ?case by simp
next
  case (Suc m)
  then have j: "j < n" by simp
  moreover have "chain nx (L + n) (if Suc j < n then Some (L + Suc j) else None) [L + Suc j..<L + n]"
    by (rule Suc.hyps(1)) (use Suc.hyps(2) in simp_all)
  ultimately show ?case using assms [OF j] by (simp add: upt_conv_Cons)
qed

lemma ExtendCapacity_correct:
  assumes rep: "ba_rep ba pre p post"
  shows "\<exists>ba' post'. ExtendCapacity ba delta = Inr ba' \<and> ba_rep ba' pre p post' \<and>
    stored ba' pre p = stored ba pre p \<and> same_frame ba ba' \<and>
    capacity ba' = capacity ba + RoundUp delta (base_size ba) * base_size ba \<and>
    heap ba' ! p = (heap ba ! p)\<lparr>next_ptr := next_ptr (heap ba' ! p)\<rparr> \<and>
    (0 < delta \<longrightarrow> length post' = RoundUp delta (base_size ba))"
proof -
  let ?n = "RoundUp delta (base_size ba)" and ?L = "length (heap ba)"
  let ?ba' = "extend_loop ?n p ba"
  have ext: "ExtendCapacity ba delta = Inr ?ba'"
    using ba_repD(4) [OF rep] by (simp add: ExtendCapacity_def Let_def)
  note frame = extend_loop_frame [of ba ?n p]
  show ?thesis
  proof (cases "?n = 0")
    case True
    then have "delta = 0" using RoundUp_bounds(1) [OF ba_repD(1) [OF rep], of delta] by simp
    with True ext rep frame show ?thesis by (intro exI [of _ ?ba'] exI [of _ post]) simp
  next
    case False
    have old: "a < ?L" if "a \<in> set (pre @ [p])" for a using that ba_repD(10) [OF rep, of a] by auto
    have p: "p < ?L" and fresh: "p \<notin> set pre" using old ba_repD(3) [OF rep] by auto
    note keep = extend_loop_old [OF old p, of _ ?n]
    note new = extend_loop_new [OF _ p, of _ ?n]
    have "chain (\<lambda>a. next_ptr (heap ?ba' ! a)) (?L + ?n) (Some ?L) [?L..<?L + ?n]"
      using chain_upt [of ?n "\<lambda>a. next_ptr (heap ?ba' ! a)" ?L 0] new False by simp
    moreover have "chain_seg (\<lambda>a. next_ptr (heap ?ba' ! a)) (?L + ?n) (Some (root_ptr ba)) pre (Some p)"
      using ba_repD(2) [OF rep] fresh keep
      by (auto simp: chain_simps elim!: chain_seg_cong) 
    ultimately have "chain (\<lambda>a. next_ptr (heap ?ba' ! a)) (length (heap ?ba')) (Some (root_ptr ?ba'))
        (pre @ p # [?L..<?L + ?n])"
      using frame False p keep [of p] by (auto simp: same_frame_def chain_simps)
    moreover have "distinct (pre @ p # [?L..<?L + ?n])"
      using ba_repD(3) [OF rep] old by fastforce
    moreover have new': "base_ptr (heap ?ba' ! a) = replicate (base_size ba) None"
        "rest_size (heap ?ba' ! a) = base_size ba" if "a \<in> set [?L..<?L + ?n]" for a
      using that new [of "a - ?L"] by (auto simp: Node_def)
    moreover have "base_size ba * length (pre @ p # [?L..<?L + ?n]) \<le> capacity ?ba'"
      using frame ba_repD(9) [OF rep] by (simp add: algebra_simps)
    ultimately have "ba_rep ?ba' pre p [?L..<?L + ?n]"
      using frame False keep ba_repD [OF rep] by (auto simp: ba_rep_def same_frame_def)
    moreover have "stored ?ba' pre p = stored ba pre p"
      using frame False keep node_bytes_cong [of pre ?ba' ba] by (auto simp: stored_def same_frame_def)
    moreover have "heap ?ba' ! p = (heap ba ! p)\<lparr>next_ptr := next_ptr (heap ?ba' ! p)\<rparr>"
      using keep [of p] False by simp
    ultimately show ?thesis using ext frame
      by (intro exI [of _ ?ba'] exI [of _ "[?L..<?L + ?n]"]) simp
  qed
qed

section \<open>The byte queue a byte array implements\<close>

text \<open>
  \<open>ba_queue ba bs pos\<close>: the array holds the bytes \<open>bs\<close>, of which the first \<open>pos\<close> have been read.
  Outside the first node the write node holds at least one byte.
\<close>

definition ba_queue :: "bytearray \<Rightarrow> cell list \<Rightarrow> nat \<Rightarrow> bool" where
  "ba_queue ba bs pos \<longleftrightarrow>
     (\<exists>pre p post. ba_rep ba pre p post \<and> stored ba pre p = bs \<and> read_pos ba = pos \<and>
        pos \<le> length bs \<and> reader_at ba (pre @ p # post) \<and>
        (pre \<noteq> [] \<longrightarrow> rest_size (heap ba ! p) < base_size ba))"

lemma ba_queueI:
  "ba_rep ba pre p post \<Longrightarrow> stored ba pre p = bs \<Longrightarrow> read_pos ba = pos \<Longrightarrow> pos \<le> length bs \<Longrightarrow>
   reader_at ba (pre @ p # post) \<Longrightarrow> (pre \<noteq> [] \<Longrightarrow> rest_size (heap ba ! p) < base_size ba) \<Longrightarrow>
   ba_queue ba bs pos"
  unfolding ba_queue_def by blast

text \<open>
  The reader has caught up with the writer exactly at the end of a node: its pointer has left
  the write node already, and nodes linked in later are out of its reach.
\<close>

definition drained :: "nat \<Rightarrow> cell list \<Rightarrow> nat \<Rightarrow> bool" where
  "drained b bs pos \<longleftrightarrow> bs \<noteq> [] \<and> pos = length bs \<and> b dvd pos"

lemma ba_queue_ByteArray: "ba_queue (ByteArray n) [] 0"
proof -
  let ?ba = "ByteArray n"
  have "ba_rep ?ba [] 0 [] \<and> stored ?ba [] 0 = [] \<and> reader_at ?ba [0]"
    by (auto simp: ByteArray_def Let_def NODE_SIZE_def ba_rep_def stored_def node_bytes_def
        Node_def reader_at_def nth_ptr_def)
  then show ?thesis unfolding ba_queue_def
    by (intro exI [of _ "[]"] exI [of _ 0]) (auto simp: ByteArray_def Let_def)
qed

lemma base_size_ByteArray: "base_size (ByteArray n) = max n NODE_SIZE"
  by (simp add: ByteArray_def Let_def max_def)

text \<open>The bytes read so far end before the write node, or in it, unless the array is drained.\<close>

lemma reader_not_past:
  assumes rep: "ba_rep ba pre p post" and pos: "pos \<le> length (stored ba pre p)"
    and ndr: "\<not> drained (base_size ba) (stored ba pre p) pos"
  shows "pos div base_size ba \<le> length pre"
proof (rule ccontr)
  let ?b = "base_size ba"
  assume "\<not> ?thesis"
  then have "?b * Suc (length pre) \<le> ?b * (pos div ?b)" by (simp del: mult_Suc_right)
  also have "\<dots> \<le> pos" by simp
  finally have "?b * Suc (length pre) \<le> pos" .
  with pos have "pos = ?b * Suc (length pre)" "pos = length (stored ba pre p)"
    by (simp_all add: length_stored [OF rep])
  with ndr ba_repD(1) [OF rep] show False by (auto simp: drained_def)
qed

lemma nth_ptr_common: "k \<le> length pre \<Longrightarrow> nth_ptr (pre @ p # xs) k = nth_ptr (pre @ p # ys) k"
  by (auto simp: nth_ptr_def nth_append)

lemma Write_rep:
  assumes rep: "ba_rep ba pre p post" and ne: "buf \<noteq> []"
  shows "\<exists>ba' pre' p' post' ext. Write ba buf = Inr ba' \<and> ba_rep ba' pre' p' post' \<and>
    pre' @ p' # post' = pre @ p # ext \<and> stored ba' pre' p' = stored ba pre p @ buf \<and>
    same_frame ba ba' \<and> capacity ba \<le> capacity ba' \<and>
    rest_size (heap ba' ! p') < base_size ba \<and>
    (rest_size (heap ba ! p) < length buf \<longrightarrow> length ext = RoundUp (length buf) (base_size ba))"
proof (cases "length buf \<le> rest_size (heap ba ! p)")
  case True
  then show ?thesis
    using write_loop_fits [OF rep True] ne ba_repD(4) [OF rep]
    by (fastforce simp: Write_def)
next
  case False
  obtain ba1 ext where ba1: "ExtendCapacity ba (length buf) = Inr ba1" "ba_rep ba1 pre p ext"
      "stored ba1 pre p = stored ba pre p" "same_frame ba ba1" "capacity ba \<le> capacity ba1"
      "length ext = RoundUp (length buf) (base_size ba)"
    using ExtendCapacity_correct [OF rep, of "length buf"] ne by auto
  have "length buf \<le> rest_size (heap ba1 ! p) + base_size ba1 * length ext"
    using RoundUp_bounds(1) [OF ba_repD(1) [OF rep], of "length buf"] ba1(4,6)
    by (simp add: same_frame_def)
  from write_loop_correct [OF ba1(2) this] obtain ba' pre' p' post' where
    "write_loop ba1 buf = Some ba'" "ba_rep ba' pre' p' post'" "pre' @ p' # post' = pre @ p # ext"
    "stored ba' pre' p' = stored ba1 pre p @ buf" "same_frame ba1 ba'" "capacity ba' = capacity ba1"
    "rest_size (heap ba' ! p') < base_size ba1"
    using ne by auto
  with ba1 False ne ba_repD(4) [OF rep] show ?thesis
    by (intro exI [of _ ba'] exI [of _ pre'] exI [of _ p'] exI [of _ post'] exI [of _ ext])
       (auto simp: Write_def same_frame_def)
qed

lemma Write_Nil [simp]: "Write ba [] = Inr ba"
  by (simp add: Write_def split: option.split)

lemma Write_frame:
  assumes "ba_queue ba bs pos"
  shows "\<exists>ba'. Write ba buf = Inr ba' \<and> same_frame ba ba' \<and> capacity ba \<le> capacity ba'"
proof (cases "buf = []")
  case True
  then show ?thesis by (simp add: same_frame_def)
next
  case False
  with assms show ?thesis unfolding ba_queue_def by (metis Write_rep)
qed

lemma Write_queue:
  assumes q: "ba_queue ba bs pos" and ndr: "\<not> drained (base_size ba) bs pos"
  shows "\<exists>ba'. Write ba buf = Inr ba' \<and> ba_queue ba' (bs @ buf) pos \<and>
    same_frame ba ba' \<and> capacity ba \<le> capacity ba'"
proof (cases "buf = []")
  case True
  with q show ?thesis by (simp add: same_frame_def)
next
  case False
  from q obtain pre p post where rep: "ba_rep ba pre p post" and bs: "stored ba pre p = bs"
    and pos: "read_pos ba = pos" "pos \<le> length bs" and rd: "reader_at ba (pre @ p # post)"
    unfolding ba_queue_def by blast
  obtain ba' pre' p' post' ext where w: "Write ba buf = Inr ba'" "ba_rep ba' pre' p' post'"
      "pre' @ p' # post' = pre @ p # ext" "stored ba' pre' p' = stored ba pre p @ buf"
      "same_frame ba ba'" "capacity ba \<le> capacity ba'" "rest_size (heap ba' ! p') < base_size ba"
    using Write_rep [OF rep False] by blast
  have "pos div base_size ba \<le> length pre"
    using reader_not_past [OF rep] pos ndr bs by simp
  then have "reader_at ba' (pre' @ p' # post')"
    using rd pos w(3,5) nth_ptr_common [of "pos div base_size ba" pre p post ext]
    by (auto simp: reader_at_def same_frame_def)
  then have "ba_queue ba' (bs @ buf) pos"
    by (rule ba_queueI [OF w(2), rotated 3]) (use w bs pos in \<open>auto simp: same_frame_def\<close>)
  with w show ?thesis by blast
qed

section \<open>Reading\<close>

text \<open>
  A read inside the allocated list returns the bytes at the read position, written or not,
  and moves on; a read that runs past the last node dereferences the null pointer there.
\<close>

definition read_done :: "bytearray \<Rightarrow> addr list \<Rightarrow> nat \<Rightarrow> bytearray" where
  "read_done ba as n = ba\<lparr>read_pos := read_pos ba + n,
     read_ptr := nth_ptr as ((read_pos ba + n) div base_size ba)\<rparr>"

text \<open>One round of the loop stays inside the node the read position lies in.\<close>

lemma read_round:
  assumes b: "0 < (b::nat)" and "n \<noteq> 0" and sz: "sz = min (b - pos mod b) n"
  shows "0 < sz" "sz \<le> n" "pos + sz \<le> b * Suc (pos div b)"
    "(pos + sz) div b = (if pos mod b + sz = b then Suc (pos div b) else pos div b)"
proof -
  have m: "pos mod b < b" using b by simp
  with \<open>n \<noteq> 0\<close> show "0 < sz" "sz \<le> n" by (simp_all add: sz)
  have le: "pos mod b + sz \<le> b" using m by (simp add: sz)
  have eq: "pos + sz = b * (pos div b) + (pos mod b + sz)" by simp
  then show "pos + sz \<le> b * Suc (pos div b)"
    unfolding mult_Suc_right using le by linarith
  show "(pos + sz) div b = (if pos mod b + sz = b then Suc (pos div b) else pos div b)"
  proof (cases "pos mod b + sz = b")
    case True
    with eq have "pos + sz = b * Suc (pos div b)" by (simp only: mult_Suc_right add.commute)
    with True b show ?thesis by (simp del: mult_Suc_right)
  next
    case False
    with le have "pos mod b + sz < b" by simp
    then have "(pos mod b + sz) div b = 0" by simp
    moreover have "(b * (pos div b) + (pos mod b + sz)) div b = pos div b + (pos mod b + sz) div b"
      using b by (intro div_mult_self4) simp
    ultimately show ?thesis using False by (simp only: eq if_False add_0_right)
  qed
qed

lemma node_bytes_at:
  assumes len: "\<And>a. a \<in> set as \<Longrightarrow> length (base_ptr (heap ba ! a)) = b"
    and b: "0 < b" and k: "pos div b < length as" and sz: "sz \<le> b - pos mod b"
  shows "take sz (drop pos (node_bytes ba as)) = take sz (drop (pos mod b) (base_ptr (heap ba ! (as ! (pos div b)))))"
proof -
  let ?k = "pos div b"
  have "drop (b * ?k) (node_bytes ba as) = concat (map (\<lambda>a. base_ptr (heap ba ! a)) (drop ?k as))"
    unfolding node_bytes_def using k len by (intro drop_concat_blocks) auto
  also have "drop ?k as = as ! ?k # drop (Suc ?k) as" using k by (rule Cons_nth_drop_Suc [symmetric])
  finally have "drop (pos mod b) (drop (b * ?k) (node_bytes ba as)) =
      drop (pos mod b) (base_ptr (heap ba ! (as ! ?k)) @ concat (map (\<lambda>a. base_ptr (heap ba ! a)) (drop (Suc ?k) as)))"
    by simp
  moreover have "drop (pos mod b) (drop (b * ?k) (node_bytes ba as)) = drop pos (node_bytes ba as)"
    by (simp add: add.commute)
  moreover have "length (base_ptr (heap ba ! (as ! ?k))) = b" using len k by simp
  moreover have "pos mod b < b" using b by simp
  ultimately show ?thesis using sz by simp
qed

lemma read_loop_chain:
  assumes "chain (\<lambda>a. next_ptr (heap ba ! a)) (length (heap ba)) (Some (root_ptr ba)) as"
    and "\<And>a. a \<in> set as \<Longrightarrow> length (base_ptr (heap ba ! a)) = base_size ba"
    and "0 < base_size ba" and "reader_at ba as"
  shows "read_loop ba n =
    (if n = 0 then Inr ([], ba)
     else if read_pos ba + n \<le> base_size ba * length as
     then Inr (take n (drop (read_pos ba) (node_bytes ba as)), read_done ba as n)
     else Inl NullDeref)"
  using assms
proof (induction n arbitrary: ba rule: less_induct)
  case (less n)
  let ?b = "base_size ba" and ?pos = "read_pos ba"
  let ?k = "?pos div ?b" and ?sz = "min (?b - ?pos mod ?b) n"
  note b = less.prems(3) and rd = less.prems(4)
  show ?case
  proof (cases "n = 0")
    case True
    then show ?thesis by (simp add: read_loop.simps)
  next
    case n: False
    obtain sz where sz: "sz = min (?b - ?pos mod ?b) n" by simp
    note rnd = read_round [OF b n sz]
    show ?thesis
    proof (cases "?k < length as")
      case False
      then have "?b * length as \<le> ?b * ?k" by simp
      also have "\<dots> \<le> ?pos" by simp
      finally have "\<not> ?pos + n \<le> ?b * length as" using n by linarith
      with False n b rd show ?thesis
        by (simp add: read_loop.simps [of ba n] Let_def reader_at_def nth_ptr_def)
    next
      case True
      let ?a = "as ! ?k"
      let ?ba' = "ba\<lparr>read_ptr := (if ?pos mod ?b + sz = ?b then next_ptr (heap ba ! ?a) else Some ?a),
                    read_pos := ?pos + sz\<rparr>"
      have ptr: "read_ptr ba = Some ?a" using rd True by (simp add: reader_at_def nth_ptr_def)
      have rd': "reader_at ?ba' as"
        using chain_nth_next [OF less.prems(1) True] rnd(4) True
        by (auto simp: reader_at_def nth_ptr_def)
      have fin: "?ba' = read_done ba as sz" "read_done ?ba' as (n - sz) = read_done ba as n"
        using rd' rnd(2) by (simp_all add: read_done_def reader_at_def)
      have "?b * Suc ?k \<le> ?b * length as" using True by (intro mult_le_mono2) simp
      with rnd(3) have bound: "?pos + sz \<le> ?b * length as" by (rule le_trans)
      have IH: "read_loop ?ba' (n - sz) =
          (if n - sz = 0 then Inr ([], ?ba')
           else if ?pos + n \<le> ?b * length as
           then Inr (take (n - sz) (drop (?pos + sz) (node_bytes ba as)), read_done ba as n)
           else Inl NullDeref)"
        using less.IH [of "n - sz" ?ba'] rnd(1,2) n less.prems rd' fin(2) by (simp add: node_bytes_def)
      have "take sz (drop (?pos mod ?b) (base_ptr (heap ba ! ?a))) = take sz (drop ?pos (node_bytes ba as))"
        using node_bytes_at [OF less.prems(2) b True] sz by simp
      then have "read_loop ba n = res_bind (read_loop ?ba' (n - sz))
          (\<lambda>(rest, ba''). Inr (take sz (drop ?pos (node_bytes ba as)) @ rest, ba''))"
        using n b ptr by (simp add: read_loop.simps [of ba n] Let_def sz)
      moreover have "take n (drop ?pos (node_bytes ba as)) =
          take sz (drop ?pos (node_bytes ba as)) @ take (n - sz) (drop (?pos + sz) (node_bytes ba as))"
        using take_split_at [OF rnd(2), of "drop ?pos (node_bytes ba as)"] by (simp add: add.commute)
      moreover have "n - sz = 0 \<longrightarrow> sz = n" using rnd(2) by simp
      ultimately show ?thesis
        using IH n bound fin(1) by auto
    qed
  qed
qed

text \<open>The three outcomes of \<^verbatim>\<open>Read\<close> on a well-formed array.\<close>

lemma Read_rep:
  assumes rep: "ba_rep ba pre p post" and rd: "reader_at ba (pre @ p # post)"
  shows "Read ba n =
    (if n > capacity ba then Inl OutOfRange
     else if n = 0 then Inr ([], ba)
     else if read_pos ba + n \<le> base_size ba * length (pre @ p # post)
     then Inr (take n (drop (read_pos ba) (node_bytes ba (pre @ p # post))), read_done ba (pre @ p # post) n)
     else Inl NullDeref)"
  unfolding Read_def
  using read_loop_chain [OF ba_repD(2) [OF rep] ba_repD(5) [OF rep] ba_repD(1) [OF rep] rd] by simp

lemma Read_queue:
  assumes q: "ba_queue ba bs pos" and n: "pos + n \<le> length bs"
  shows "\<exists>ba'. Read ba n = Inr (take n (drop pos bs), ba') \<and> ba_queue ba' bs (pos + n) \<and>
    base_size ba' = base_size ba \<and> capacity ba' = capacity ba"
proof (cases "n = 0")
  case True
  with q show ?thesis by (auto simp: Read_def read_loop.simps)
next
  case False
  from q obtain pre p post where rep: "ba_rep ba pre p post" and bs: "stored ba pre p = bs"
    and pos: "read_pos ba = pos" "pos \<le> length bs" and rd: "reader_at ba (pre @ p # post)"
    and ne: "pre \<noteq> [] \<longrightarrow> rest_size (heap ba ! p) < base_size ba"
    unfolding ba_queue_def by blast
  let ?as = "pre @ p # post"
  let ?ba' = "read_done ba ?as n"
  have "length bs \<le> base_size ba * length ?as"
    using length_stored [OF rep] bs by (simp add: distrib_left)
  with n have bound: "pos + n \<le> base_size ba * length ?as" by simp
  with ba_repD(9) [OF rep] have "n \<le> capacity ba" by linarith
  moreover have "take n (drop pos (node_bytes ba ?as)) = take n (drop pos bs)"
  proof -
    have "take n (drop pos bs) = take n (drop pos (take (length bs) (node_bytes ba ?as)))"
      using stored_prefix [OF rep] bs by simp
    also have "\<dots> = take n (drop pos (node_bytes ba ?as))" using n by (simp add: drop_take)
    finally show ?thesis by simp
  qed
  ultimately have "Read ba n = Inr (take n (drop pos bs), ?ba')"
    using Read_rep [OF rep rd, of n] False bound pos by (simp del: length_append)
  moreover have "ba_queue ?ba' bs (pos + n)"
  proof (rule ba_queueI)
    show "ba_rep ?ba' pre p post" using rep by (simp add: ba_rep_def read_done_def)
    show "reader_at ?ba' ?as" by (simp add: reader_at_def read_done_def)
  qed (use bs pos n ne in \<open>auto simp: read_done_def stored_def node_bytes_def\<close>)
  ultimately show ?thesis by (auto simp: read_done_def)
qed

section \<open>Taking the contents out and putting them back\<close>

text \<open>The write node has a successor: memory was allocated that the last write did not need.\<close>

definition spare_node :: "bytearray \<Rightarrow> bool" where
  "spare_node ba = (case write_ptr ba of None \<Rightarrow> False | Some p \<Rightarrow> next_ptr (heap ba ! p) \<noteq> None)"

lemma spare_node_rep: "ba_rep ba pre p post \<Longrightarrow> spare_node ba \<longleftrightarrow> post \<noteq> []"
  by (auto simp: spare_node_def ba_repD(4) ba_rep_next split: list.split)

fun bits_of :: "bytearray \<Rightarrow> addr list \<Rightarrow> cell list" where
  "bits_of ba [] = []"
| "bits_of ba [a] = take (base_size ba - rest_size (heap ba ! a)) (base_ptr (heap ba ! a))"
| "bits_of ba (a # b # as) = take (base_size ba) (base_ptr (heap ba ! a)) @ bits_of ba (b # as)"

lemma bits_loop_chain:
  "chain (\<lambda>a. next_ptr (heap ba ! a)) n q as \<Longrightarrow> bits_loop ba q buf = Some (buf @ bits_of ba as)"
proof (induction as arbitrary: q buf)
  case Nil
  then show ?case by (simp add: bits_loop.simps)
next
  case (Cons a as)
  then show ?case by (cases as) (auto simp: bits_loop.simps [of ba "Some a"] Let_def)
qed

lemma bits_of_append:
  "(\<And>a. a \<in> set as \<Longrightarrow> length (base_ptr (heap ba ! a)) = base_size ba) \<Longrightarrow>
   bits_of ba (as @ b # bs) = node_bytes ba as @ bits_of ba (b # bs)"
proof (induction as)
  case Nil
  then show ?case by (simp add: node_bytes_def)
next
  case (Cons a as)
  then show ?case by (cases as) (auto simp: node_bytes_def)
qed

lemma BitsStream_rep:
  assumes rep: "ba_rep ba pre p post"
  shows "BitsStream ba =
    Some (if post = [] then stored ba pre p else node_bytes ba (pre @ p # butlast post))"
proof -
  note len = ba_repD(5) [OF rep]
  have "BitsStream ba = Some (bits_of ba (pre @ p # post))"
    unfolding BitsStream_def using bits_loop_chain [OF ba_repD(2) [OF rep]] by simp
  also have "bits_of ba (pre @ p # post) = (if post = [] then stored ba pre p
      else node_bytes ba (pre @ p # butlast post))"
  proof (cases post rule: rev_cases)
    case Nil
    then show ?thesis using bits_of_append [of pre ba p "[]"] len by (simp add: stored_def)
  next
    case (snoc qs q)
    have "bits_of ba ((pre @ p # qs) @ [q]) = node_bytes ba (pre @ p # qs) @ bits_of ba [q]"
      by (rule bits_of_append) (use len snoc in auto)
    with snoc ba_repD(8) [OF rep, of q] show ?thesis by simp
  qed
  finally show ?thesis .
qed

lemma BitsStream_queue:
  assumes "ba_queue ba bs pos"
  shows "\<exists>extra. BitsStream ba = Some (bs @ extra) \<and> (\<not> spare_node ba \<longrightarrow> extra = []) \<and>
    (spare_node ba \<longrightarrow> base_size ba dvd length (bs @ extra))"
proof -
  from assms obtain pre p post where rep: "ba_rep ba pre p post" and bs: "stored ba pre p = bs"
    unfolding ba_queue_def by blast
  show ?thesis
  proof (cases "post = []")
    case True
    with BitsStream_rep [OF rep] bs spare_node_rep [OF rep] show ?thesis by simp
  next
    case False
    let ?out = "node_bytes ba (pre @ p # butlast post)"
    have "length (node_bytes ba (pre @ [p])) = base_size ba * length (pre @ [p])"
      by (rule length_node_bytes [OF rep]) auto
    then have "length bs \<le> length (node_bytes ba (pre @ [p]))"
      using length_stored [OF rep] bs by simp
    moreover have "?out = node_bytes ba (pre @ [p]) @ node_bytes ba (butlast post)"
      by (simp add: node_bytes_def)
    moreover have "take (length bs) (node_bytes ba (pre @ [p])) = bs"
      using stored_prefix [OF rep] bs node_bytes_append [of ba "pre @ [p]" post] \<open>length bs \<le> _\<close>
      by simp
    ultimately have "?out = bs @ drop (length bs) ?out"
      by (metis append_take_drop_id take_append append_Nil2 diff_is_0_eq take_0)
    moreover have "length ?out = base_size ba * length (pre @ p # butlast post)"
      by (rule length_node_bytes [OF rep]) (auto dest: in_set_butlastD)
    ultimately show ?thesis
      using BitsStream_rep [OF rep] spare_node_rep [OF rep] False
      by (intro exI [of _ "drop (length bs) ?out"]) (auto simp del: append_Cons)
  qed
qed

lemma Clear_rep:
  assumes "ba_rep ba pre p post"
  shows "ba_rep (Clear ba) [] (length (heap ba)) []" "stored (Clear ba) [] (length (heap ba)) = []"
    "rest_size (heap (Clear ba) ! length (heap ba)) = base_size ba"
    "reader_at (Clear ba) [length (heap ba)]"
  using ba_repD(1,9) [OF assms]
  by (simp_all add: ba_rep_def Clear_def Let_def Node_def stored_def node_bytes_def reader_at_def nth_ptr_def)

lemma Clear_queue:
  assumes "ba_queue ba bs pos"
  shows "ba_queue (Clear ba) [] 0"
proof -
  from assms obtain pre p post where rep: "ba_rep ba pre p post" unfolding ba_queue_def by blast
  show ?thesis
    by (rule ba_queueI [OF Clear_rep(1) [OF rep]])
      (use Clear_rep [OF rep] in \<open>auto simp: Clear_def Let_def\<close>)
qed

lemma Clear_fields [simp]:
  "base_size (Clear ba) = base_size ba" "capacity (Clear ba) = capacity ba"
  by (simp_all add: Clear_def Let_def)

text \<open>A write into a cleared array that needs more than its node allocates one node too many.\<close>

lemma RoundUp_eqI:
  assumes "m * k < n" "n \<le> m * Suc k"
  shows "RoundUp n m = Suc k"
proof -
  have m: "0 < m" using assms by (cases m) auto
  have "m * k < m * RoundUp n m" using assms(1) RoundUp_bounds(1) [OF m, of n] by linarith
  moreover have "m * RoundUp n m < m * Suc (Suc k)"
    using assms(2) RoundUp_bounds(2) [OF m, of n] unfolding mult_Suc_right by linarith
  ultimately have "k < RoundUp n m" "RoundUp n m < Suc (Suc k)" by (simp_all del: mult_Suc_right)
  then show ?thesis by simp
qed

lemma Clear_Write_fits:
  assumes rep: "ba_rep ba pre p post" and fits: "length buf \<le> base_size ba"
  shows "\<exists>ba'. Write (Clear ba) buf = Inr ba' \<and> BitsStream ba' = Some buf"
proof (cases "buf = []")
  case True
  with BitsStream_rep [OF Clear_rep(1) [OF rep]] Clear_rep(2) [OF rep] show ?thesis by simp
next
  case False
  note c = Clear_rep [OF rep]
  obtain ba' where ba': "write_loop (Clear ba) buf = Some ba'" "ba_rep ba' [] (length (heap ba)) []"
      "stored ba' [] (length (heap ba)) = buf"
    using write_loop_fits [OF c(1), of buf] c(2,3) fits by auto
  moreover have "Write (Clear ba) buf = Inr ba'"
    using ba'(1) False fits c(3) ba_repD(4) [OF c(1)] by (simp add: Write_def)
  ultimately show ?thesis using BitsStream_rep [OF ba'(2)] by simp
qed

lemma Clear_Write_long:
  assumes rep: "ba_rep ba pre p post" and long: "base_size ba < length buf"
  shows "\<exists>ba' out. Write (Clear ba) buf = Inr ba' \<and> BitsStream ba' = Some out \<and>
    length out = base_size ba * RoundUp (length buf) (base_size ba)"
proof -
  let ?b = "base_size ba" and ?a = "length (heap ba)"
  note c = Clear_rep [OF rep]
  have "buf \<noteq> []" using long by auto
  from Write_rep [OF c(1) this] c(2,3) long obtain ba' pre' p' post' ext where
    w: "Write (Clear ba) buf = Inr ba'" "ba_rep ba' pre' p' post'" "pre' @ p' # post' = [] @ ?a # ext"
      "stored ba' pre' p' = buf" "same_frame (Clear ba) ba'" "rest_size (heap ba' ! p') < ?b"
      "length ext = RoundUp (length buf) ?b"
    by auto
  have b: "base_size ba' = ?b" using w(5) by (simp add: same_frame_def)
  have "length buf = ?b * length pre' + (?b - rest_size (heap ba' ! p'))"
    using length_stored [OF w(2)] w(4) b by simp
  then have r: "RoundUp (length buf) ?b = Suc (length pre')"
    by (intro RoundUp_eqI) (use w(6) in auto)
  have "length pre' + Suc (length post') = Suc (length ext)"
    using arg_cong [OF w(3), of length] by simp
  then have "length post' = 1" using r w(7) by simp
  then obtain q where q: "post' = [q]" by (auto simp: length_Suc_conv)
  have "length (node_bytes ba' (pre' @ [p'])) = ?b * Suc (length pre')"
    using length_node_bytes [OF w(2), of "pre' @ [p']"] b by auto
  with w(1) BitsStream_rep [OF w(2)] q r show ?thesis by simp
qed

lemma buffer_loop_chain:
  "chain (\<lambda>a. next_ptr (heap ba ! a)) n q as \<Longrightarrow>
   buffer_loop ba q ivec = Some (ivec @ map (\<lambda>a. (a, base_size ba - rest_size (heap ba ! a))) as)"
proof (induction as arbitrary: q ivec)
  case Nil
  then show ?case by (simp add: buffer_loop.simps)
next
  case (Cons a as)
  then show ?case by (auto simp: buffer_loop.simps [of ba "Some a"] Let_def)
qed

text \<open>The bytes an \<^verbatim>\<open>iovec\<close> list describes.\<close>

definition iov_bytes :: "bytearray \<Rightarrow> (addr \<times> nat) list \<Rightarrow> cell list" where
  "iov_bytes ba ivec = concat (map (\<lambda>(a, n). take n (base_ptr (heap ba ! a))) ivec)"

lemma iov_bytes_rep:
  assumes rep: "ba_rep ba pre p post"
  shows "iov_bytes ba (map (\<lambda>a. (a, base_size ba - rest_size (heap ba ! a))) (pre @ p # post)) =
    stored ba pre p"
proof -
  have "concat (map (\<lambda>a. take (base_size ba - rest_size (heap ba ! a)) (base_ptr (heap ba ! a))) pre) =
      node_bytes ba pre"
    unfolding node_bytes_def using ba_repD(5,6) [OF rep] by (intro arg_cong [where f = concat]) simp
  moreover have "concat (map (\<lambda>a. take (base_size ba - rest_size (heap ba ! a)) (base_ptr (heap ba ! a))) post) = []"
    using ba_repD(8) [OF rep] by simp
  ultimately show ?thesis by (simp add: iov_bytes_def stored_def comp_def)
qed

lemma GetBuffer_rep:
  assumes rep: "ba_rep ba pre p post"
  shows "\<exists>ivec ba' post'. GetBuffer ba [] len = Inr (ivec, ba') \<and> ba_rep ba' pre p post' \<and>
    stored ba' pre p = stored ba pre p \<and> same_frame ba ba' \<and> len \<le> capacity ba' \<and>
    rest_size (heap ba' ! p) = rest_size (heap ba ! p) \<and>
    iov_bytes ba' ivec = stored ba pre p \<and>
    ivec = map (\<lambda>a. (a, base_size ba' - rest_size (heap ba' ! a))) (pre @ p # post')"
proof -
  obtain ba' post' where ba': "(if capacity ba < len then ExtendCapacity ba len else Inr ba) = Inr ba'"
      "ba_rep ba' pre p post'" "stored ba' pre p = stored ba pre p" "same_frame ba ba'"
      "len \<le> capacity ba'" "rest_size (heap ba' ! p) = rest_size (heap ba ! p)"
  proof (cases "capacity ba < len")
    case True
    obtain ba' post' where e: "ExtendCapacity ba len = Inr ba'" "ba_rep ba' pre p post'"
      "stored ba' pre p = stored ba pre p" "same_frame ba ba'"
      "capacity ba' = capacity ba + RoundUp len (base_size ba) * base_size ba"
      "heap ba' ! p = (heap ba ! p)\<lparr>next_ptr := next_ptr (heap ba' ! p)\<rparr>"
      using ExtendCapacity_correct [OF rep, of len] by blast
    have "rest_size (heap ba' ! p) = rest_size (heap ba ! p)" by (subst e(6)) simp
    moreover have "len \<le> capacity ba'"
      using e(5) RoundUp_bounds(1) [OF ba_repD(1) [OF rep], of len] by (simp add: mult.commute)
    ultimately show ?thesis using that e True by simp
  next
    case False
    with that [of ba post] rep show ?thesis by (simp add: same_frame_def)
  qed
  let ?ivec = "map (\<lambda>a. (a, base_size ba' - rest_size (heap ba' ! a))) (pre @ p # post')"
  have "GetBuffer ba [] len = Inr (?ivec, ba')"
    unfolding GetBuffer_def using ba'(1) buffer_loop_chain [OF ba_repD(2) [OF ba'(2)]] by simp
  with ba' iov_bytes_rep [OF ba'(2)] show ?thesis by (intro exI) auto
qed

lemma dump_loop_chain:
  "chain (\<lambda>a. next_ptr (heap ba ! a)) n q as \<Longrightarrow>
   dump_loop ba q out = Some (out @ map (\<lambda>a. PrintMemory (base_ptr (heap ba ! a)) (base_size ba)) as)"
proof (induction as arbitrary: q out)
  case Nil
  then show ?case by (simp add: dump_loop.simps)
next
  case (Cons a as)
  then show ?case by (auto simp: dump_loop.simps [of ba "Some a"] Let_def)
qed

section \<open>The byte stream interface\<close>

text \<open>
  What the clients of a byte array (the integer and string codecs) rely on: a write appends,
  a read inside what was written returns it in order. \<open>blk\<close> is the block size at whose multiples
  a reader that has caught up stops the next write from being seen.
\<close>

datatype stream_op = WriteOp "cell list" | ReadOp nat

fun run_ops ::
  "('s \<Rightarrow> cell list \<Rightarrow> 'e + 's) \<Rightarrow> ('s \<Rightarrow> nat \<Rightarrow> 'e + cell list \<times> 's) \<Rightarrow>
   stream_op list \<Rightarrow> 's \<Rightarrow> 'e + cell list list \<times> 's" where
  "run_ops wr rd [] s = Inr ([], s)"
| "run_ops wr rd (WriteOp buf # ops) s = res_bind (wr s buf) (run_ops wr rd ops)"
| "run_ops wr rd (ReadOp n # ops) s =
     res_bind (rd s n) (\<lambda>(out, s'). res_bind (run_ops wr rd ops s') (\<lambda>(outs, s''). Inr (out # outs, s'')))"

text \<open>The same operations on the abstract queue: the bytes and the number already read.\<close>

fun queue_run ::
  "nat \<Rightarrow> stream_op list \<Rightarrow> cell list \<times> nat \<Rightarrow> (cell list list \<times> cell list \<times> nat) option" where
  "queue_run blk [] (bs, pos) = Some ([], bs, pos)"
| "queue_run blk (WriteOp buf # ops) (bs, pos) =
     (if drained blk bs pos then None else queue_run blk ops (bs @ buf, pos))"
| "queue_run blk (ReadOp n # ops) (bs, pos) =
     (if length bs < pos + n then None
      else map_option (\<lambda>(outs, st). (take n (drop pos bs) # outs, st)) (queue_run blk ops (bs, pos + n)))"

locale byte_stream =
  fixes wr :: "'s \<Rightarrow> cell list \<Rightarrow> 'e + 's"
    and rd :: "'s \<Rightarrow> nat \<Rightarrow> 'e + cell list \<times> 's"
    and holds :: "'s \<Rightarrow> cell list \<Rightarrow> nat \<Rightarrow> bool"
    and blk :: "'s \<Rightarrow> nat"
  assumes wr_holds: "holds s bs pos \<Longrightarrow> \<not> drained (blk s) bs pos \<Longrightarrow>
      \<exists>s'. wr s buf = Inr s' \<and> holds s' (bs @ buf) pos \<and> blk s' = blk s"
    and rd_holds: "holds s bs pos \<Longrightarrow> pos + n \<le> length bs \<Longrightarrow>
      \<exists>s'. rd s n = Inr (take n (drop pos bs), s') \<and> holds s' bs (pos + n) \<and> blk s' = blk s"
begin

lemma read_back:
  assumes "holds s (bs @ buf @ cs) (length bs)" and "n = length buf"
  shows "\<exists>s'. rd s n = Inr (buf, s') \<and> holds s' (bs @ buf @ cs) (length (bs @ buf)) \<and> blk s' = blk s"
  using rd_holds [OF assms(1), of n] assms(2) by simp

lemma run_refines:
  assumes "holds s bs pos" and "queue_run (blk s) ops (bs, pos) = Some (outs, bs', pos')"
  shows "\<exists>s'. run_ops wr rd ops s = Inr (outs, s') \<and> holds s' bs' pos' \<and> blk s' = blk s"
  using assms
proof (induction "blk s" ops "(bs, pos)" arbitrary: s bs pos outs rule: queue_run.induct)
  case (1 s bs pos)
  then show ?case by simp
next
  case (2 buf ops bs pos s)
  then have ndr: "\<not> drained (blk s) bs pos" by (auto split: if_splits)
  from wr_holds [OF "2.prems"(1) ndr] obtain s1 where
    s1: "wr s buf = Inr s1" "holds s1 (bs @ buf) pos" "blk s1 = blk s" by blast
  with "2.hyps" [OF ndr, of s1] "2.prems"(2) ndr show ?case by (auto split: if_splits)
next
  case (3 n ops bs pos s)
  then have le: "\<not> length bs < pos + n" by (auto split: if_splits)
  with rd_holds [OF "3.prems"(1), of n] obtain s1 where
    s1: "rd s n = Inr (take n (drop pos bs), s1)" "holds s1 bs (pos + n)" "blk s1 = blk s" by auto
  from le "3.prems"(2) obtain outs1 where o: "outs = take n (drop pos bs) # outs1"
    "queue_run (blk s) ops (bs, pos + n) = Some (outs1, bs', pos')"
    by (auto split: if_splits)
  from "3.hyps" [OF le, of s1 outs1] s1 o show ?case by auto
qed

end

interpretation ba: byte_stream Write Read ba_queue base_size
proof
  show "\<exists>s'. Write s buf = Inr s' \<and> ba_queue s' (bs @ buf) pos \<and> base_size s' = base_size s"
    if "ba_queue s bs pos" "\<not> drained (base_size s) bs pos" for s bs pos buf
    using Write_queue [OF that] by (auto simp: same_frame_def)
  show "\<exists>s'. Read s n = Inr (take n (drop pos bs), s') \<and> ba_queue s' bs (pos + n) \<and>
      base_size s' = base_size s"
    if "ba_queue s bs pos" "pos + n \<le> length bs" for s bs pos n
    using Read_queue [OF that] by auto
qed

section \<open>The list of nodes, computed\<close>

fun nodes_from :: "nat \<Rightarrow> bytearray \<Rightarrow> addr option \<Rightarrow> addr list" where
  "nodes_from 0 ba q = []"
| "nodes_from (Suc k) ba None = []"
| "nodes_from (Suc k) ba (Some a) = a # nodes_from k ba (next_ptr (heap ba ! a))"

definition node_list :: "bytearray \<Rightarrow> addr list" where
  "node_list ba = nodes_from (length (heap ba)) ba (Some (root_ptr ba))"

lemma nodes_from_chain:
  "chain (\<lambda>a. next_ptr (heap ba ! a)) n q as \<Longrightarrow> length as \<le> k \<Longrightarrow> nodes_from k ba q = as"
proof (induction as arbitrary: q k)
  case Nil
  then show ?case by (cases k) auto
next
  case (Cons a as)
  then show ?case by (cases k) auto
qed

lemma node_list_rep:
  assumes rep: "ba_rep ba pre p post"
  shows "node_list ba = pre @ p # post"
proof -
  have "set (pre @ p # post) \<subseteq> {..<length (heap ba)}" using ba_repD(10) [OF rep] by blast
  then have "card (set (pre @ p # post)) \<le> card {..<length (heap ba)}"
    by (intro card_mono) auto
  then have "length (pre @ p # post) \<le> length (heap ba)"
    using distinct_card [OF ba_repD(3) [OF rep]] by simp
  then show ?thesis
    unfolding node_list_def by (rule nodes_from_chain [OF ba_repD(2) [OF rep]])
qed

text \<open>Drained: the read pointer has moved past the write node.\<close>

lemma drained_rep:
  assumes rep: "ba_rep ba pre p post" and dr: "drained (base_size ba) (stored ba pre p) pos"
    and ne: "pre \<noteq> [] \<longrightarrow> rest_size (heap ba ! p) < base_size ba"
  shows "pos div base_size ba = Suc (length pre)"
proof -
  let ?b = "base_size ba" and ?u = "base_size ba - rest_size (heap ba ! p)"
  have b: "0 < ?b" using ba_repD(1) [OF rep] .
  have pos: "pos = ?b * length pre + ?u" and nz: "stored ba pre p \<noteq> []" and dvd: "?b dvd pos"
    using dr length_stored [OF rep] by (auto simp: drained_def)
  have "?b dvd ?u" using dvd pos by (simp add: dvd_add_right_iff)
  moreover have "0 < ?u"
  proof (cases "pre = []")
    case True
    have "0 < length (stored ba pre p)" using nz by simp
    with True length_stored [OF rep] show ?thesis by simp
  next
    case False
    with ne show ?thesis by simp
  qed
  ultimately have "?u = ?b" using b by (meson diff_le_self dvd_imp_le le_antisym)
  with pos have "pos = ?b * Suc (length pre)" by simp
  with b show ?thesis by (simp del: mult_Suc_right)
qed

section \<open>Properties of the byte array\<close>

text \<open>
  C1: starting from a new array, every sequence of writes and reads that the abstract queue
  accepts (no read beyond what was written, no write in a drained state) succeeds on the linked
  list of nodes, returns the same bytes and ends in a state that represents the queue's.
\<close>

theorem ByteArray_refines_queue:
  assumes "queue_run (max n NODE_SIZE) ops ([], 0) = Some (outs, bs, pos)"
  shows "\<exists>ba. run_ops Write Read ops (ByteArray n) = Inr (outs, ba) \<and> ba_queue ba bs pos"
  using ba.run_refines [OF ba_queue_ByteArray [of n], of ops] assms
  by (auto simp: base_size_ByteArray)

theorem ByteArray_refines_queue_witness:
  "\<exists>ba. run_ops Write Read [WriteOp [Some 1, Some 2], ReadOp 1, WriteOp [Some 3], ReadOp 2] (ByteArray 4) =
     Inr ([[Some 1], [Some 2, Some 3]], ba) \<and> ba_queue ba [Some 1, Some 2, Some 3] 3"
  using ByteArray_refines_queue [of 4 "[WriteOp [Some 1, Some 2], ReadOp 1, WriteOp [Some 3], ReadOp 2]"
      "[[Some 1], [Some 2, Some 3]]" "[Some 1, Some 2, Some 3]" 3]
  by (simp add: NODE_SIZE_def drained_def)

text \<open>
  All outcomes of \<^verbatim>\<open>Read\<close>: more than \<^verbatim>\<open>capacity_\<close> bytes throw, a read inside the allocated
  nodes returns the bytes there (the written ones first, indeterminate ones after them) and
  advances, and a read that runs past the last node dereferences a null pointer although
  the capacity check has accepted it.
\<close>

theorem Read_outcomes:
  assumes "ba_queue ba bs pos"
  shows "take (length bs) (node_bytes ba (node_list ba)) = bs \<and>
    Read ba n =
      (if n > capacity ba then Inl OutOfRange
       else if n = 0 then Inr ([], ba)
       else if pos + n \<le> base_size ba * length (node_list ba)
       then Inr (take n (drop pos (node_bytes ba (node_list ba))), read_done ba (node_list ba) n)
       else Inl NullDeref)"
proof -
  from assms obtain pre p post where rep: "ba_rep ba pre p post" and bs: "stored ba pre p = bs"
    and pos: "read_pos ba = pos" and rd: "reader_at ba (pre @ p # post)"
    unfolding ba_queue_def by blast
  show ?thesis
    unfolding node_list_rep [OF rep] using Read_rep [OF rep rd, of n] stored_prefix [OF rep] bs pos by simp
qed

lemma ByteArray_nodes:
  "node_list (ByteArray n) = [0]" "node_bytes (ByteArray n) [0] = replicate (max n NODE_SIZE) None"
  by (simp_all add: ByteArray_def Let_def node_list_def node_bytes_def Node_def max_def)

theorem Read_outcomes_witness:
  "Read (ByteArray 0) 3 = Inr (replicate 3 None, read_done (ByteArray 0) [0] 3) \<and>
   Read (ByteArray 0) 200 = Inl OutOfRange"
proof -
  have "capacity (ByteArray 0) = 128" by (simp add: ByteArray_def NODE_SIZE_def Let_def)
  with Read_outcomes [OF ba_queue_ByteArray [of 0], of 3] Read_outcomes [OF ba_queue_ByteArray [of 0], of 200]
  show ?thesis by (simp add: ByteArray_nodes base_size_ByteArray NODE_SIZE_def)
qed

text \<open>
  Once the reader has consumed a node to its end and the list has no spare node, the next
  write succeeds but is lost to the reader: its pointer is null, and every later non-empty read
  that passes the capacity check dereferences it.
\<close>

theorem Write_after_drained_unreadable:
  assumes q: "ba_queue ba bs pos" and dr: "drained (base_size ba) bs pos"
    and last: "\<not> spare_node ba"
  shows "\<exists>ba'. Write ba buf = Inr ba' \<and>
    (\<forall>n. 0 < n \<longrightarrow> Read ba' n = Inl (if n > capacity ba' then OutOfRange else NullDeref))"
proof -
  from q obtain pre p post where rep: "ba_rep ba pre p post" and bs: "stored ba pre p = bs"
    and pos: "read_pos ba = pos" and rd: "reader_at ba (pre @ p # post)"
    and ne: "pre \<noteq> [] \<longrightarrow> rest_size (heap ba ! p) < base_size ba"
    unfolding ba_queue_def by blast
  have "post = []" using last spare_node_rep [OF rep] by simp
  with rd drained_rep [OF rep _ ne] dr bs pos have "read_ptr ba = None"
    by (simp add: reader_at_def nth_ptr_def)
  moreover obtain ba' where w: "Write ba buf = Inr ba'" "same_frame ba ba'"
    using Write_frame [OF q] by blast
  ultimately have "read_ptr ba' = None" "0 < base_size ba'"
    using ba_repD(1) [OF rep] by (simp_all add: same_frame_def)
  then have "Read ba' n = Inl (if n > capacity ba' then OutOfRange else NullDeref)" if "0 < n" for n
    using that by (simp add: Read_def read_loop.simps Let_def)
  with w(1) show ?thesis by blast
qed

lemma spare_node_read_done: "spare_node (read_done ba as n) = spare_node ba"
  by (cases "write_ptr ba") (simp_all add: spare_node_def read_done_def)

lemma ba_queue_full_node:
  "\<exists>ba. ba_queue ba (replicate 128 (Some 0)) 128 \<and> base_size ba = 128 \<and> \<not> spare_node ba"
proof -
  let ?buf = "replicate 128 (Some 0) :: cell list"
  let ?ba = "ByteArray 0"
  have b: "base_size ?ba = 128" by (simp add: base_size_ByteArray NODE_SIZE_def)
  have rep: "ba_rep ?ba [] 0 []" "reader_at ?ba [0]" "stored ?ba [] 0 = []" "read_pos ?ba = 0"
    "rest_size (heap ?ba ! 0) = 128"
    by (auto simp: ByteArray_def Let_def NODE_SIZE_def ba_rep_def stored_def node_bytes_def
        Node_def reader_at_def nth_ptr_def)
  then obtain ba1 where ba1: "ba_rep ba1 [] 0 []" "stored ba1 [] 0 = ?buf" "same_frame ?ba ba1"
    using write_loop_fits [OF rep(1), of ?buf] by auto
  then have "ba_queue ba1 ?buf 0" using rep
    by (intro ba_queueI [OF ba1(1)]) (auto simp: same_frame_def reader_at_def)
  then obtain ba2 where "Read ba1 128 = Inr (?buf, ba2)" "ba_queue ba2 ?buf 128" "base_size ba2 = base_size ba1"
    using Read_queue [of ba1 ?buf 0 128] by auto
  moreover from this(1) Read_rep [OF ba1(1), of 128] have "ba2 = read_done ba1 [0] 128"
    using rep ba1(3) b by (auto simp: same_frame_def reader_at_def split: if_splits)
  then have "spare_node ba2 = spare_node ba1" by (simp add: spare_node_read_done)
  ultimately show ?thesis
    using spare_node_rep [OF ba1(1)] ba1(3) b by (auto simp: same_frame_def)
qed

theorem Write_after_drained_unreadable_witness:
  "\<exists>ba ba'. ba_queue ba (replicate 128 (Some 0)) 128 \<and> Write ba [Some 1] = Inr ba' \<and>
    Read ba' 1 = Inl (if 1 > capacity ba' then OutOfRange else NullDeref)"
proof -
  obtain ba where ba: "ba_queue ba (replicate 128 (Some 0)) 128" "base_size ba = 128" "\<not> spare_node ba"
    using ba_queue_full_node by blast
  moreover have "drained (base_size ba) (replicate 128 (Some 0)) 128"
    using ba(2) by (simp add: drained_def)
  ultimately obtain ba' where "Write ba [Some 1] = Inr ba'"
      "Read ba' 1 = Inl (if 1 > capacity ba' then OutOfRange else NullDeref)"
    using Write_after_drained_unreadable [of ba "replicate 128 (Some 0)" 128 "[Some 1]"] zero_less_one
    by blast
  with ba(1) show ?thesis by blast
qed

text \<open>
  \<^verbatim>\<open>SetAllBits\<close> followed by \<^verbatim>\<open>GetAllBits\<close>: the array holds exactly the new bytes, and they come
  back as a prefix. They come back alone when they fit into one node; longer contents are
  followed by uninitialised bytes up to the end of the node they end in.
\<close>

theorem SetAllBits_GetAllBits:
  assumes q: "ba_queue ba bs pos"
  shows "\<exists>ba' extra. SetAllBits ba buf = Inr ba' \<and> ba_queue ba' buf 0 \<and>
    GetAllBits ba' = Some (buf @ extra) \<and>
    length (buf @ extra) = (if length buf \<le> base_size ba then length buf
      else base_size ba * RoundUp (length buf) (base_size ba))"
proof -
  note cq = Clear_queue [OF q]
  let ?b = "base_size ba"
  from q obtain pre p post where rep: "ba_rep ba pre p post" unfolding ba_queue_def by blast
  obtain ba' where w: "Write (Clear ba) buf = Inr ba'" and q': "ba_queue ba' buf 0"
    and fr: "same_frame (Clear ba) ba'"
    using Write_queue [OF cq, of buf] by (auto simp: drained_def)
  obtain extra where x: "BitsStream ba' = Some (buf @ extra)" "\<not> spare_node ba' \<longrightarrow> extra = []"
    using BitsStream_queue [OF q'] by blast
  have "length (buf @ extra) = (if length buf \<le> ?b then length buf else ?b * RoundUp (length buf) ?b)"
    using Clear_Write_fits [OF rep, of buf] Clear_Write_long [OF rep, of buf] w x(1)
    by (cases "length buf \<le> ?b") auto
  with w q' x show ?thesis by (auto simp: SetAllBits_def GetAllBits_def)
qed

theorem SetAllBits_GetAllBits_witness:
  "\<exists>ba' extra. SetAllBits (ByteArray 0) (replicate 200 (Some 7)) = Inr ba' \<and>
    GetAllBits ba' = Some (replicate 200 (Some 7) @ extra) \<and> length extra = 56"
  using SetAllBits_GetAllBits [OF ba_queue_ByteArray [of 0], of "replicate 200 (Some 7)"]
  by (auto simp: base_size_ByteArray NODE_SIZE_def RoundUp_def)

text \<open>
  \<^verbatim>\<open>Clear\<close> keeps \<^verbatim>\<open>capacity_\<close> although it leaves one node: a read that is longer than a node and
  passes the capacity check then dereferences the null pointer behind that node, a shorter one
  returns bytes nobody has written.
\<close>

theorem Read_after_Clear:
  assumes q: "ba_queue ba bs pos" and n: "n \<le> capacity ba"
  shows "case Read (Clear ba) n of
      Inl e \<Rightarrow> e = NullDeref \<and> base_size ba < n
    | Inr (out, ba') \<Rightarrow> n \<le> base_size ba \<and> out = replicate n None"
proof -
  from q obtain pre p post where rep: "ba_rep ba pre p post" unfolding ba_queue_def by blast
  note c = Clear_rep [OF rep]
  have fresh: "node_bytes (Clear ba) [length (heap ba)] = replicate (base_size ba) None"
      "read_pos (Clear ba) = 0"
    by (simp_all add: node_bytes_def Clear_def Let_def Node_def)
  show ?thesis
    using Read_rep [OF c(1), of n] c(4) n fresh
    by (cases "n = 0"; cases "n \<le> base_size ba") (auto simp: min_def)
qed

theorem Read_after_Clear_witness:
  "case Read (Clear (ByteArray 0)) 5 of Inl e \<Rightarrow> False | Inr (out, ba') \<Rightarrow> out = replicate 5 None"
  using Read_after_Clear [OF ba_queue_ByteArray [of 0], of 5]
  by (auto simp: ByteArray_def Let_def NODE_SIZE_def split: sum.splits)

text \<open>
  \<^verbatim>\<open>GetBuffer\<close> always succeeds, leaves the contents and the read position alone, makes the
  capacity at least \<open>len\<close>, and the vectors it returns describe exactly the bytes written so far,
  in order: it is a gather list for output and offers no room to read into.
\<close>

theorem GetBuffer_gathers:
  assumes q: "ba_queue ba bs pos" and ndr: "\<not> drained (base_size ba) bs pos"
  shows "\<exists>ivec ba'. GetBuffer ba [] len = Inr (ivec, ba') \<and> ba_queue ba' bs pos \<and>
    len \<le> capacity ba' \<and> iov_bytes ba' ivec = bs \<and> map fst ivec = node_list ba'"
proof -
  from q obtain pre p post where rep: "ba_rep ba pre p post" and bs: "stored ba pre p = bs"
    and pos: "read_pos ba = pos" "pos \<le> length bs" and rd: "reader_at ba (pre @ p # post)"
    and ne: "pre \<noteq> [] \<longrightarrow> rest_size (heap ba ! p) < base_size ba"
    unfolding ba_queue_def by blast
  from GetBuffer_rep [OF rep, of len] obtain ivec ba' post' where
    g: "GetBuffer ba [] len = Inr (ivec, ba')" "ba_rep ba' pre p post'" "stored ba' pre p = bs"
      "same_frame ba ba'" "len \<le> capacity ba'" "rest_size (heap ba' ! p) = rest_size (heap ba ! p)"
      "iov_bytes ba' ivec = bs"
      "ivec = map (\<lambda>a. (a, base_size ba' - rest_size (heap ba' ! a))) (pre @ p # post')"
    using bs by auto
  have "pos div base_size ba \<le> length pre"
    using reader_not_past [OF rep] pos ndr bs by simp
  then have "reader_at ba' (pre @ p # post')"
    using rd pos g(4) nth_ptr_common [of "pos div base_size ba" pre p post post']
    by (simp add: reader_at_def same_frame_def)
  then have "ba_queue ba' bs pos"
    by (rule ba_queueI [OF g(2), rotated 3]) (use g pos ne in \<open>auto simp: same_frame_def\<close>)
  moreover have "map fst ivec = node_list ba'"
    unfolding node_list_rep [OF g(2)] g(8) by (simp add: comp_def)
  ultimately show ?thesis using g by blast
qed

theorem GetBuffer_gathers_witness:
  "\<exists>ivec ba'. GetBuffer (ByteArray 0) [] 300 = Inr (ivec, ba') \<and> 300 \<le> capacity ba' \<and> iov_bytes ba' ivec = []"
  using GetBuffer_gathers [OF ba_queue_ByteArray [of 0], of 300] by (auto simp: drained_def)

text \<open>
  \<^verbatim>\<open>Dump\<close> never shows the contents: a node is always larger than the sizes
  \<^verbatim>\<open>PrintMemory\<close> accepts, so every node of every array gives the error line.
\<close>

theorem Dump_prints_errors:
  assumes q: "ba_queue ba bs pos" and b: "NODE_SIZE \<le> base_size ba"
  shows "Dump ba = Some (replicate (length (node_list ba)) InvalidNumBytes)"
proof -
  from q obtain pre p post where rep: "ba_rep ba pre p post" unfolding ba_queue_def by blast
  show ?thesis
    unfolding Dump_def node_list_rep [OF rep]
    using dump_loop_chain [OF ba_repD(2) [OF rep], of "[]"] b
    by (simp add: PrintMemory_def NODE_SIZE_def map_replicate_const replicate_add replicate_app_Cons_same)
qed

theorem Dump_prints_errors_witness: "Dump (ByteArray 200) = Some [InvalidNumBytes]"
  using Dump_prints_errors [OF ba_queue_ByteArray [of 200]]
  by (simp add: ByteArray_def Let_def NODE_SIZE_def node_list_def Node_def)

end
