(* ===== verification/Byte_Codec.thy ===== *)
theory Byte_Codec
  imports Byte_Queue
begin

text \<open>
  The integer, floating point and string codecs of \<^verbatim>\<open>src/src/bytearray.cc\<close> over the byte array,
  and the byte swapping of \<^verbatim>\<open>src/src/include/endian.hh\<close>. A C++ integer is a word of its
  width; the signed and the unsigned type of a width share the word type and differ in the
  right shift only. Left shifts of negative values wrap, as all supported compilers do.
  The operations of the 8 integer types are instances of four generic ones.
\<close>

section \<open>Byte order\<close>

datatype byte_order = SYLAR_LITTLE_ENDIAN | SYLAR_BIG_ENDIAN

text \<open>
  The preprocessor's choice, from the values of \<^verbatim>\<open>BYTE_ORDER\<close> and \<^verbatim>\<open>BIG_ENDIAN\<close>; a macro that no
  header has defined counts as 0. \<^verbatim>\<open>endian.hh\<close> includes no header that defines them.
\<close>

definition SYLAR_BYTE_ORDER :: "nat \<Rightarrow> nat \<Rightarrow> byte_order" where
  "SYLAR_BYTE_ORDER BYTE_ORDER BIG_ENDIAN =
     (if BYTE_ORDER = BIG_ENDIAN then SYLAR_LITTLE_ENDIAN else SYLAR_BIG_ENDIAN)"

text \<open>What the translation depends on: the byte order of the host and the one just chosen.\<close>

record target =
  host_order :: byte_order
  sylar_order :: byte_order

text \<open>The bytes of a word, the least significant first, and back.\<close>

definition word_bytes :: "'a::len word \<Rightarrow> u8 list" where
  "word_bytes w = map (\<lambda>i. ucast (drop_bit (8 * i) w)) [0..<LENGTH('a) div 8]"

definition bytes_word :: "u8 list \<Rightarrow> 'a::len word" where
  "bytes_word bs = foldr (\<lambda>b acc. ucast b OR push_bit 8 acc) bs 0"

text \<open>The object representation of a value on the host, and the value of a representation.\<close>

definition object_bytes :: "target \<Rightarrow> 'a::len word \<Rightarrow> u8 list" where
  "object_bytes tg v =
     (if host_order tg = SYLAR_LITTLE_ENDIAN then word_bytes v else rev (word_bytes v))"

definition object_value :: "target \<Rightarrow> u8 list \<Rightarrow> 'a::len word" where
  "object_value tg bs =
     (if host_order tg = SYLAR_LITTLE_ENDIAN then bytes_word bs else bytes_word (rev bs))"

definition ByteSwap :: "'a::len word \<Rightarrow> 'a word" where
  "ByteSwap val =
     (if LENGTH('a) = 16 \<or> LENGTH('a) = 32 \<or> LENGTH('a) = 64
      then bytes_word (rev (word_bytes val)) else 0)"

definition SwapToLittle :: "target \<Rightarrow> 'a::len word \<Rightarrow> 'a word" where
  "SwapToLittle tg val = (if sylar_order tg = SYLAR_LITTLE_ENDIAN then val else ByteSwap val)"

definition SwapToBig :: "target \<Rightarrow> 'a::len word \<Rightarrow> 'a word" where
  "SwapToBig tg val = (if sylar_order tg = SYLAR_LITTLE_ENDIAN then ByteSwap val else val)"

section \<open>Fixed-width values\<close>

text \<open>\<^verbatim>\<open>Write(&val, sizeof(val))\<close> and \<^verbatim>\<open>Read(&val, sizeof(val))\<close>.\<close>

definition write_value :: "target \<Rightarrow> bytearray \<Rightarrow> 'a::len word \<Rightarrow> ba_error + bytearray" where
  "write_value tg ba val = Write ba (map Some (object_bytes tg val))"

definition read_value :: "target \<Rightarrow> bytearray \<Rightarrow> ba_error + 'a::len word \<times> bytearray" where
  "read_value tg ba =
     res_bind (Read ba (LENGTH('a) div 8))
       (\<lambda>(cs, ba'). case cells_bytes cs of
          None \<Rightarrow> Inl Indeterminate | Some bs \<Rightarrow> Inr (object_value tg bs, ba'))"

definition WriteFint8 :: "target \<Rightarrow> bytearray \<Rightarrow> u8 \<Rightarrow> ba_error + bytearray" where
  "WriteFint8 tg ba val = write_value tg ba val"

definition WriteFuint8 :: "target \<Rightarrow> bytearray \<Rightarrow> u8 \<Rightarrow> ba_error + bytearray" where
  "WriteFuint8 tg ba val = write_value tg ba val"

definition WriteFint16 :: "target \<Rightarrow> bytearray \<Rightarrow> u16 \<Rightarrow> ba_error + bytearray" where
  "WriteFint16 tg ba val = write_value tg ba (SwapToLittle tg val)"

definition WriteFuint16 :: "target \<Rightarrow> bytearray \<Rightarrow> u16 \<Rightarrow> ba_error + bytearray" where
  "WriteFuint16 tg ba val = write_value tg ba (SwapToLittle tg val)"

definition WriteFint32 :: "target \<Rightarrow> bytearray \<Rightarrow> u32 \<Rightarrow> ba_error + bytearray" where
  "WriteFint32 tg ba val = write_value tg ba (SwapToLittle tg val)"

definition WriteFuint32 :: "target \<Rightarrow> bytearray \<Rightarrow> u32 \<Rightarrow> ba_error + bytearray" where
  "WriteFuint32 tg ba val = write_value tg ba (SwapToLittle tg val)"

definition WriteFint64 :: "target \<Rightarrow> bytearray \<Rightarrow> u64 \<Rightarrow> ba_error + bytearray" where
  "WriteFint64 tg ba val = write_value tg ba (SwapToLittle tg val)"

definition WriteFuint64 :: "target \<Rightarrow> bytearray \<Rightarrow> u64 \<Rightarrow> ba_error + bytearray" where
  "WriteFuint64 tg ba val = write_value tg ba (SwapToLittle tg val)"

text \<open>The first \<^verbatim>\<open>XX\<close> macro: read, then swap when the chosen order is big.\<close>

definition read_fixed :: "target \<Rightarrow> bytearray \<Rightarrow> ba_error + 'a::len word \<times> bytearray" where
  "read_fixed tg ba =
     res_bind (read_value tg ba)
       (\<lambda>(val, ba'). Inr (if sylar_order tg = SYLAR_BIG_ENDIAN then ByteSwap val else val, ba'))"

definition ReadFint8 :: "target \<Rightarrow> bytearray \<Rightarrow> ba_error + u8 \<times> bytearray" where
  "ReadFint8 = read_fixed"

definition ReadFuint8 :: "target \<Rightarrow> bytearray \<Rightarrow> ba_error + u8 \<times> bytearray" where
  "ReadFuint8 = read_fixed"

definition ReadFint16 :: "target \<Rightarrow> bytearray \<Rightarrow> ba_error + u16 \<times> bytearray" where
  "ReadFint16 = read_fixed"

definition ReadFuint16 :: "target \<Rightarrow> bytearray \<Rightarrow> ba_error + u16 \<times> bytearray" where
  "ReadFuint16 = read_fixed"

definition ReadFint32 :: "target \<Rightarrow> bytearray \<Rightarrow> ba_error + u32 \<times> bytearray" where
  "ReadFint32 = read_fixed"

definition ReadFuint32 :: "target \<Rightarrow> bytearray \<Rightarrow> ba_error + u32 \<times> bytearray" where
  "ReadFuint32 = read_fixed"

definition ReadFint64 :: "target \<Rightarrow> bytearray \<Rightarrow> ba_error + u64 \<times> bytearray" where
  "ReadFint64 = read_fixed"

definition ReadFuint64 :: "target \<Rightarrow> bytearray \<Rightarrow> ba_error + u64 \<times> bytearray" where
  "ReadFuint64 = read_fixed"

text \<open>Floating point values are their bit patterns here; they are copied as they are.\<close>

definition WriteFloat :: "target \<Rightarrow> bytearray \<Rightarrow> u32 \<Rightarrow> ba_error + bytearray" where
  "WriteFloat tg ba val = write_value tg ba val"

definition WriteDouble :: "target \<Rightarrow> bytearray \<Rightarrow> u64 \<Rightarrow> ba_error + bytearray" where
  "WriteDouble tg ba val = write_value tg ba val"

definition ReadFloat :: "target \<Rightarrow> bytearray \<Rightarrow> ba_error + u32 \<times> bytearray" where
  "ReadFloat tg ba = read_value tg ba"

definition ReadDouble :: "target \<Rightarrow> bytearray \<Rightarrow> ba_error + u64 \<times> bytearray" where
  "ReadDouble tg ba = read_value tg ba"

section \<open>Variable-length integers\<close>

datatype signedness = Signed | Unsigned

text \<open>\<^verbatim>\<open>val >> n\<close>: arithmetic on a signed type, logical on an unsigned one.\<close>

definition c_shr :: "signedness \<Rightarrow> nat \<Rightarrow> 'a::len word \<Rightarrow> 'a word" where
  "c_shr s n val = (case s of Signed \<Rightarrow> signed_drop_bit n val | Unsigned \<Rightarrow> drop_bit n val)"

definition EncodeZigZag :: "signedness \<Rightarrow> 'a::len word \<Rightarrow> 'a word" where
  "EncodeZigZag s val = push_bit 1 val XOR c_shr s (LENGTH('a) - 1) val"

definition DecodeZigZag :: "'a::len word \<Rightarrow> 'a word" where
  "DecodeZigZag val = drop_bit 1 val XOR - (val AND 1)"

definition max_sz :: "'a::len word \<Rightarrow> nat" where
  "max_sz val =
     (if LENGTH('a) = 8 then 2 else if LENGTH('a) = 16 then 3
      else if LENGTH('a) = 32 then 5 else if LENGTH('a) = 64 then 10 else 0)"

text \<open>
  The loop of \<^verbatim>\<open>EncodeVarint\<close> with \<open>k\<close> rounds to go, \<open>i\<close> of them done. \<open>bytes\<close> is the reference
  parameter: it is the index stored to in every round and is assigned in the last one only.
\<close>

fun encode_loop ::
  "signedness \<Rightarrow> nat \<Rightarrow> nat \<Rightarrow> 'a::len word \<Rightarrow> nat \<Rightarrow> cell list \<Rightarrow> nat \<times> cell list" where
  "encode_loop s 0 i val bytes buf = (bytes, buf)"
| "encode_loop s (Suc k) i val bytes buf =
     (if val AND NOT 0x7F = 0
      then (i + 1, buf[bytes := Some (ucast (val AND 0x7F))])
      else encode_loop s k (i + 1) (c_shr s 7 val) bytes
             (buf[bytes := Some (ucast (val AND 0x7F OR 0x80))]))"

definition EncodeVarint :: "signedness \<Rightarrow> 'a::len word \<Rightarrow> nat \<Rightarrow> cell list \<Rightarrow> nat \<times> cell list" where
  "EncodeVarint s val bytes buf = encode_loop s (max_sz val) 0 val bytes buf"

text \<open>
  \<^verbatim>\<open>DecodeVarint\<close>: a byte is promoted to a 32-bit \<^verbatim>\<open>int\<close>, shifted, and converted to the type
  of \<^verbatim>\<open>val\<close>; the conversion extends the sign when that type is wider.
\<close>

fun decode_loop :: "u8 list \<Rightarrow> nat \<Rightarrow> 'a::len word \<Rightarrow> ba_error + 'a word" where
  "decode_loop [] offset val = Inr val"
| "decode_loop (b # bs) offset val =
     (if 32 \<le> offset then Inl ShiftRange
      else if b AND 0x80 \<noteq> 0
      then Inr (val OR scast (push_bit offset (ucast b :: u32)))
      else decode_loop bs (offset + 7) (val OR scast (push_bit offset (ucast (b AND 0x7F) :: u32))))"

definition DecodeVarint :: "u8 list \<Rightarrow> nat \<Rightarrow> ba_error + 'a::len word" where
  "DecodeVarint buf bytes = decode_loop (take bytes buf) 0 0"

text \<open>The body the \<^verbatim>\<open>WriteV\<close> functions share; the stack buffer starts indeterminate.\<close>

definition write_varint ::
  "target \<Rightarrow> signedness \<Rightarrow> bytearray \<Rightarrow> 'a::len word \<Rightarrow> ba_error + bytearray" where
  "write_varint tg s ba val =
     (let v = EncodeZigZag s (SwapToLittle tg val);
          (bytes, buf) = EncodeVarint s v 0 (replicate 10 None)
      in Write ba (take bytes buf))"

definition WriteVint8 :: "target \<Rightarrow> bytearray \<Rightarrow> u8 \<Rightarrow> ba_error + bytearray" where
  "WriteVint8 tg ba val = write_varint tg Signed ba val"

definition WriteVuint8 :: "target \<Rightarrow> bytearray \<Rightarrow> u8 \<Rightarrow> ba_error + bytearray" where
  "WriteVuint8 tg ba val = write_varint tg Unsigned ba val"

definition WriteVint16 :: "target \<Rightarrow> bytearray \<Rightarrow> u16 \<Rightarrow> ba_error + bytearray" where
  "WriteVint16 tg ba val = write_varint tg Signed ba val"

definition WriteVuint16 :: "target \<Rightarrow> bytearray \<Rightarrow> u16 \<Rightarrow> ba_error + bytearray" where
  "WriteVuint16 tg ba val = write_varint tg Unsigned ba val"

definition WriteVint32 :: "target \<Rightarrow> bytearray \<Rightarrow> u32 \<Rightarrow> ba_error + bytearray" where
  "WriteVint32 tg ba val = write_varint tg Signed ba val"

definition WriteVuint32 :: "target \<Rightarrow> bytearray \<Rightarrow> u32 \<Rightarrow> ba_error + bytearray" where
  "WriteVuint32 tg ba val = write_varint tg Unsigned ba val"

definition WriteVint64 :: "target \<Rightarrow> bytearray \<Rightarrow> u64 \<Rightarrow> ba_error + bytearray" where
  "WriteVint64 tg ba val = write_varint tg Signed ba val"

definition WriteVuint64 :: "target \<Rightarrow> bytearray \<Rightarrow> u64 \<Rightarrow> ba_error + bytearray" where
  "WriteVuint64 tg ba val = write_varint tg Unsigned ba val"

text \<open>
  The second \<^verbatim>\<open>XX\<close> macro: collect bytes up to the first one below 0x80, at most \<open>k\<close> more; when
  there is none among the ten, \<^verbatim>\<open>num\<close> stays 0. The result is the first \<^verbatim>\<open>num\<close> bytes of the buffer.
\<close>

fun varint_bytes :: "target \<Rightarrow> nat \<Rightarrow> u8 list \<Rightarrow> bytearray \<Rightarrow> ba_error + u8 list \<times> bytearray" where
  "varint_bytes tg 0 buf ba = Inr ([], ba)"
| "varint_bytes tg (Suc k) buf ba =
     res_bind (ReadFint8 tg ba)
       (\<lambda>(byte, ba'). if byte AND 0x80 = 0 then Inr (buf @ [byte], ba')
                     else varint_bytes tg k (buf @ [byte]) ba')"

definition read_varint :: "target \<Rightarrow> bytearray \<Rightarrow> ba_error + 'a::len word \<times> bytearray" where
  "read_varint tg ba =
     res_bind (varint_bytes tg 10 [] ba)
       (\<lambda>(buf, ba'). res_bind (DecodeVarint buf (length buf)) (\<lambda>val. Inr (DecodeZigZag val, ba')))"

definition ReadVint8 :: "target \<Rightarrow> bytearray \<Rightarrow> ba_error + u8 \<times> bytearray" where
  "ReadVint8 = read_varint"

definition ReadVuint8 :: "target \<Rightarrow> bytearray \<Rightarrow> ba_error + u8 \<times> bytearray" where
  "ReadVuint8 = read_varint"

definition ReadVint16 :: "target \<Rightarrow> bytearray \<Rightarrow> ba_error + u16 \<times> bytearray" where
  "ReadVint16 = read_varint"

definition ReadVuint16 :: "target \<Rightarrow> bytearray \<Rightarrow> ba_error + u16 \<times> bytearray" where
  "ReadVuint16 = read_varint"

definition ReadVint32 :: "target \<Rightarrow> bytearray \<Rightarrow> ba_error + u32 \<times> bytearray" where
  "ReadVint32 = read_varint"

definition ReadVuint32 :: "target \<Rightarrow> bytearray \<Rightarrow> ba_error + u32 \<times> bytearray" where
  "ReadVuint32 = read_varint"

definition ReadVint64 :: "target \<Rightarrow> bytearray \<Rightarrow> ba_error + u64 \<times> bytearray" where
  "ReadVint64 = read_varint"

definition ReadVuint64 :: "target \<Rightarrow> bytearray \<Rightarrow> ba_error + u64 \<times> bytearray" where
  "ReadVuint64 = read_varint"

section \<open>Strings and the generic writer\<close>

definition WriteStringWithoutLength :: "target \<Rightarrow> bytearray \<Rightarrow> u8 list \<Rightarrow> ba_error + bytearray" where
  "WriteStringWithoutLength tg ba val =
     res_bind (WriteVuint64 tg ba (of_nat (length val))) (\<lambda>ba'. Write ba' (map Some val))"

text \<open>
  \<^verbatim>\<open>resize\<close> throws for a size above \<^verbatim>\<open>max_size()\<close>; every size with the top bit set is.
  The string read may hold indeterminate bytes.
\<close>

definition ReadStringWithoutLength :: "target \<Rightarrow> bytearray \<Rightarrow> ba_error + cell list \<times> bytearray" where
  "ReadStringWithoutLength tg ba =
     res_bind (ReadVint64 tg ba)
       (\<lambda>(sz, ba'). if 2 ^ 63 \<le> unat sz then Inl LengthError else Read ba' (unat sz))"

text \<open>
  The argument of \<^verbatim>\<open>WriteAny\<close> with its static type, and the dispatch on that type as the template writes it
  down. It tests the type with plain \<^verbatim>\<open>if\<close>, so that every branch must compile for every type, and a
  compiler rejects each instance; the codecs it selects can be called directly.
\<close>

datatype any_val =
    Uint8 u8 | Int8 u8 | Uint16 u16 | Int16 u16 | Uint32 u32 | Int32 u32 | Uint64 u64 | Int64 u64
  | String "u8 list"

fun WriteAny :: "target \<Rightarrow> bytearray \<Rightarrow> any_val \<Rightarrow> bool \<Rightarrow> ba_error + bytearray" where
  "WriteAny tg ba (Uint8 val) isFixed = (if isFixed then WriteFuint8 tg ba val else WriteVuint8 tg ba val)"
| "WriteAny tg ba (Int8 val) isFixed = (if isFixed then WriteFint8 tg ba val else WriteVint8 tg ba val)"
| "WriteAny tg ba (Uint16 val) isFixed = (if isFixed then WriteFuint16 tg ba val else WriteVuint16 tg ba val)"
| "WriteAny tg ba (Int16 val) isFixed = (if isFixed then WriteFint16 tg ba val else WriteVint16 tg ba val)"
| "WriteAny tg ba (Uint32 val) isFixed = (if isFixed then WriteFuint32 tg ba val else WriteVuint32 tg ba val)"
| "WriteAny tg ba (Int32 val) isFixed = (if isFixed then WriteFint32 tg ba val else WriteVint32 tg ba val)"
| "WriteAny tg ba (Uint64 val) isFixed = (if isFixed then WriteFuint64 tg ba val else WriteVuint64 tg ba val)"
| "WriteAny tg ba (Int64 val) isFixed = (if isFixed then WriteFint64 tg ba val else WriteVint64 tg ba val)"
| "WriteAny tg ba (String val) isFixed = WriteStringWithoutLength tg ba val"

end
