(* ===== verification/Codec_Laws.thy ===== *)
theory Codec_Laws
  imports Byte_Codec
begin

text \<open>
  What the codecs guarantee: byte representations and byte swapping are lossless, ZigZag is
  lossless on signed types, values whose ZigZag code fits seven bits round trip through a
  byte array; and what they lose: longer varints, long strings, the sign bit of unsigned values.
\<close>

section \<open>Byte representations\<close>

lemma bit_bytes_word:
  "bit (bytes_word bs :: 'a::len word) n \<longleftrightarrow>
     n < LENGTH('a) \<and> n div 8 < length bs \<and> bit (bs ! (n div 8)) (n mod 8)"
proof (induction bs arbitrary: n)
  case Nil
  then show ?case by (simp add: bytes_word_def)
next
  case (Cons b bs)
  have step: "bytes_word (b # bs) = (ucast b OR push_bit 8 (bytes_word bs) :: 'a word)"
    by (simp add: bytes_word_def)
  show ?case
  proof (cases "n < 8")
    case True
    then show ?thesis
      unfolding step by (auto simp: bit_simps)
  next
    case False
    then obtain m where m: "n = m + 8" by (metis add.commute le_Suc_ex not_less)
    have "\<not> bit b n" using False bit_imp_le_length [of b n] by auto
    moreover have "n div 8 = Suc (m div 8)" "n mod 8 = m mod 8" using m by simp_all
    ultimately show ?thesis
      unfolding step using Cons.IH [of m] m by (auto simp: bit_or_iff bit_push_bit_iff bit_ucast_iff)
  qed
qed

lemma length_word_bytes [simp]: "length (word_bytes (w :: 'a::len word)) = LENGTH('a) div 8"
  by (simp add: word_bytes_def)

lemma bit_word_bytes:
  "i < LENGTH('a) div 8 \<Longrightarrow> j < 8 \<Longrightarrow> bit (word_bytes (w :: 'a::len word) ! i) j = bit w (8 * i + j)"
  by (auto simp: word_bytes_def bit_simps dest: bit_imp_le_length)

lemma bytes_word_inverse:
  assumes "8 dvd LENGTH('a::len)"
  shows "bytes_word (word_bytes w) = (w :: 'a word)"
proof (rule bit_word_eqI)
  fix n assume n: "n < LENGTH('a)"
  with assms have "n div 8 < LENGTH('a) div 8" by (simp add: less_mult_imp_div_less)
  with n bit_word_bytes [of "n div 8" "n mod 8" w]
  show "bit (bytes_word (word_bytes w) :: 'a word) n = bit w n"
    by (simp add: bit_bytes_word)
qed

lemma word_bytes_inverse:
  assumes "8 dvd LENGTH('a::len)" "length bs = LENGTH('a) div 8"
  shows "word_bytes (bytes_word bs :: 'a word) = bs"
proof (rule nth_equalityI)
  fix i assume i: "i < length (word_bytes (bytes_word bs :: 'a word))"
  show "word_bytes (bytes_word bs :: 'a word) ! i = bs ! i"
  proof (rule bit_word_eqI)
    fix j :: nat assume j: "j < LENGTH(8)"
    have "8 * i + j < LENGTH('a)" using i j assms(1) by auto
    with i j assms(2) bit_word_bytes [of i j "bytes_word bs :: 'a word"]
    show "bit (word_bytes (bytes_word bs :: 'a word) ! i) j = bit (bs ! i) j"
      by (simp add: bit_bytes_word)
  qed
qed (use assms in simp)

lemma length_object_bytes [simp]: "length (object_bytes tg (w :: 'a::len word)) = LENGTH('a) div 8"
  by (simp add: object_bytes_def)

lemma object_value_inverse:
  "8 dvd LENGTH('a::len) \<Longrightarrow> object_value tg (object_bytes tg w) = (w :: 'a word)"
  by (simp add: object_value_def object_bytes_def bytes_word_inverse)

text \<open>The widths \<^verbatim>\<open>ByteSwap\<close> handles.\<close>

definition swappable :: "'a::len itself \<Rightarrow> bool" where
  "swappable _ \<longleftrightarrow> LENGTH('a) = 16 \<or> LENGTH('a) = 32 \<or> LENGTH('a) = 64"

lemma ByteSwap_swappable:
  "swappable TYPE('a::len) \<Longrightarrow> ByteSwap (w :: 'a word) = bytes_word (rev (word_bytes w))"
  by (simp add: ByteSwap_def swappable_def)

lemma swappable_dvd: "swappable TYPE('a::len) \<Longrightarrow> 8 dvd LENGTH('a)"
  by (auto simp: swappable_def)

lemma word_bytes_ByteSwap:
  "swappable TYPE('a::len) \<Longrightarrow> word_bytes (ByteSwap (w :: 'a word)) = rev (word_bytes w)"
  by (simp add: ByteSwap_swappable word_bytes_inverse swappable_dvd)

lemma ByteSwap_involutive:
  assumes "swappable TYPE('a::len)"
  shows "ByteSwap (ByteSwap (w :: 'a word)) = w"
  using assms word_bytes_ByteSwap [OF assms, of w]
  by (simp add: ByteSwap_swappable [of "ByteSwap w"] bytes_word_inverse swappable_dvd)

section \<open>ZigZag\<close>

lemma uminus_and_1: "- (v AND 1 :: 'a::len word) = (if bit v 0 then -1 else 0)"
  by (simp add: and_one_eq mod2_eq_if bit_0)

lemma bit_DecodeZigZag:
  "i < LENGTH('a) \<Longrightarrow> bit (DecodeZigZag (v :: 'a::len word)) i \<longleftrightarrow>
     (Suc i < LENGTH('a) \<and> bit v (Suc i)) \<noteq> bit v 0"
  unfolding DecodeZigZag_def uminus_and_1
  by (auto simp: bit_simps dest: bit_imp_le_length)

lemma bit_shl_1:
  "i < LENGTH('a) \<Longrightarrow> bit (push_bit 1 (v :: 'a::len word)) i \<longleftrightarrow> 0 < i \<and> bit v (i - 1)"
  unfolding bit_push_bit_iff by (cases i) auto

lemma bit_EncodeZigZag_Signed:
  "i < LENGTH('a) \<Longrightarrow> bit (EncodeZigZag Signed (v :: 'a::len word)) i \<longleftrightarrow>
     (0 < i \<and> bit v (i - 1)) \<noteq> bit v (LENGTH('a) - 1)"
  unfolding EncodeZigZag_def bit_xor_iff bit_shl_1
  by (cases i) (auto simp: c_shr_def bit_signed_drop_bit_iff)

lemma bit_EncodeZigZag_Unsigned:
  "i < LENGTH('a) \<Longrightarrow> bit (EncodeZigZag Unsigned (v :: 'a::len word)) i \<longleftrightarrow>
     (if i = 0 then bit v (LENGTH('a) - 1) else bit v (i - 1))"
  unfolding EncodeZigZag_def bit_xor_iff bit_shl_1
  by (cases i) (auto simp: c_shr_def bit_drop_bit_eq dest: bit_imp_le_length)

lemma top_bit_index: "i < LENGTH('a::len) \<Longrightarrow> \<not> Suc i < LENGTH('a) \<Longrightarrow> i = LENGTH('a) - 1"
  by simp

lemma DecodeZigZag_Signed: "DecodeZigZag (EncodeZigZag Signed v) = (v :: 'a::len word)"
proof (rule bit_word_eqI)
  fix i assume i: "i < LENGTH('a)"
  show "bit (DecodeZigZag (EncodeZigZag Signed v)) i = bit v i"
  proof (cases "Suc i < LENGTH('a)")
    case True
    with i show ?thesis by (auto simp: bit_DecodeZigZag bit_EncodeZigZag_Signed)
  next
    case False
    with i top_bit_index [OF i False] show ?thesis
      by (simp add: bit_DecodeZigZag bit_EncodeZigZag_Signed)
  qed
qed

lemma DecodeZigZag_Unsigned:
  "DecodeZigZag (EncodeZigZag Unsigned v) =
     (if bit v (LENGTH('a) - 1) then v XOR mask (LENGTH('a) - 1) else (v :: 'a::len word))"
proof (rule bit_word_eqI)
  fix i assume i: "i < LENGTH('a)"
  show "bit (DecodeZigZag (EncodeZigZag Unsigned v)) i =
      bit (if bit v (LENGTH('a) - 1) then v XOR mask (LENGTH('a) - 1) else v) i"
  proof (cases "Suc i < LENGTH('a)")
    case True
    with i show ?thesis
      by (auto simp: bit_DecodeZigZag bit_EncodeZigZag_Unsigned bit_xor_iff bit_mask_iff)
  next
    case False
    with i top_bit_index [OF i False] show ?thesis
      by (auto simp: bit_DecodeZigZag bit_EncodeZigZag_Unsigned bit_xor_iff bit_mask_iff)
  qed
qed

section \<open>One-byte varints\<close>

text \<open>The values whose ZigZag code fits into seven bits.\<close>

definition short_varint :: "signedness \<Rightarrow> 'a::len word \<Rightarrow> bool" where
  "short_varint s v = (case s of Signed \<Rightarrow> -64 \<le> sint v \<and> sint v < 64 | Unsigned \<Rightarrow> unat v < 64)"

lemma and_not_7F_eq_0:
  "(v :: 'a::len word) AND NOT 0x7F = 0 \<longleftrightarrow> (\<forall>i. 7 \<le> i \<longrightarrow> \<not> bit v i)"
proof -
  have m: "(0x7F :: 'a word) = mask 7" by (simp add: mask_eq_exp_minus_1)
  show ?thesis
    unfolding m
    by (auto simp: bit_eq_iff bit_and_iff bit_not_iff bit_mask_iff not_less dest: bit_imp_le_length)
qed

lemma unat_less_bits:
  "unat (v :: 'a::len word) < 2 ^ n \<longleftrightarrow> (\<forall>i. n \<le> i \<longrightarrow> \<not> bit v i)"
proof -
  have "unat v < 2 ^ n \<longleftrightarrow> take_bit n v = v"
    by (metis take_bit_nat_eq_self_iff unsigned_take_bit_eq unsigned_word_eqI)
  also have "\<dots> \<longleftrightarrow> (\<forall>i. n \<le> i \<longrightarrow> \<not> bit v i)"
  proof
    assume "take_bit n v = v"
    then show "\<forall>i. n \<le> i \<longrightarrow> \<not> bit v i" by (metis bit_take_bit_iff not_less)
  next
    assume "\<forall>i. n \<le> i \<longrightarrow> \<not> bit v i"
    then show "take_bit n v = v"
      by (intro bit_word_eqI) (use not_less in \<open>auto simp: bit_take_bit_iff\<close>)
  qed
  finally show ?thesis .
qed

lemma short_code:
  assumes "short_varint s (v :: 'a::len word)" "8 \<le> LENGTH('a)"
  shows "EncodeZigZag s v AND NOT 0x7F = 0"
  unfolding and_not_7F_eq_0
proof (intro allI impI)
  fix i :: nat assume i: "7 \<le> i"
  show "\<not> bit (EncodeZigZag s v) i"
  proof (cases "i < LENGTH('a)")
    case False
    then show ?thesis using bit_imp_le_length by blast
  next
    case True
    show ?thesis
    proof (cases s)
      case Signed
      with assms(1) have "signed_take_bit 6 (sint v) = sint v"
        by (simp add: short_varint_def signed_take_bit_int_eq_self_iff)
      moreover have "bit (signed_take_bit 6 (sint v)) j = bit (sint v) (min j 6)" for j
        by (simp add: bit_signed_take_bit_iff min.commute)
      ultimately have b: "bit (sint v) j = bit (sint v) (min j 6)" for j by simp
      have hi: "bit (sint v) (i - 1) = bit (sint v) (LENGTH('a) - 1)"
      proof -
        have "min (i - 1) 6 = (6 :: nat)" "min (LENGTH('a) - 1) 6 = 6" using i assms(2) by auto
        then show ?thesis using b [of "i - 1"] b [of "LENGTH('a) - 1"] by argo
      qed
      with True Signed i show ?thesis
        by (auto simp: bit_EncodeZigZag_Signed bit_sint_iff)
    next
      case Unsigned
      with assms(1) have "\<not> bit v j" if "6 \<le> j" for j
        using unat_less_bits [of v 6] that by (simp add: short_varint_def)
      with True Unsigned i show ?thesis by (simp add: bit_EncodeZigZag_Unsigned)
    qed
  qed
qed

lemma EncodeVarint_short:
  assumes "v AND NOT 0x7F = 0" "0 < max_sz v"
  shows "EncodeVarint s v 0 (replicate 10 None) = (1, Some (ucast v) # replicate 9 None)"
proof -
  have "v AND 0x7F = v"
  proof -
    have "v = v AND (0x7F OR NOT 0x7F)" by simp
    also have "\<dots> = v AND 0x7F" using assms(1) by (simp only: bit.conj_disj_distrib bit.disj_zero_right)
    finally show ?thesis by simp
  qed
  with assms show ?thesis
    by (cases "max_sz v") (simp_all add: EncodeVarint_def numeral_eq_Suc)
qed

lemma low_byte:
  assumes "(v :: 'a::len word) AND NOT 0x7F = 0"
  shows "ucast v AND (0x80 :: u8) = 0"
    and "decode_loop [ucast v] 0 0 = Inr v"
proof -
  have hi: "\<not> bit v i" if "7 \<le> i" for i using assms that and_not_7F_eq_0 by blast
  have m: "(0x80 :: u8) = 2 ^ 7" "(0x7F :: u8) = mask 7" by (simp_all add: mask_eq_exp_minus_1)
  have "bit (0x80 :: u8) n \<Longrightarrow> n = 7" for n unfolding m(1) bit_exp_iff by simp
  then show "ucast v AND (0x80 :: u8) = 0"
    by (intro bit_word_eqI) (use hi in \<open>auto simp: bit_and_iff bit_ucast_iff\<close>)
  moreover have "ucast v AND (0x7F :: u8) = ucast v"
    unfolding m(2) by (auto simp: bit_eq_iff bit_and_iff bit_mask_iff bit_ucast_iff)
      (meson hi not_less)
  moreover have "scast (ucast (ucast v :: u8) :: u32) = v"
  proof (rule bit_word_eqI)
    fix n assume n: "n < LENGTH('a)"
    have "bit (scast (ucast (ucast v :: u8) :: u32) :: 'a word) n \<longleftrightarrow>
        min 31 n < 8 \<and> bit v (min 31 n)"
      using n by (auto simp: bit_signed_iff bit_ucast_iff)
    then show "bit (scast (ucast (ucast v :: u8) :: u32) :: 'a word) n = bit v n"
      using hi by (cases "7 \<le> n") (auto simp: min_def)
  qed
  ultimately show "decode_loop [ucast v] 0 0 = Inr v" by simp
qed

section \<open>Codecs over a byte array\<close>

text \<open>
  The contract of a codec: \<open>put\<close> appends the encoding of a value, \<open>get\<close> takes an encoding
  off and returns the value; its first argument stands for the static type to be read.
\<close>

fun put_all :: "(bytearray \<Rightarrow> 'v \<Rightarrow> ba_error + bytearray) \<Rightarrow> 'v list \<Rightarrow> bytearray \<Rightarrow> ba_error + bytearray" where
  "put_all put [] ba = Inr ba"
| "put_all put (v # vs) ba = res_bind (put ba v) (put_all put vs)"

fun get_all :: "('v \<Rightarrow> bytearray \<Rightarrow> ba_error + 'v \<times> bytearray) \<Rightarrow> 'v list \<Rightarrow> bytearray \<Rightarrow>
    ba_error + 'v list \<times> bytearray" where
  "get_all get [] ba = Inr ([], ba)"
| "get_all get (v # vs) ba =
     res_bind (get v ba) (\<lambda>(w, ba'). res_bind (get_all get vs ba') (\<lambda>(ws, ba''). Inr (w # ws, ba'')))"

lemma not_drained_append:
  "\<not> drained b bs pos \<Longrightarrow> pos \<le> length bs \<Longrightarrow> \<not> drained b (bs @ xs) pos"
  by (cases xs) (auto simp: drained_def)

lemma ba_queue_pos: "ba_queue ba bs pos \<Longrightarrow> pos \<le> length bs"
  by (auto simp: ba_queue_def)

locale codec =
  fixes put :: "bytearray \<Rightarrow> 'v \<Rightarrow> ba_error + bytearray"
    and get :: "'v \<Rightarrow> bytearray \<Rightarrow> ba_error + 'v \<times> bytearray"
    and enc :: "'v \<Rightarrow> cell list"
    and ok :: "'v \<Rightarrow> bool"
  assumes put_enc: "ok v \<Longrightarrow> ba_queue ba bs pos \<Longrightarrow> \<not> drained (base_size ba) bs pos \<Longrightarrow>
      \<exists>ba'. put ba v = Inr ba' \<and> ba_queue ba' (bs @ enc v) pos \<and> base_size ba' = base_size ba"
    and get_enc: "ok v \<Longrightarrow> ba_queue ba (bs @ enc v @ cs) (length bs) \<Longrightarrow>
      \<exists>ba'. get v ba = Inr (v, ba') \<and> ba_queue ba' (bs @ enc v @ cs) (length (bs @ enc v))"
begin

lemma put_all_enc:
  "\<forall>v \<in> set vs. ok v \<Longrightarrow> ba_queue ba bs pos \<Longrightarrow> \<not> drained (base_size ba) bs pos \<Longrightarrow>
   \<exists>ba'. put_all put vs ba = Inr ba' \<and> ba_queue ba' (bs @ concat (map enc vs)) pos"
proof (induction vs arbitrary: ba bs)
  case Nil
  then show ?case by simp
next
  case (Cons v vs)
  then obtain ba1 where ba1: "put ba v = Inr ba1" "ba_queue ba1 (bs @ enc v) pos"
      "base_size ba1 = base_size ba"
    using put_enc [of v ba bs pos] by auto
  have "\<not> drained (base_size ba1) (bs @ enc v) pos"
    using not_drained_append [OF Cons.prems(3) ba_queue_pos [OF Cons.prems(2)]] ba1(3) by simp
  with Cons.IH [OF _ ba1(2)] Cons.prems(1) ba1(1) show ?case by simp
qed

lemma get_all_enc:
  "\<forall>v \<in> set vs. ok v \<Longrightarrow> ba_queue ba (bs @ concat (map enc vs)) (length bs) \<Longrightarrow>
   \<exists>ba'. get_all get vs ba = Inr (vs, ba') \<and>
     ba_queue ba' (bs @ concat (map enc vs)) (length (bs @ concat (map enc vs)))"
proof (induction vs arbitrary: ba bs)
  case Nil
  then show ?case by simp
next
  case (Cons v vs)
  then obtain ba1 where ba1: "get v ba = Inr (v, ba1)"
      "ba_queue ba1 ((bs @ enc v) @ concat (map enc vs)) (length (bs @ enc v))"
    using get_enc [of v ba bs "concat (map enc vs)"] by auto
  with Cons.IH [OF _ ba1(2)] Cons.prems(1) show ?case by auto
qed

lemma round_trip:
  assumes "\<forall>v \<in> set vs. ok v" "ba_queue ba bs (length bs)" "\<not> drained (base_size ba) bs (length bs)"
  shows "\<exists>ba1 ba2. put_all put vs ba = Inr ba1 \<and> get_all get vs ba1 = Inr (vs, ba2) \<and>
    ba_queue ba2 (bs @ concat (map enc vs)) (length (bs @ concat (map enc vs)))"
proof -
  obtain ba1 where ba1: "put_all put vs ba = Inr ba1" "ba_queue ba1 (bs @ concat (map enc vs)) (length bs)"
    using put_all_enc [OF assms] by blast
  with get_all_enc [OF assms(1) ba1(2)] show ?thesis by blast
qed

end

section \<open>The codecs meet the contract\<close>

lemma write_value_holds:
  assumes "ba_queue ba bs pos" "\<not> drained (base_size ba) bs pos"
  shows "\<exists>ba'. write_value tg ba v = Inr ba' \<and> ba_queue ba' (bs @ map Some (object_bytes tg v)) pos \<and>
    base_size ba' = base_size ba"
  unfolding write_value_def using assms by (rule ba.wr_holds)

lemma read_value_holds:
  assumes "ba_queue ba (bs @ map Some (object_bytes tg v) @ cs) (length bs)"
    and "8 dvd LENGTH('a::len)"
  shows "\<exists>ba'. read_value tg ba = Inr (v :: 'a word, ba') \<and>
    ba_queue ba' (bs @ map Some (object_bytes tg v) @ cs) (length (bs @ map Some (object_bytes tg v)))"
  using ba.read_back [OF assms(1), of "LENGTH('a) div 8"] assms(2)
  by (auto simp: read_value_def object_value_inverse)

lemma read_fixed_holds:
  assumes "ba_queue ba (bs @ map Some (object_bytes tg (SwapToLittle tg v)) @ cs) (length bs)"
    and "8 dvd LENGTH('a::len)" and "sylar_order tg = SYLAR_LITTLE_ENDIAN \<or> swappable TYPE('a)"
  shows "\<exists>ba'. read_fixed tg ba = Inr (v :: 'a word, ba') \<and>
    ba_queue ba' (bs @ map Some (object_bytes tg (SwapToLittle tg v)) @ cs)
      (length (bs @ map Some (object_bytes tg (SwapToLittle tg v))))"
  using read_value_holds [OF assms(1,2)] assms(3)
  by (cases "sylar_order tg") (auto simp: read_fixed_def SwapToLittle_def ByteSwap_involutive)

text \<open>The encoding of a short varint, and of the values of \<^verbatim>\<open>WriteAny\<close>.\<close>

definition short_enc :: "signedness \<Rightarrow> 'a::len word \<Rightarrow> cell list" where
  "short_enc s v = [Some (ucast (EncodeZigZag s v))]"

lemma short_bounds:
  "short_varint s v \<Longrightarrow> 8 \<le> LENGTH('a::len) \<Longrightarrow> DecodeZigZag (EncodeZigZag s v) = (v :: 'a word)"
  using unat_less_bits [of v 6]
  by (cases s) (auto simp: DecodeZigZag_Signed DecodeZigZag_Unsigned short_varint_def)

lemma write_varint_short:
  assumes "short_varint s (v :: 'a::len word)" "0 < max_sz v" "sylar_order tg = SYLAR_LITTLE_ENDIAN"
  shows "write_varint tg s ba v = Write ba (short_enc s v)"
proof -
  have "8 \<le> LENGTH('a)" using assms(2) by (auto simp: max_sz_def split: if_splits)
  with assms have "EncodeVarint s (EncodeZigZag s v) 0 (replicate 10 None) =
      (1, Some (ucast (EncodeZigZag s v)) # replicate 9 None)"
    by (intro EncodeVarint_short short_code) (auto simp: max_sz_def)
  with assms(3) show ?thesis
    by (simp add: write_varint_def SwapToLittle_def short_enc_def)
qed

lemma write_varint_holds:
  assumes "short_varint s (v :: 'a::len word)" "0 < max_sz v" "sylar_order tg = SYLAR_LITTLE_ENDIAN"
    and "ba_queue ba bs pos" "\<not> drained (base_size ba) bs pos"
  shows "\<exists>ba'. write_varint tg s ba v = Inr ba' \<and> ba_queue ba' (bs @ short_enc s v) pos \<and>
    base_size ba' = base_size ba"
  unfolding write_varint_short [OF assms(1-3)] using assms(4,5) by (rule ba.wr_holds)

lemma object_bytes_u8: "object_bytes tg (b :: u8) = [b]"
  by (simp add: object_bytes_def word_bytes_def)

lemma varint_bytes_stop:
  "ReadFint8 tg ba = Inr (b, ba') \<Longrightarrow> b AND 0x80 = 0 \<Longrightarrow>
   varint_bytes tg (Suc k) [] ba = Inr ([b], ba')"
  by simp

text \<open>Reading a varint whose first byte is below 0x80 consumes that byte.\<close>

lemma read_varint_byte:
  assumes q: "ba_queue ba (bs @ Some b # cs) (length bs)"
    and b: "b AND 0x80 = 0" and le: "sylar_order tg = SYLAR_LITTLE_ENDIAN"
  shows "\<exists>ba'. read_varint tg ba =
      res_bind (decode_loop [b] 0 0) (\<lambda>val. Inr (DecodeZigZag val :: 'a::len word, ba')) \<and>
    ba_queue ba' (bs @ Some b # cs) (length bs + 1)"
proof -
  have "SwapToLittle tg b = b" using le by (simp add: SwapToLittle_def)
  with q obtain ba' where "ReadFint8 tg ba = Inr (b, ba')" "ba_queue ba' (bs @ Some b # cs) (length bs + 1)"
    using read_fixed_holds [of ba bs tg b cs] le by (auto simp: ReadFint8_def object_bytes_u8)
  moreover from this(1) b have "varint_bytes tg 10 [] ba = Inr ([b], ba')"
    using varint_bytes_stop [of tg ba b ba' 9] by simp
  then have "read_varint tg ba =
      res_bind (decode_loop [b] 0 0) (\<lambda>val. Inr (DecodeZigZag val :: 'a word, ba'))"
    by (simp add: read_varint_def DecodeVarint_def del: varint_bytes.simps decode_loop.simps)
  ultimately show ?thesis by blast
qed

lemma read_varint_holds:
  assumes "short_varint s (v :: 'a::len word)" "8 \<le> LENGTH('a)" "sylar_order tg = SYLAR_LITTLE_ENDIAN"
    and q: "ba_queue ba (bs @ short_enc s v @ cs) (length bs)"
  shows "\<exists>ba'. read_varint tg ba = Inr (v, ba') \<and>
    ba_queue ba' (bs @ short_enc s v @ cs) (length (bs @ short_enc s v))"
proof -
  note low = low_byte [OF short_code [OF assms(1,2)]]
  from q have "ba_queue ba (bs @ Some (ucast (EncodeZigZag s v)) # cs) (length bs)"
    by (simp add: short_enc_def)
  from read_varint_byte [OF this low(1) assms(3), where 'a = 'a] low(2) short_bounds [OF assms(1,2)]
  show ?thesis by (auto simp: short_enc_def)
qed

text \<open>Reading back what \<^verbatim>\<open>WriteAny\<close> wrote, with the reader of the same type.\<close>

fun ReadAs :: "target \<Rightarrow> any_val \<times> bool \<Rightarrow> bytearray \<Rightarrow> ba_error + (any_val \<times> bool) \<times> bytearray" where
  "ReadAs tg (Uint8 _, f) ba = res_bind (if f then ReadFuint8 tg ba else ReadVuint8 tg ba) (\<lambda>(v, b). Inr ((Uint8 v, f), b))"
| "ReadAs tg (Int8 _, f) ba = res_bind (if f then ReadFint8 tg ba else ReadVint8 tg ba) (\<lambda>(v, b). Inr ((Int8 v, f), b))"
| "ReadAs tg (Uint16 _, f) ba = res_bind (if f then ReadFuint16 tg ba else ReadVuint16 tg ba) (\<lambda>(v, b). Inr ((Uint16 v, f), b))"
| "ReadAs tg (Int16 _, f) ba = res_bind (if f then ReadFint16 tg ba else ReadVint16 tg ba) (\<lambda>(v, b). Inr ((Int16 v, f), b))"
| "ReadAs tg (Uint32 _, f) ba = res_bind (if f then ReadFuint32 tg ba else ReadVuint32 tg ba) (\<lambda>(v, b). Inr ((Uint32 v, f), b))"
| "ReadAs tg (Int32 _, f) ba = res_bind (if f then ReadFint32 tg ba else ReadVint32 tg ba) (\<lambda>(v, b). Inr ((Int32 v, f), b))"
| "ReadAs tg (Uint64 _, f) ba = res_bind (if f then ReadFuint64 tg ba else ReadVuint64 tg ba) (\<lambda>(v, b). Inr ((Uint64 v, f), b))"
| "ReadAs tg (Int64 _, f) ba = res_bind (if f then ReadFint64 tg ba else ReadVint64 tg ba) (\<lambda>(v, b). Inr ((Int64 v, f), b))"
| "ReadAs tg (String _, f) ba = res_bind (ReadStringWithoutLength tg ba)
     (\<lambda>(cs, b). case cells_bytes cs of None \<Rightarrow> Inl Indeterminate | Some val \<Rightarrow> Inr ((String val, f), b))"

text \<open>
  The values that round trip. With the little order: fixed-width values, short varints and strings
  of fewer than 64 bytes. With the big order: fixed-width values of 16 bits or more.
\<close>

fun any_ok :: "target \<Rightarrow> any_val \<times> bool \<Rightarrow> bool" where
  "any_ok tg (Uint8 v, f) = (sylar_order tg = SYLAR_LITTLE_ENDIAN \<and> (f \<or> short_varint Unsigned v))"
| "any_ok tg (Int8 v, f) = (sylar_order tg = SYLAR_LITTLE_ENDIAN \<and> (f \<or> short_varint Signed v))"
| "any_ok tg (Uint16 v, f) = (f \<or> sylar_order tg = SYLAR_LITTLE_ENDIAN \<and> short_varint Unsigned v)"
| "any_ok tg (Int16 v, f) = (f \<or> sylar_order tg = SYLAR_LITTLE_ENDIAN \<and> short_varint Signed v)"
| "any_ok tg (Uint32 v, f) = (f \<or> sylar_order tg = SYLAR_LITTLE_ENDIAN \<and> short_varint Unsigned v)"
| "any_ok tg (Int32 v, f) = (f \<or> sylar_order tg = SYLAR_LITTLE_ENDIAN \<and> short_varint Signed v)"
| "any_ok tg (Uint64 v, f) = (f \<or> sylar_order tg = SYLAR_LITTLE_ENDIAN \<and> short_varint Unsigned v)"
| "any_ok tg (Int64 v, f) = (f \<or> sylar_order tg = SYLAR_LITTLE_ENDIAN \<and> short_varint Signed v)"
| "any_ok tg (String val, f) = (sylar_order tg = SYLAR_LITTLE_ENDIAN \<and> length val < 64)"

definition int_enc :: "target \<Rightarrow> signedness \<Rightarrow> 'a::len word \<Rightarrow> bool \<Rightarrow> cell list" where
  "int_enc tg s v f = (if f then map Some (object_bytes tg (SwapToLittle tg v)) else short_enc s v)"

definition str_enc :: "u8 list \<Rightarrow> cell list" where
  "str_enc val = short_enc Unsigned (of_nat (length val) :: u64) @ map Some val"

fun any_enc :: "target \<Rightarrow> any_val \<times> bool \<Rightarrow> cell list" where
  "any_enc tg (Uint8 v, f) = int_enc tg Unsigned v f"
| "any_enc tg (Int8 v, f) = int_enc tg Signed v f"
| "any_enc tg (Uint16 v, f) = int_enc tg Unsigned v f"
| "any_enc tg (Int16 v, f) = int_enc tg Signed v f"
| "any_enc tg (Uint32 v, f) = int_enc tg Unsigned v f"
| "any_enc tg (Int32 v, f) = int_enc tg Signed v f"
| "any_enc tg (Uint64 v, f) = int_enc tg Unsigned v f"
| "any_enc tg (Int64 v, f) = int_enc tg Signed v f"
| "any_enc tg (String val, f) = str_enc val"

lemmas codec_defs =
  WriteFint8_def WriteFuint8_def WriteFint16_def WriteFuint16_def WriteFint32_def WriteFuint32_def
  WriteFint64_def WriteFuint64_def WriteVint8_def WriteVuint8_def WriteVint16_def WriteVuint16_def
  WriteVint32_def WriteVuint32_def WriteVint64_def WriteVuint64_def
  ReadFint8_def ReadFuint8_def ReadFint16_def ReadFuint16_def ReadFint32_def ReadFuint32_def
  ReadFint64_def ReadFuint64_def ReadVint8_def ReadVuint8_def ReadVint16_def ReadVuint16_def
  ReadVint32_def ReadVuint32_def ReadVint64_def ReadVuint64_def

lemma write_int_holds:
  assumes "ba_queue ba bs pos" "\<not> drained (base_size ba) bs pos"
    and "f \<or> sylar_order tg = SYLAR_LITTLE_ENDIAN \<and> short_varint s v" "0 < max_sz (v :: 'a::len word)"
  shows "\<exists>ba'. (if f then write_value tg ba (SwapToLittle tg v) else write_varint tg s ba v) = Inr ba' \<and>
    ba_queue ba' (bs @ int_enc tg s v f) pos \<and> base_size ba' = base_size ba"
  using write_value_holds [OF assms(1,2)] write_varint_holds [of s v tg, OF _ assms(4) _ assms(1,2)] assms(3)
  by (cases f) (simp_all add: int_enc_def)

lemma read_int_holds:
  assumes "ba_queue ba (bs @ int_enc tg s v f @ cs) (length bs)"
    and "sylar_order tg = SYLAR_LITTLE_ENDIAN \<or> swappable TYPE('a::len) \<and> f"
    and "f \<or> short_varint s v" "0 < max_sz (v :: 'a word)"
  shows "\<exists>ba'. (if f then read_fixed tg ba else read_varint tg ba) = Inr (v, ba') \<and>
    ba_queue ba' (bs @ int_enc tg s v f @ cs) (length (bs @ int_enc tg s v f))"
proof -
  have "8 dvd LENGTH('a)" "8 \<le> LENGTH('a)" using assms(4) by (auto simp: max_sz_def split: if_splits)
  then show ?thesis
    using read_fixed_holds [of ba bs tg v cs] read_varint_holds [of s v tg ba bs cs] assms
    by (cases f) (auto simp: int_enc_def)
qed

lemma short_length: "length val < 64 \<Longrightarrow> short_varint Unsigned (of_nat (length val) :: u64)"
  by (simp add: short_varint_def unat_of_nat)

lemma WriteString_holds:
  assumes q: "ba_queue ba bs pos" "\<not> drained (base_size ba) bs pos"
    and ok: "sylar_order tg = SYLAR_LITTLE_ENDIAN" "length val < 64"
  shows "\<exists>ba'. WriteStringWithoutLength tg ba val = Inr ba' \<and> ba_queue ba' (bs @ str_enc val) pos \<and>
    base_size ba' = base_size ba"
proof -
  let ?n = "of_nat (length val) :: u64"
  obtain ba1 where ba1: "write_varint tg Unsigned ba ?n = Inr ba1"
      "ba_queue ba1 (bs @ short_enc Unsigned ?n) pos" "base_size ba1 = base_size ba"
    using write_varint_holds [OF short_length [OF ok(2)] _ ok(1) q] by (auto simp: max_sz_def)
  moreover have "\<not> drained (base_size ba1) (bs @ short_enc Unsigned ?n) pos"
    using not_drained_append [OF q(2) ba_queue_pos [OF q(1)]] ba1(3) by simp
  ultimately show ?thesis
    using ba.wr_holds [OF ba1(2), of "map Some val"]
    by (auto simp: WriteStringWithoutLength_def WriteVuint64_def str_enc_def)
qed

lemma ReadString_holds:
  assumes q: "ba_queue ba (bs @ str_enc val @ cs) (length bs)"
    and ok: "sylar_order tg = SYLAR_LITTLE_ENDIAN" "length val < 64"
  shows "\<exists>ba'. ReadStringWithoutLength tg ba = Inr (map Some val, ba') \<and>
    ba_queue ba' (bs @ str_enc val @ cs) (length (bs @ str_enc val))"
proof -
  let ?n = "of_nat (length val) :: u64"
  from q obtain ba1 where ba1: "read_varint tg ba = Inr (?n, ba1)"
      "ba_queue ba1 ((bs @ short_enc Unsigned ?n) @ map Some val @ cs) (length (bs @ short_enc Unsigned ?n))"
    using read_varint_holds [OF short_length [OF ok(2)] _ ok(1), of ba bs "map Some val @ cs"]
    by (auto simp: str_enc_def)
  have "unat ?n = length val" using ok(2) by (simp add: unat_of_nat)
  with ba.read_back [OF ba1(2), of "length val"] ba1(1) ok(2) show ?thesis
    by (auto simp: ReadStringWithoutLength_def ReadVint64_def str_enc_def)
qed

lemma WriteAny_holds:
  assumes "any_ok tg (v, f)" "ba_queue ba bs pos" "\<not> drained (base_size ba) bs pos"
  shows "\<exists>ba'. WriteAny tg ba v f = Inr ba' \<and> ba_queue ba' (bs @ any_enc tg (v, f)) pos \<and>
    base_size ba' = base_size ba"
proof (cases v)
  case (String val)
  with assms show ?thesis by (simp add: WriteString_holds)
next
  case (Uint8 x)
  with assms write_int_holds [OF assms(2,3), of f tg Unsigned x] show ?thesis
    by (simp add: codec_defs max_sz_def SwapToLittle_def cong: if_cong)
next
  case (Int8 x)
  with assms write_int_holds [OF assms(2,3), of f tg Signed x] show ?thesis
    by (simp add: codec_defs max_sz_def SwapToLittle_def cong: if_cong)
qed (use assms in \<open>auto simp: codec_defs int_enc_def max_sz_def
    intro!: write_value_holds write_varint_holds\<close>)

lemma ReadAs_holds:
  assumes ok: "any_ok tg (v, f)" and q: "ba_queue ba (bs @ any_enc tg (v, f) @ cs) (length bs)"
  shows "\<exists>ba'. ReadAs tg (v, f) ba = Inr ((v, f), ba') \<and>
    ba_queue ba' (bs @ any_enc tg (v, f) @ cs) (length (bs @ any_enc tg (v, f)))"
proof (cases v)
  case (String val)
  with ok q ReadString_holds [of ba bs val cs tg] show ?thesis by auto
next
  case (Uint8 x)
  with ok q read_int_holds [of ba bs tg Unsigned x f cs] show ?thesis
    by (auto simp: codec_defs max_sz_def)
next
  case (Int8 x)
  with ok q read_int_holds [of ba bs tg Signed x f cs] show ?thesis
    by (auto simp: codec_defs max_sz_def)
next
  case (Uint16 x)
  with ok q read_int_holds [of ba bs tg Unsigned x f cs] show ?thesis
    by (auto simp: codec_defs max_sz_def swappable_def)
next
  case (Int16 x)
  with ok q read_int_holds [of ba bs tg Signed x f cs] show ?thesis
    by (auto simp: codec_defs max_sz_def swappable_def)
next
  case (Uint32 x)
  with ok q read_int_holds [of ba bs tg Unsigned x f cs] show ?thesis
    by (auto simp: codec_defs max_sz_def swappable_def)
next
  case (Int32 x)
  with ok q read_int_holds [of ba bs tg Signed x f cs] show ?thesis
    by (auto simp: codec_defs max_sz_def swappable_def)
next
  case (Uint64 x)
  with ok q read_int_holds [of ba bs tg Unsigned x f cs] show ?thesis
    by (auto simp: codec_defs max_sz_def swappable_def)
next
  case (Int64 x)
  with ok q read_int_holds [of ba bs tg Signed x f cs] show ?thesis
    by (auto simp: codec_defs max_sz_def swappable_def)
qed

interpretation any: codec "\<lambda>ba (v, f). WriteAny tg ba v f" "ReadAs tg" "any_enc tg" "any_ok tg" for tg
proof
  show "\<exists>ba'. (case v of (v, f) \<Rightarrow> WriteAny tg ba v f) = Inr ba' \<and> ba_queue ba' (bs @ any_enc tg v) pos \<and>
      base_size ba' = base_size ba"
    if "any_ok tg v" "ba_queue ba bs pos" "\<not> drained (base_size ba) bs pos" for v ba bs pos
    using that WriteAny_holds [of tg "fst v" "snd v"] by (cases v) simp
  show "\<exists>ba'. ReadAs tg v ba = Inr (v, ba') \<and> ba_queue ba' (bs @ any_enc tg v @ cs) (length (bs @ any_enc tg v))"
    if "any_ok tg v" "ba_queue ba (bs @ any_enc tg v @ cs) (length bs)" for v ba bs cs
    using that ReadAs_holds [of tg "fst v" "snd v"] by (cases v) simp
qed

section \<open>Longer varints\<close>

lemma short_code_unat: "(v :: 'a::len word) AND NOT 0x7F = 0 \<longleftrightarrow> unat v < 2 ^ 7"
  unfolding and_not_7F_eq_0 unat_less_bits ..

lemma and_7F: "(v :: 'a::len word) AND NOT 0x7F = 0 \<Longrightarrow> v AND 0x7F = v"
  using bit.conj_disj_distrib [of v "0x7F" "NOT 0x7F"] by simp

text \<open>Every group goes to the same byte, so the most significant one survives, in front.\<close>

lemma encode_loop_top:
  "unat v < 128 ^ k \<Longrightarrow> 0 < k \<Longrightarrow>
   \<exists>j < k. encode_loop Unsigned k i v 0 buf = (i + j + 1, buf[0 := Some (ucast (drop_bit (7 * j) v))]) \<and>
     drop_bit (7 * j) v AND NOT 0x7F = 0 \<and> (v AND NOT 0x7F \<noteq> 0 \<longrightarrow> 0 < j)"
proof (induction k arbitrary: i v buf)
  case 0
  then show ?case by simp
next
  case (Suc k)
  show ?case
  proof (cases "v AND NOT 0x7F = 0")
    case True
    then show ?thesis by (intro exI [of _ 0]) (simp add: and_7F)
  next
    case False
    let ?v = "drop_bit 7 v" and ?buf = "buf[0 := Some (ucast (v AND 0x7F OR 0x80))]"
    have big: "128 \<le> unat v" using False short_code_unat [of v] by simp
    have u: "unat ?v = unat v div 128" using unat_drop_bit_eq [of 7 v] by (simp only: drop_bit_eq_div) simp
    have "0 < k" using big Suc.prems(1) by (cases k) auto
    moreover have "unat ?v < 128 ^ k" using Suc.prems(1) u by (simp add: less_mult_imp_div_less mult.commute)
    ultimately obtain j where j: "j < k"
        "encode_loop Unsigned k (i + 1) ?v 0 ?buf = (i + 1 + j + 1, ?buf[0 := Some (ucast (drop_bit (7 * j) ?v))])"
        "drop_bit (7 * j) ?v AND NOT 0x7F = 0"
      using Suc.IH [of ?v "i + 1" ?buf] by blast
    have "drop_bit (7 * j) ?v = drop_bit (7 * Suc j) v" by (simp add: add.commute)
    then show ?thesis
      using j False by (intro exI [of _ "Suc j"]) (simp add: c_shr_def)
  qed
qed

lemma write_varint_long:
  assumes c: "c = EncodeZigZag Unsigned v" "c AND NOT 0x7F \<noteq> 0"
    and sz: "max_sz (v :: 'a::len word) = k" "k \<le> 10" "LENGTH('a) \<le> 7 * k"
    and le: "sylar_order tg = SYLAR_LITTLE_ENDIAN"
  shows "\<exists>j w. 0 < j \<and> j < k \<and> w = drop_bit (7 * j) c \<and> w AND NOT 0x7F = 0 \<and>
    write_varint tg Unsigned ba v = Write ba (Some (ucast w) # replicate j None)"
proof -
  have "unat c < 2 ^ LENGTH('a)" by (rule unsigned_less)
  also have "(2::nat) ^ LENGTH('a) \<le> 2 ^ (7 * k)" using sz(3) by (rule power_increasing) simp
  also have "\<dots> = 128 ^ k" by (simp add: power_mult)
  finally have "unat c < 128 ^ k" .
  moreover have "0 < k" using sz(3) by (cases k) auto
  ultimately obtain j where j: "j < k" "0 < j" "drop_bit (7 * j) c AND NOT 0x7F = 0"
      "encode_loop Unsigned k 0 c 0 (replicate 10 None) =
        (j + 1, (replicate 10 None)[0 := Some (ucast (drop_bit (7 * j) c))])"
    using encode_loop_top [of c k 0 "replicate 10 None"] c(2) by auto
  have r: "(replicate 10 None)[0 := x] = x # replicate 9 None" for x :: cell by (simp add: numeral_eq_Suc)
  have "take (j + 1) ((replicate 10 None)[0 := Some (ucast (drop_bit (7 * j) c) :: u8)]) =
      Some (ucast (drop_bit (7 * j) c)) # replicate j None"
    unfolding r using j(1) sz(2) by simp
  moreover have "max_sz c = k" using sz(1) by (simp add: max_sz_def)
  ultimately have "write_varint tg Unsigned ba v =
      Write ba (Some (ucast (drop_bit (7 * j) c)) # replicate j None)"
    using j(4) le c(1) by (simp add: write_varint_def SwapToLittle_def EncodeVarint_def)
  with j show ?thesis by blast
qed

lemma DecodeZigZag_cases: "DecodeZigZag w = (if bit w 0 then NOT (drop_bit 1 w) else drop_bit 1 w)"
  by (simp add: DecodeZigZag_def uminus_and_1)

lemma DecodeZigZag_small:
  assumes "(w :: u64) AND NOT 0x7F = 0"
  shows "unat (DecodeZigZag w) < 64 \<or> 2 ^ 63 \<le> unat (DecodeZigZag w)"
proof (cases "bit w 0")
  case True
  have "\<not> bit (drop_bit 1 w) 63" using bit_imp_le_length [of w 64] by (auto simp: bit_drop_bit_eq)
  then have "bit (DecodeZigZag w) 63" using True by (simp add: DecodeZigZag_cases bit_not_iff)
  then show ?thesis using unat_less_bits [of "DecodeZigZag w" 63] by (meson le_refl not_less)
next
  case False
  then have "unat (DecodeZigZag w) = unat w div 2"
    using unat_drop_bit_eq [of 1 w] by (simp add: DecodeZigZag_cases drop_bit_Suc)
  moreover have "unat w < 128" using assms short_code_unat [of w] by simp
  then have "unat w div 2 < 64" by presburger
  ultimately show ?thesis by simp
qed

lemma long_length_code:
  assumes "64 \<le> n" "n < 2 ^ 63"
  shows "EncodeZigZag Unsigned (of_nat n :: u64) AND NOT 0x7F \<noteq> 0"
proof -
  have u: "unat (of_nat n :: u64) = n" using assms(2) by (simp add: unat_of_nat)
  then obtain i where i: "6 \<le> i" "bit (of_nat n :: u64) i"
    using assms(1) unat_less_bits [of "of_nat n :: u64" 6] by auto
  moreover have "i < 63"
  proof (rule ccontr)
    assume "\<not> i < 63"
    moreover have "unat (of_nat n :: u64) < 2 ^ 63" using u assms(2) by simp
    ultimately show False using i(2) unat_less_bits [of "of_nat n :: u64" 63] by simp
  qed
  ultimately have "bit (EncodeZigZag Unsigned (of_nat n :: u64)) (Suc i)"
    using bit_EncodeZigZag_Unsigned [of "Suc i" "of_nat n :: u64"] by simp
  with i(1) show ?thesis unfolding and_not_7F_eq_0 by (metis Suc_leI le_imp_less_Suc eval_nat_numeral(3))
qed

lemma Read_length:
  assumes "ba_queue ba bs pos" "Read ba n = Inr (out, ba')"
  shows "length out = n"
proof -
  from assms(1) obtain pre p post where rep: "ba_rep ba pre p post" and rd: "reader_at ba (pre @ p # post)"
    unfolding ba_queue_def by blast
  have "length (node_bytes ba (pre @ p # post)) = base_size ba * length (pre @ p # post)"
    by (rule length_node_bytes [OF rep]) simp
  with Read_rep [OF rep rd, of n] assms(2) show ?thesis
    by (auto simp del: length_append split: if_splits)
qed

lemma encode_loop_negative:
  "bit v (LENGTH('a) - 1) \<Longrightarrow> 8 \<le> LENGTH('a) \<Longrightarrow>
   fst (encode_loop Signed k i (v :: 'a::len word) bytes buf) = bytes"
proof (induction k arbitrary: i v buf)
  case 0
  then show ?case by simp
next
  case (Suc k)
  have "v AND NOT 0x7F \<noteq> 0" using Suc.prems and_not_7F_eq_0 [of v] by fastforce
  moreover have "bit (c_shr Signed 7 v) (LENGTH('a) - 1)"
    using Suc.prems by (auto simp: c_shr_def bit_signed_drop_bit_iff)
  ultimately show ?case using Suc.IH Suc.prems(2) by simp
qed

section \<open>Properties of the codecs\<close>

text \<open>
  C2: any sequence of values of the supported types written through \<^verbatim>\<open>WriteAny\<close> into a new byte
  array is read back, in order, by the readers of the same types, provided each value is
  encodable: any fixed-width value (16 bits or more when the order is big), varints of
  -64 to 63 (signed) or below 64 (unsigned), strings of fewer than 64 bytes.
\<close>

theorem WriteAny_round_trip:
  assumes "\<forall>v \<in> set vs. any_ok tg v"
  shows "\<exists>ba1 ba2. put_all (\<lambda>ba (v, f). WriteAny tg ba v f) vs (ByteArray n) = Inr ba1 \<and>
    get_all (ReadAs tg) vs ba1 = Inr (vs, ba2)"
  using any.round_trip [of vs tg "ByteArray n" "[]"] assms ba_queue_ByteArray [of n]
  by (auto simp: drained_def)

theorem WriteAny_round_trip_witness:
  "\<exists>ba1 ba2. put_all (\<lambda>ba (v, f). WriteAny \<lparr>host_order = SYLAR_LITTLE_ENDIAN, sylar_order = SYLAR_LITTLE_ENDIAN\<rparr> ba v f)
       [(Uint32 70000, True), (Int16 (-5), False), (String [72, 105], False)] (ByteArray 0) = Inr ba1 \<and>
     get_all (ReadAs \<lparr>host_order = SYLAR_LITTLE_ENDIAN, sylar_order = SYLAR_LITTLE_ENDIAN\<rparr>)
       [(Uint32 70000, True), (Int16 (-5), False), (String [72, 105], False)] ba1 =
     Inr ([(Uint32 70000, True), (Int16 (-5), False), (String [72, 105], False)], ba2)"
  by (rule WriteAny_round_trip) (simp add: short_varint_def)

text \<open>
  C23: ZigZag decoding inverts the encoding of the signed types at every width; for the
  unsigned types it does so exactly on values with a clear top bit, all others come back with their
  lower bits inverted.
\<close>

theorem ZigZag_round_trip:
  "DecodeZigZag (EncodeZigZag Signed (v :: 'a::len word)) = v \<and>
   DecodeZigZag (EncodeZigZag Unsigned v) =
     (if bit v (LENGTH('a) - 1) then v XOR mask (LENGTH('a) - 1) else v)"
  using DecodeZigZag_Signed DecodeZigZag_Unsigned by blast

text \<open>
  A string of 64 bytes or more does not survive: its length is written as one byte with
  the top group of the varint, followed by indeterminate bytes, and what
  is read back, if the read does not fail, is a string of fewer than 64 bytes.
\<close>

theorem String_long_lost:
  assumes len: "64 \<le> length val" "length val < 2 ^ 63" and le: "sylar_order tg = SYLAR_LITTLE_ENDIAN"
    and q: "ba_queue ba bs (length bs)" "\<not> drained (base_size ba) bs (length bs)"
  shows "\<exists>ba1. WriteStringWithoutLength tg ba val = Inr ba1 \<and>
    (\<forall>s ba2. ReadStringWithoutLength tg ba1 = Inr (s, ba2) \<longrightarrow> length s < 64)"
proof -
  let ?n = "of_nat (length val) :: u64"
  have "max_sz ?n = 10" by (simp add: max_sz_def)
  then obtain j w where w: "(w :: u64) AND NOT 0x7F = 0"
      "write_varint tg Unsigned ba ?n = Write ba (Some (ucast w) # replicate j None)"
    using write_varint_long [OF refl long_length_code [OF len], of 10 tg ba] le by force
  let ?hd = "Some (ucast w) # replicate j None"
  obtain ba0 where ba0: "Write ba ?hd = Inr ba0" "ba_queue ba0 (bs @ ?hd) (length bs)"
    using ba.wr_holds [OF q] by blast
  have "\<not> drained (base_size ba0) (bs @ ?hd) (length bs)" by (simp add: drained_def)
  from ba.wr_holds [OF ba0(2) this] obtain ba1 where
    ba1: "Write ba0 (map Some val) = Inr ba1" "ba_queue ba1 ((bs @ ?hd) @ map Some val) (length bs)"
    by blast
  from ba1(2) have "ba_queue ba1 (bs @ Some (ucast w) # replicate j None @ map Some val) (length bs)"
    by simp
  from read_varint_byte [OF this low_byte(1) [OF w(1)] le, where 'a = 64] obtain ba2 bs' pos' where
    ba2: "read_varint tg ba1 = Inr (DecodeZigZag w, ba2)" "ba_queue ba2 bs' pos'"
    unfolding low_byte(2) [OF w(1)] res_bind_simps by blast
  have "length s < 64" if "ReadStringWithoutLength tg ba1 = Inr (s, ba3)" for s ba3
    using that ba2 DecodeZigZag_small [OF w(1)] Read_length [OF ba2(2)]
    by (auto simp: ReadStringWithoutLength_def ReadVint64_def split: if_splits)
  with w(2) ba0(1) ba1(1) show ?thesis
    by (auto simp: WriteStringWithoutLength_def WriteVuint64_def)
qed

theorem String_long_lost_witness:
  "\<exists>ba1. WriteStringWithoutLength \<lparr>host_order = SYLAR_LITTLE_ENDIAN, sylar_order = SYLAR_LITTLE_ENDIAN\<rparr>
      (ByteArray 0) (replicate 64 65) = Inr ba1 \<and>
    (\<forall>s ba2. ReadStringWithoutLength \<lparr>host_order = SYLAR_LITTLE_ENDIAN, sylar_order = SYLAR_LITTLE_ENDIAN\<rparr> ba1 =
      Inr (s, ba2) \<longrightarrow> s \<noteq> map Some (replicate 64 65))"
proof -
  let ?tg = "\<lparr>host_order = SYLAR_LITTLE_ENDIAN, sylar_order = SYLAR_LITTLE_ENDIAN\<rparr>"
  obtain ba1 where "WriteStringWithoutLength ?tg (ByteArray 0) (replicate 64 65) = Inr ba1"
      "\<forall>s ba2. ReadStringWithoutLength ?tg ba1 = Inr (s, ba2) \<longrightarrow> length s < 64"
    using String_long_lost [of "replicate 64 65" ?tg "ByteArray 0" "[]"] ba_queue_ByteArray [of 0]
    by (auto simp: drained_def)
  then show ?thesis by (metis length_map length_replicate less_irrefl)
qed

text \<open>
  A signed varint outside the middle half of its type's range (its two top bits differ) is not
  written at all: the encoder runs out of rounds before it sets the length, and
  the array is unchanged.
\<close>

theorem signed_varint_dropped:
  assumes "bit v (LENGTH('a::len) - 2) \<noteq> bit v (LENGTH('a) - 1)" "0 < max_sz (v :: 'a word)"
    and "sylar_order tg = SYLAR_LITTLE_ENDIAN"
  shows "write_varint tg Signed ba v = Inr ba"
proof -
  have len: "8 \<le> LENGTH('a)" using assms(2) by (auto simp: max_sz_def split: if_splits)
  have "bit (EncodeZigZag Signed v) (LENGTH('a) - 1)"
  proof -
    have "LENGTH('a) - 1 < LENGTH('a)" "0 < LENGTH('a) - 1" "LENGTH('a) - 1 - 1 = LENGTH('a) - 2"
      using len by simp_all
    with assms(1) bit_EncodeZigZag_Signed [of "LENGTH('a) - 1" v] show ?thesis by metis
  qed
  from encode_loop_negative [OF this len] obtain buf where
    "EncodeVarint Signed (EncodeZigZag Signed v) 0 (replicate 10 None) = (0, buf)"
    unfolding EncodeVarint_def by (metis fst_conv surj_pair)
  with assms(3) show ?thesis by (simp add: write_varint_def SwapToLittle_def)
qed

theorem signed_varint_dropped_witness:
  "write_varint \<lparr>host_order = SYLAR_LITTLE_ENDIAN, sylar_order = SYLAR_LITTLE_ENDIAN\<rparr> Signed (ByteArray 0) (64 :: u8) =
   Inr (ByteArray 0)"
  by (rule signed_varint_dropped) (simp_all add: max_sz_def bit_numeral_rec)

text \<open>
  On a little-endian host the fixed-width formats are little-endian exactly when the macros
  \<^verbatim>\<open>BYTE_ORDER\<close> and \<^verbatim>\<open>BIG_ENDIAN\<close> are equal or both undefined; defined as that host defines them,
  the \<^verbatim>\<open>SwapToLittle\<close> that precedes the write makes the wire format big-endian.
\<close>

theorem fixed_wire_order:
  "let tg = \<lparr>host_order = SYLAR_LITTLE_ENDIAN, sylar_order = SYLAR_BYTE_ORDER bo be\<rparr> in
   WriteFuint16 tg ba v16 = Write ba (map Some (if bo = be then word_bytes v16 else rev (word_bytes v16))) \<and>
   WriteFuint32 tg ba v32 = Write ba (map Some (if bo = be then word_bytes v32 else rev (word_bytes v32))) \<and>
   WriteFuint64 tg ba v64 = Write ba (map Some (if bo = be then word_bytes v64 else rev (word_bytes v64)))"
  by (simp add: codec_defs write_value_def object_bytes_def SwapToLittle_def SYLAR_BYTE_ORDER_def
      word_bytes_ByteSwap swappable_def)

end
