(* ===== verification/Byte_Memory.thy ===== *)
theory Byte_Memory
  imports Byte_Queue
begin

text \<open>
  The byte array when memory runs out. The constructor of a node throws \<^verbatim>\<open>bad_alloc\<close> when \<^verbatim>\<open>malloc\<close>
  returns null; here the answers of \<^verbatim>\<open>malloc\<close> are an argument, and the operations that allocate
  return the state in which an exception leaves the array. With enough memory they are the
  operations of \<open>Byte_Array\<close>.
\<close>

section \<open>Operations that may throw\<close>

text \<open>The answers of \<^verbatim>\<open>malloc\<close> in order; past the end of the list there is no memory.\<close>

type_synonym grants = "bool list"

datatype outcome = Returned | BadAlloc | Failed ba_error

definition new_node :: "grants \<Rightarrow> nat \<Rightarrow> (node \<times> grants) option" where
  "new_node gs sz = (case gs of True # gs' \<Rightarrow> Some (Node sz, gs') | _ \<Rightarrow> None)"

text \<open>The loop of \<^verbatim>\<open>ExtendCapacity\<close>: a node is linked and counted as soon as it is allocated.\<close>

fun extend_try :: "grants \<Rightarrow> nat \<Rightarrow> addr \<Rightarrow> bytearray \<Rightarrow> bool \<times> grants \<times> bytearray" where
  "extend_try gs 0 tmp ba = (True, gs, ba)"
| "extend_try gs (Suc n) tmp ba =
     (case new_node gs (base_size ba) of
        None \<Rightarrow> (False, gs, ba)
      | Some (nd, gs') \<Rightarrow>
          (let a = length (heap ba);
               h = heap ba @ [nd]
           in extend_try gs' n a
                (ba\<lparr>heap := h[tmp := (h ! tmp)\<lparr>next_ptr := Some a\<rparr>], capacity := capacity ba + base_size ba\<rparr>)))"

definition WriteMem :: "grants \<Rightarrow> bytearray \<Rightarrow> cell list \<Rightarrow> outcome \<times> bytearray" where
  "WriteMem gs ba buf =
     (case write_ptr ba of
        None \<Rightarrow> (Returned, ba)
      | Some p \<Rightarrow>
          if buf = [] then (Returned, ba)
          else case (if rest_size (heap ba ! p) < length buf
                     then extend_try gs (RoundUp (length buf) (base_size ba)) p ba else (True, gs, ba)) of
                 (False, _, ba1) \<Rightarrow> (BadAlloc, ba1)
               | (True, _, ba1) \<Rightarrow> (case write_loop ba1 buf of None \<Rightarrow> (Failed Hang, ba1) | Some ba2 \<Rightarrow> (Returned, ba2)))"

text \<open>The new node is there before the old list is dropped.\<close>

definition ClearMem :: "grants \<Rightarrow> bytearray \<Rightarrow> outcome \<times> grants \<times> bytearray" where
  "ClearMem gs ba =
     (case new_node gs (base_size ba) of
        None \<Rightarrow> (BadAlloc, gs, ba)
      | Some (nd, gs') \<Rightarrow>
          (let a = length (heap ba) in
           (Returned, gs', ba\<lparr>heap := heap ba @ [nd], root_ptr := a, read_ptr := Some a, write_ptr := Some a, read_pos := 0\<rparr>)))"

definition SetAllBitsMem :: "grants \<Rightarrow> bytearray \<Rightarrow> cell list \<Rightarrow> outcome \<times> bytearray" where
  "SetAllBitsMem gs ba iov =
     (case ClearMem gs ba of
        (Returned, gs', ba1) \<Rightarrow> WriteMem gs' ba1 iov
      | (r, _, ba1) \<Rightarrow> (r, ba1))"

definition ByteArrayMem :: "grants \<Rightarrow> nat \<Rightarrow> bytearray option" where
  "ByteArrayMem gs baseSize =
     (let b = (if baseSize < NODE_SIZE then NODE_SIZE else baseSize) in
      map_option (\<lambda>(nd, _). \<lparr>base_size = b, read_pos = 0, capacity = b, root_ptr = 0,
        write_ptr = Some 0, read_ptr = Some 0, heap = [nd]\<rparr>) (new_node gs b))"

section \<open>Laws\<close>

text \<open>How many allocations succeed before the first that fails.\<close>

fun granted :: "grants \<Rightarrow> nat" where
  "granted [] = 0"
| "granted (g # gs) = (if g then Suc (granted gs) else 0)"

lemma new_node_granted: "new_node gs sz = (if granted gs = 0 then None else Some (Node sz, tl gs))"
  by (cases gs) (auto simp: new_node_def split: bool.split)

lemma extend_try_loop:
  "\<exists>gs'. extend_try gs n tmp ba = (n \<le> granted gs, gs', extend_loop (min n (granted gs)) tmp ba)"
proof (induction n arbitrary: gs tmp ba)
  case (Suc n)
  show ?case
  proof (cases "granted gs = 0")
    case True
    then show ?thesis by (simp add: new_node_granted)
  next
    case False
    then obtain gs' where "gs = True # gs'" by (cases gs) (auto split: if_splits)
    with Suc [of gs'] show ?thesis by (simp add: new_node_granted Let_def)
  qed
qed simp

lemma RoundUp_mult:
  assumes "0 < b"
  shows "RoundUp (k * b) b = k"
proof -
  have "b * k \<le> b * RoundUp (k * b) b" "b * RoundUp (k * b) b < b * Suc k"
    using RoundUp_bounds [OF assms, of "k * b"] by (simp_all add: mult.commute)
  with assms have "k \<le> RoundUp (k * b) b" "RoundUp (k * b) b < Suc k" by (simp_all only: mult_le_cancel1 mult_less_cancel1)
  then show ?thesis by simp
qed

lemma ByteArrayMem_ok: "ByteArrayMem gs n = (if granted gs = 0 then None else Some (ByteArray n))"
  by (simp add: ByteArrayMem_def ByteArray_def new_node_granted Let_def)

lemma ClearMem_ok: "ClearMem gs ba = (if granted gs = 0 then (BadAlloc, gs, ba) else (Returned, tl gs, Clear ba))"
  by (simp add: ClearMem_def Clear_def new_node_granted Let_def)

text \<open>Nodes linked behind the write node do not change the queue.\<close>

lemma extend_loop_queue:
  assumes q: "ba_queue ba bs pos" and ndr: "\<not> drained (base_size ba) bs pos" and p: "write_ptr ba = Some p"
  shows "ba_queue (extend_loop k p ba) bs pos"
proof (cases "k = 0")
  case True
  with q show ?thesis by simp
next
  case False
  from q obtain pre p' post where rep: "ba_rep ba pre p' post" and bs: "stored ba pre p' = bs"
    and pos: "read_pos ba = pos" "pos \<le> length bs" and rd: "reader_at ba (pre @ p' # post)"
    and ne: "pre \<noteq> [] \<longrightarrow> rest_size (heap ba ! p') < base_size ba"
    unfolding ba_queue_def by blast
  have p': "p' = p" using ba_repD(4) [OF rep] p by simp
  note k = RoundUp_mult [OF ba_repD(1) [OF rep], of k]
  have ext: "ExtendCapacity ba (k * base_size ba) = Inr (extend_loop k p ba)" by (simp add: ExtendCapacity_def p k)
  let ?ba = "extend_loop k p ba"
  obtain post' where e: "ba_rep ?ba pre p post'" "stored ?ba pre p = stored ba pre p" "same_frame ba ?ba"
      "heap ?ba ! p = (heap ba ! p)\<lparr>next_ptr := next_ptr (heap ?ba ! p)\<rparr>"
    using ExtendCapacity_correct [OF rep, of "k * base_size ba"] ext p' by auto
  have "pos div base_size ba \<le> length pre" using reader_not_past [OF rep] pos ndr bs by simp
  then have "reader_at ?ba (pre @ p # post')"
    using rd pos e(3) p' nth_ptr_common [of "pos div base_size ba" pre p post post'] by (auto simp: reader_at_def same_frame_def)
  moreover have "rest_size (heap ?ba ! p) = rest_size (heap ba ! p)" by (subst e(4)) simp
  ultimately show ?thesis
    using e bs pos ne p' by (intro ba_queueI [OF e(1)]) (auto simp: same_frame_def)
qed

section \<open>Properties\<close>

text \<open>
  C37: Running out of memory is harmless to a write: when the allocations do not all succeed, \<^verbatim>\<open>Write\<close>
  throws and the array still holds exactly the bytes it held, with the same read position; otherwise the
  bytes are appended as with unlimited memory. It throws exactly when the bytes do not fit the current
  node and fewer nodes can be allocated than it asks for.
\<close>

theorem Write_out_of_memory:
  assumes "ba_queue ba bs pos" and "\<not> drained (base_size ba) bs pos"
  shows "\<exists>r ba'. WriteMem gs ba buf = (r, ba') \<and>
    (case r of
       Returned \<Rightarrow> Write ba buf = Inr ba' \<and> ba_queue ba' (bs @ buf) pos
     | BadAlloc \<Rightarrow> ba_queue ba' bs pos
     | Failed _ \<Rightarrow> False) \<and>
    (r = BadAlloc \<longleftrightarrow> rest_size (heap ba ! the (write_ptr ba)) < length buf \<and> granted gs < RoundUp (length buf) (base_size ba))"
proof -
  obtain p where p: "write_ptr ba = Some p" using assms(1) unfolding ba_queue_def by (blast dest: ba_repD(4))
  obtain ba2 where w: "Write ba buf = Inr ba2" "ba_queue ba2 (bs @ buf) pos" using Write_queue [OF assms] by blast
  let ?n = "RoundUp (length buf) (base_size ba)"
  obtain gs' where ext: "extend_try gs ?n p ba = (?n \<le> granted gs, gs', extend_loop (min ?n (granted gs)) p ba)"
    using extend_try_loop by blast
  note short = extend_loop_queue [OF assms p, of "granted gs"]
  show ?thesis
  proof (cases "rest_size (heap ba ! p) < length buf \<and> granted gs < ?n")
    case True
    then have "WriteMem gs ba buf = (BadAlloc, extend_loop (granted gs) p ba)" using ext p by (auto simp: WriteMem_def)
    with True short p show ?thesis by simp
  next
    case False
    then have "WriteMem gs ba buf = (Returned, ba2)"
      using w(1) ext p by (auto simp: WriteMem_def Write_def ExtendCapacity_def Let_def split: option.splits if_splits)
    with False w p show ?thesis by auto
  qed
qed

theorem Write_out_of_memory_witness:
  "\<exists>ba'. WriteMem [True] (ByteArray 128) (replicate 300 (Some 1)) = (BadAlloc, ba') \<and> ba_queue ba' [] 0"
proof -
  have "RoundUp 300 128 = 3" "base_size (ByteArray 128) = 128" "write_ptr (ByteArray 128) = Some 0" "rest_size (heap (ByteArray 128) ! 0) = 128"
    by (simp_all add: RoundUp_def ByteArray_def NODE_SIZE_def Node_def)
  with Write_out_of_memory [OF ba_queue_ByteArray [of 128], of "[True]" "replicate 300 (Some 1)"]
  show ?thesis by (auto simp: drained_def)
qed

text \<open>
  \<^verbatim>\<open>SetAllBits\<close> is not as careful: with memory for the new first node but not for the rest it throws after the old
  contents are gone.
\<close>

lemma SetAllBits_out_of_memory:
  assumes "0 < base_size ba" and "base_size ba < length iov"
  shows "\<exists>ba'. SetAllBitsMem [True] ba iov = (BadAlloc, ba') \<and> root_ptr ba' = length (heap ba) \<and> BitsStream ba' = Some []"
proof -
  have n: "0 < RoundUp (length iov) (base_size ba)"
    using RoundUp_bounds(1) [OF assms(1), of "length iov"] assms(2) by (cases "RoundUp (length iov) (base_size ba)") auto
  then have "extend_try [] (RoundUp (length iov) (base_size ba)) (length (heap ba)) (Clear ba) = (False, [], Clear ba)"
    by (cases "RoundUp (length iov) (base_size ba)") (simp_all add: new_node_def)
  then have "SetAllBitsMem [True] ba iov = (BadAlloc, Clear ba)"
    using assms(2) by (auto simp: SetAllBitsMem_def ClearMem_ok WriteMem_def Clear_def Let_def Node_def)
  moreover have "BitsStream (Clear ba) = Some []"
    by (simp add: BitsStream_def Clear_def Let_def bits_loop.simps Node_def)
  ultimately show ?thesis by (simp add: Clear_def Let_def)
qed

end
