(* ===== verification/Time_Wheel.thy ===== *)
theory Time_Wheel
  imports Sylar_Prelude
begin

text \<open>
  The timer wheel of \<^verbatim>\<open>src/src/timewheel.cc\<close>. A wheel is a vector of \<open>slots\<close> lists of timeout
  items. What an expired item runs is outside this component: the parameter \<open>run\<close> maps
  the task and an environment to the timers the task adds, in order, and the new environment.
  Tasks act on the wheel through \<^verbatim>\<open>AddTimer\<close> only. Sizes and times are naturals with
  the wrap-around of \<^verbatim>\<open>uint64_t\<close> written out, the \<^verbatim>\<open>int\<close> fields are integers with the conversion
  to 32 bits written out. \<open>None\<close> is a division by zero, or a loop that does not end.
\<close>

section \<open>State\<close>

text \<open>What an item runs: its callback, or a coroutine it resumes.\<close>

datatype 'k task = Func 'k | Resume nat

record 'k timeout_item =
  remaining_ticks :: int
  repeat_interval :: int
  register_time :: nat
  repeat_count :: int
  func :: 'k
  perform_co :: "nat option"

record 'k time_wheel =
  wheel :: "'k timeout_item list list"
  slots :: nat
  granularity :: nat
  last_trigger :: nat
  current_slot :: nat

text \<open>The arguments of a call of \<^verbatim>\<open>AddTimer\<close>, with the clock reading it registers.\<close>

record 'k request =
  req_timeout :: nat
  req_func :: 'k
  req_co :: "nat option"
  req_times :: int
  req_clock :: nat

text \<open>Conversions of an unsigned 64-bit value to \<^verbatim>\<open>int\<close> and of an \<^verbatim>\<open>int\<close> to unsigned 64 bits.\<close>

definition to_int32 :: "nat \<Rightarrow> int" where
  "to_int32 n = (int n + 2 ^ 31) mod 2 ^ 32 - 2 ^ 31"

definition to_uint64 :: "int \<Rightarrow> nat" where
  "to_uint64 i = nat (i mod 2 ^ 64)"

section \<open>Operations\<close>

definition TimeWheel :: "nat \<Rightarrow> nat \<Rightarrow> nat \<Rightarrow> 'k time_wheel" where
  "TimeWheel n gran clock =
     \<lparr>wheel = replicate n [], slots = n, granularity = gran, last_trigger = clock, current_slot = 0\<rparr>"

definition AddTimer :: "'k request \<Rightarrow> 'k time_wheel \<Rightarrow> 'k time_wheel option" where
  "AddTimer r tw =
     (if granularity tw = 0 \<or> slots tw = 0 then None
      else let ticks = req_timeout r div granularity tw;
               item = \<lparr>remaining_ticks = to_int32 (ticks div slots tw),
                       repeat_interval = to_int32 (req_timeout r),
                       register_time = req_clock r, repeat_count = req_times r,
                       func = req_func r, perform_co = req_co r\<rparr>;
               slot = (current_slot tw + ticks) mod 2 ^ 64 mod slots tw
           in Some (tw\<lparr>wheel := (wheel tw)[slot := wheel tw ! slot @ [item]]\<rparr>))"

fun add_timers :: "'k request list \<Rightarrow> 'k time_wheel \<Rightarrow> 'k time_wheel option" where
  "add_timers [] tw = Some tw"
| "add_timers (r # rs) tw = Option.bind (AddTimer r tw) (add_timers rs)"

text \<open>Changes of the list of a slot: store an item in place, erase one, move one to another list's end.\<close>

definition put_item :: "nat \<Rightarrow> nat \<Rightarrow> 'k timeout_item \<Rightarrow> 'k time_wheel \<Rightarrow> 'k time_wheel" where
  "put_item s i it tw = tw\<lparr>wheel := (wheel tw)[s := (wheel tw ! s)[i := it]]\<rparr>"

definition erase_item :: "nat \<Rightarrow> nat \<Rightarrow> 'k time_wheel \<Rightarrow> 'k time_wheel" where
  "erase_item s i tw =
     tw\<lparr>wheel := (wheel tw)[s := take i (wheel tw ! s) @ drop (Suc i) (wheel tw ! s)]\<rparr>"

definition splice_item :: "nat \<Rightarrow> nat \<Rightarrow> nat \<Rightarrow> 'k timeout_item \<Rightarrow> 'k time_wheel \<Rightarrow> 'k time_wheel" where
  "splice_item s i t it tw =
     (let tw' = erase_item s i tw in tw'\<lparr>wheel := (wheel tw')[t := wheel tw' ! t @ [it]]\<rparr>)"

definition task_of :: "'k timeout_item \<Rightarrow> 'k task" where
  "task_of it = (case perform_co it of None \<Rightarrow> Func (func it) | Some co \<Rightarrow> Resume co)"

text \<open>
  The inner loop of \<^verbatim>\<open>ExecuteTimeout\<close> over the list of slot \<open>s\<close>, with the iterator at
  position \<open>i\<close>; \<open>current_slot\<close> has been advanced already.
\<close>

partial_function (option) visit_loop ::
  "('k task \<Rightarrow> 'e \<Rightarrow> 'k request list \<times> 'e) \<Rightarrow> nat \<Rightarrow> nat \<Rightarrow> 'k time_wheel \<Rightarrow> 'e \<Rightarrow>
   ('k time_wheel \<times> 'e) option" where
  "visit_loop run s i tw e =
     (if length (wheel tw ! s) \<le> i then Some (tw, e)
      else let old = wheel tw ! s ! i;
               item = old\<lparr>remaining_ticks := remaining_ticks old - 1\<rparr>;
               tw1 = put_item s i item tw
           in if remaining_ticks item < 0 then
                (let (reqs, e1) = run (task_of item) e in
                 Option.bind (add_timers reqs tw1) (\<lambda>tw2.
                   let cnt = (if repeat_count item > 0 then repeat_count item - 1 else repeat_count item) in
                   if cnt = 0 then visit_loop run s i (erase_item s i tw2) e1
                   else let ticks = to_int32 (to_uint64 (repeat_interval item) div granularity tw2 div slots tw2);
                            item2 = item\<lparr>repeat_count := cnt, remaining_ticks := ticks\<rparr>;
                            new_slot = (current_slot tw2 + to_uint64 ticks) mod 2 ^ 64 mod slots tw2
                        in if new_slot \<noteq> current_slot tw2
                           then visit_loop run s 0 (splice_item s i new_slot item2 tw2) e1
                           else visit_loop run s (Suc i) (put_item s i item2 tw2) e1))
              else visit_loop run s (Suc i) tw1 e)"

text \<open>The outer loop: \<open>n\<close> more ticks.\<close>

fun tick_loop ::
  "('k task \<Rightarrow> 'e \<Rightarrow> 'k request list \<times> 'e) \<Rightarrow> nat \<Rightarrow> 'k time_wheel \<Rightarrow> 'e \<Rightarrow>
   ('k time_wheel \<times> 'e) option" where
  "tick_loop run 0 tw e = Some (tw, e)"
| "tick_loop run (Suc n) tw e =
     (if slots tw = 0 then None
      else Option.bind
             (visit_loop run (current_slot tw) 0
               (tw\<lparr>current_slot := (current_slot tw + 1) mod slots tw\<rparr>) e)
             (\<lambda>(tw', e'). tick_loop run n tw' e'))"

definition ExecuteTimeout ::
  "('k task \<Rightarrow> 'e \<Rightarrow> 'k request list \<times> 'e) \<Rightarrow> nat \<Rightarrow> 'k time_wheel \<Rightarrow> 'e \<Rightarrow>
   ('k time_wheel \<times> 'e) option" where
  "ExecuteTimeout run now tw e =
     (if now \<le> last_trigger tw then Some (tw, e)
      else if granularity tw = 0 then None
      else map_option (\<lambda>(tw', e'). (tw'\<lparr>last_trigger := now\<rparr>, e'))
             (tick_loop run ((now - last_trigger tw) div granularity tw) tw e))"

definition SetGranularity :: "nat \<Rightarrow> 'k time_wheel \<Rightarrow> 'k time_wheel" where
  "SetGranularity gran tw = tw\<lparr>granularity := gran\<rparr>"

definition GetGranularity :: "'k time_wheel \<Rightarrow> nat" where
  "GetGranularity tw = granularity tw"

definition INT64_MAX :: nat where
  "INT64_MAX = 2 ^ 63 - 1"

text \<open>\<^verbatim>\<open>GetNextTimeout\<close>: the time left of the first item of each list, modulo \<open>2 ^ 64\<close>.\<close>

definition trigger :: "nat \<Rightarrow> 'k timeout_item \<Rightarrow> nat" where
  "trigger now it =
     nat ((int (to_uint64 (repeat_interval it)) - (int now - int (register_time it))) mod 2 ^ 64)"

definition GetNextTimeout :: "nat \<Rightarrow> 'k time_wheel \<Rightarrow> nat" where
  "GetNextTimeout now tw =
     (if now < last_trigger tw then 0
      else let dis = foldl (\<lambda>dis i. case wheel tw ! ((current_slot tw + i) mod slots tw) of
                               [] \<Rightarrow> dis | it # _ \<Rightarrow> min dis (trigger now it))
                       INT64_MAX [0..<length (wheel tw)]
           in if dis = INT64_MAX then 0 else dis)"

text \<open>\<^verbatim>\<open>Dump\<close>: the remaining ticks and the repeat count of every item, slot by slot.\<close>

definition DumpWheel :: "'k time_wheel \<Rightarrow> (nat \<times> (int \<times> int) list) list" where
  "DumpWheel tw = map (\<lambda>i. (i, map (\<lambda>it. (remaining_ticks it, repeat_count it)) (wheel tw ! i)))
     [0..<length (wheel tw)]"

section \<open>The schedule a wheel represents\<close>

text \<open>
  \<open>due tw t\<close>: the tasks that expire \<open>t\<close> ticks after the next one, in the order of their list.
  A tick shifts this schedule by one, \<^verbatim>\<open>AddTimer\<close> appends to one of its entries.
\<close>

type_synonym 'k schedule = "nat \<Rightarrow> 'k task list"

definition due :: "'k time_wheel \<Rightarrow> 'k schedule" where
  "due tw t = map task_of
     (filter (\<lambda>it. remaining_ticks it = int (t div slots tw))
       (wheel tw ! ((current_slot tw + t) mod slots tw)))"

definition wheel_ok :: "'k time_wheel \<Rightarrow> bool" where
  "wheel_ok tw \<longleftrightarrow> 0 < slots tw \<and> slots tw < 2 ^ 31 \<and> 0 < granularity tw \<and> current_slot tw < slots tw \<and>
     length (wheel tw) = slots tw \<and>
     (\<forall>l \<in> set (wheel tw). \<forall>it \<in> set l. 0 \<le> remaining_ticks it \<and> repeat_count it = 1)"

text \<open>Requests the abstract schedule describes: one shot, and within the range of \<^verbatim>\<open>int\<close>.\<close>

definition req_ok :: "'k time_wheel \<Rightarrow> 'k request \<Rightarrow> bool" where
  "req_ok tw r \<longleftrightarrow> req_times r = 1 \<and> req_timeout r div granularity tw < 2 ^ 31"

definition req_task :: "'k request \<Rightarrow> 'k task" where
  "req_task r = (case req_co r of None \<Rightarrow> Func (req_func r) | Some co \<Rightarrow> Resume co)"

definition sched_add :: "nat \<Rightarrow> 'k request \<Rightarrow> 'k schedule \<Rightarrow> 'k schedule" where
  "sched_add gran r sch = (let n = req_timeout r div gran in sch(n := sch n @ [req_task r]))"

text \<open>The abstract tick: run what is due, in order, on the shifted schedule.\<close>

fun fire_all ::
  "('k task \<Rightarrow> 'e \<Rightarrow> 'k request list \<times> 'e) \<Rightarrow> nat \<Rightarrow> 'k task list \<Rightarrow> 'k schedule \<Rightarrow> 'e \<Rightarrow>
   'k schedule \<times> 'e" where
  "fire_all run gran [] sch e = (sch, e)"
| "fire_all run gran (t # ts) sch e =
     (let (reqs, e') = run t e in fire_all run gran ts (fold (sched_add gran) reqs sch) e')"

fun sched_ticks ::
  "('k task \<Rightarrow> 'e \<Rightarrow> 'k request list \<times> 'e) \<Rightarrow> nat \<Rightarrow> nat \<Rightarrow> 'k schedule \<Rightarrow> 'e \<Rightarrow>
   'k schedule \<times> 'e" where
  "sched_ticks run gran 0 sch e = (sch, e)"
| "sched_ticks run gran (Suc n) sch e =
     (let (sch', e') = fire_all run gran (sch 0) (\<lambda>t. sch (Suc t)) e in sched_ticks run gran n sch' e')"

end
