(* ===== verification/Timer_Laws.thy ===== *)
theory Timer_Laws
  imports Time_Wheel
begin

text \<open>
  The wheel implements the abstract schedule: \<^verbatim>\<open>AddTimer\<close> adds an entry, a tick runs what is due
  and shifts. The proofs follow the inner loop with a wheel in which the rest of the visited list
  is already processed. The last section has the properties.
\<close>

section \<open>Adding timers\<close>

definition set_list :: "nat \<Rightarrow> 'k timeout_item list \<Rightarrow> 'k time_wheel \<Rightarrow> 'k time_wheel" where
  "set_list s l tw = tw\<lparr>wheel := (wheel tw)[s := l]\<rparr>"

definition slot_of :: "'k time_wheel \<Rightarrow> 'k request \<Rightarrow> nat" where
  "slot_of tw r = (current_slot tw + req_timeout r div granularity tw) mod 2 ^ 64 mod slots tw"

definition item_of :: "'k time_wheel \<Rightarrow> 'k request \<Rightarrow> 'k timeout_item" where
  "item_of tw r = \<lparr>remaining_ticks = to_int32 (req_timeout r div granularity tw div slots tw),
     repeat_interval = to_int32 (req_timeout r), register_time = req_clock r,
     repeat_count = req_times r, func = req_func r, perform_co = req_co r\<rparr>"

text \<open>Wheels that differ in their lists only.\<close>

definition same_shape :: "'k time_wheel \<Rightarrow> 'k time_wheel \<Rightarrow> bool" where
  "same_shape tw tw' \<longleftrightarrow> slots tw' = slots tw \<and> granularity tw' = granularity tw \<and>
     current_slot tw' = current_slot tw \<and> last_trigger tw' = last_trigger tw \<and>
     length (wheel tw') = length (wheel tw)"

lemma same_shape_trans: "same_shape a b \<Longrightarrow> same_shape b c \<Longrightarrow> same_shape a c"
  by (simp add: same_shape_def)

lemma set_list_simps [simp]:
  "slots (set_list s l tw) = slots tw" "granularity (set_list s l tw) = granularity tw"
  "current_slot (set_list s l tw) = current_slot tw" "last_trigger (set_list s l tw) = last_trigger tw"
  "wheel (set_list s l tw) = (wheel tw)[s := l]"
  "set_list s l (set_list s l' tw) = set_list s l tw"
  "set_list s (wheel tw ! s) tw = tw"
  by (simp_all add: set_list_def)

lemma set_list_swap: "s \<noteq> t \<Longrightarrow> set_list s l (set_list t m tw) = set_list t m (set_list s l tw)"
  by (simp add: set_list_def list_update_swap)

lemma AddTimer_eq:
  "0 < granularity tw \<Longrightarrow> 0 < slots tw \<Longrightarrow>
   AddTimer r tw = Some (set_list (slot_of tw r) (wheel tw ! slot_of tw r @ [item_of tw r]) tw)"
  by (simp add: AddTimer_def Let_def set_list_def slot_of_def item_of_def)

lemma slot_of_less: "0 < slots tw \<Longrightarrow> slot_of tw r < slots tw"
  by (simp add: slot_of_def)

lemma to_int32_small: "n < 2 ^ 31 \<Longrightarrow> to_int32 n = int n"
  by (simp add: to_int32_def)

lemma wheel_okD:
  assumes "wheel_ok tw"
  shows "0 < slots tw" "slots tw < 2 ^ 31" "0 < granularity tw" "current_slot tw < slots tw"
    "length (wheel tw) = slots tw"
    "\<And>s it. s < slots tw \<Longrightarrow> it \<in> set (wheel tw ! s) \<Longrightarrow> 0 \<le> remaining_ticks it \<and> repeat_count it = 1"
  using assms by (simp_all add: wheel_ok_def del: One_nat_def) (metis nth_mem)+

lemma wheel_ok_set_list:
  assumes "wheel_ok tw" "\<And>it. it \<in> set l \<Longrightarrow> 0 \<le> remaining_ticks it \<and> repeat_count it = 1"
  shows "wheel_ok (set_list s l tw)"
  using assms set_update_subset_insert [of "wheel tw" s l] unfolding wheel_ok_def by fastforce

lemma slot_of_ok:
  assumes "wheel_ok tw" "req_ok tw r"
  shows "slot_of tw r = (current_slot tw + req_timeout r div granularity tw) mod slots tw"
proof -
  have "current_slot tw + req_timeout r div granularity tw < 2 ^ 64"
    using wheel_okD(2,4) [OF assms(1)] assms(2) by (simp add: req_ok_def)
  then show ?thesis by (simp add: slot_of_def)
qed

lemma item_of_ok:
  assumes "wheel_ok tw" "req_ok tw r"
  shows "remaining_ticks (item_of tw r) = int (req_timeout r div granularity tw div slots tw)"
    "repeat_count (item_of tw r) = 1" "task_of (item_of tw r) = req_task r"
proof -
  have "req_timeout r div granularity tw div slots tw \<le> req_timeout r div granularity tw" by simp
  then have "req_timeout r div granularity tw div slots tw < 2 ^ 31"
    using assms(2) unfolding req_ok_def by linarith
  then show "remaining_ticks (item_of tw r) = int (req_timeout r div granularity tw div slots tw)"
    by (simp add: item_of_def to_int32_small)
  show "repeat_count (item_of tw r) = 1" using assms(2) by (simp add: item_of_def req_ok_def)
  show "task_of (item_of tw r) = req_task r"
    by (cases "req_co r") (simp_all add: item_of_def task_of_def req_task_def)
qed

lemma same_slot_le:
  assumes "(0::nat) < N" "t \<le> n" "(c + t) mod N = (c + n) mod N" "t div N = n div N"
  shows "t = n"
proof -
  have "N dvd (c + n) - (c + t)" using assms(2,3) mod_eq_dvd_iff_nat [of "c + t" "c + n" N] by simp
  then have "N dvd n - t" by simp
  moreover have "n - t < N"
  proof -
    have "n = N * (t div N) + n mod N" using assms(4) by (metis mult_div_mod_eq)
    moreover have "n mod N < N" using assms(1) by simp
    moreover have "N * (t div N) \<le> t" by simp
    ultimately show ?thesis by linarith
  qed
  ultimately have "n - t = 0" by (meson dvd_imp_le neq0_conv not_le)
  with assms(2) show ?thesis by simp
qed

lemma same_slot_iff:
  assumes "(0::nat) < N"
  shows "(c + t) mod N = (c + n) mod N \<and> t div N = n div N \<longleftrightarrow> t = n"
  using same_slot_le [OF assms, of t n c] same_slot_le [OF assms, of n t c] by (metis nle_le)

text \<open>\<^verbatim>\<open>AddTimer\<close> on the schedule.\<close>

lemma AddTimer_due:
  assumes ok: "wheel_ok tw" and r: "req_ok tw r"
  shows "\<exists>tw'. AddTimer r tw = Some tw' \<and> wheel_ok tw' \<and> same_shape tw tw' \<and>
    due tw' = sched_add (granularity tw) r (due tw)"
proof -
  let ?s = "slot_of tw r" and ?it = "item_of tw r" and ?n = "req_timeout r div granularity tw"
  let ?tw = "set_list ?s (wheel tw ! ?s @ [?it]) tw"
  note D = wheel_okD [OF ok] and it = item_of_ok [OF ok r]
  have s: "?s < slots tw" using slot_of_less [OF D(1)] .
  have "due ?tw t = sched_add (granularity tw) r (due tw) t" for t
  proof (cases "(current_slot tw + t) mod slots tw = ?s")
    case True
    then have "t div slots tw = ?n div slots tw \<longleftrightarrow> t = ?n"
      using same_slot_iff [OF D(1), of "current_slot tw" t ?n] slot_of_ok [OF ok r] by auto
    moreover have "wheel ?tw ! ((current_slot tw + t) mod slots tw) = wheel tw ! ?s @ [?it]"
      using True s D(5) by simp
    then have "due ?tw t = due tw t @ (if t div slots tw = ?n div slots tw then [req_task r] else [])"
      using it True unfolding due_def by (simp del: set_list_simps(5))
    ultimately show ?thesis by (cases "t = ?n") (simp_all add: sched_add_def Let_def)
  next
    case False
    then have "t \<noteq> ?n" using slot_of_ok [OF ok r] by auto
    moreover have "due ?tw t = due tw t" using False by (simp add: due_def)
    ultimately show ?thesis by (simp add: sched_add_def Let_def)
  qed
  moreover have "wheel_ok ?tw"
    by (rule wheel_ok_set_list [OF ok]) (use D(6) [OF s] it in auto)
  ultimately show ?thesis
    using AddTimer_eq [OF D(3,1)] by (auto simp: same_shape_def)
qed

lemma req_ok_same_shape: "same_shape tw tw' \<Longrightarrow> req_ok tw' r = req_ok tw r"
  by (simp add: same_shape_def req_ok_def)

lemma add_timers_due:
  "wheel_ok tw \<Longrightarrow> \<forall>r \<in> set rs. req_ok tw r \<Longrightarrow>
   \<exists>tw'. add_timers rs tw = Some tw' \<and> wheel_ok tw' \<and> same_shape tw tw' \<and>
     due tw' = fold (sched_add (granularity tw)) rs (due tw)"
proof (induction rs arbitrary: tw)
  case Nil
  then show ?case by (simp add: same_shape_def)
next
  case (Cons r rs)
  then obtain tw1 where tw1: "AddTimer r tw = Some tw1" "wheel_ok tw1" "same_shape tw tw1"
      "due tw1 = sched_add (granularity tw) r (due tw)"
    using AddTimer_due [of tw r] by auto
  moreover have "\<forall>r \<in> set rs. req_ok tw1 r" using Cons.prems(2) req_ok_same_shape [OF tw1(3)] by simp
  ultimately obtain tw' where "add_timers rs tw1 = Some tw'" "wheel_ok tw'" "same_shape tw1 tw'"
      "due tw' = fold (sched_add (granularity tw1)) rs (due tw1)"
    using Cons.IH [of tw1] by blast
  with tw1 same_shape_trans [OF tw1(3)] show ?case by (auto simp: same_shape_def)
qed

text \<open>Requests that stay away from the list being visited commute with any change of that list.\<close>

lemma AddTimer_set_list:
  assumes "0 < granularity tw" "0 < slots tw" "slot_of tw r \<noteq> s"
  shows "AddTimer r (set_list s l tw) = map_option (set_list s l) (AddTimer r tw)"
proof -
  have "slot_of (set_list s l tw) r = slot_of tw r" "item_of (set_list s l tw) r = item_of tw r"
    by (simp_all add: slot_of_def item_of_def)
  with assms show ?thesis
    by (simp add: AddTimer_eq set_list_swap del: set_list_simps(5)) (simp add: set_list_swap [of s])
qed

lemma add_timers_set_list:
  "0 < granularity tw \<Longrightarrow> 0 < slots tw \<Longrightarrow> \<forall>r \<in> set rs. slot_of tw r \<noteq> s \<Longrightarrow>
   add_timers rs (set_list s l tw) = map_option (set_list s l) (add_timers rs tw) \<and>
   (\<forall>tw'. add_timers rs tw = Some tw' \<longrightarrow> wheel tw' ! s = wheel tw ! s)"
proof (induction rs arbitrary: tw)
  case Nil
  then show ?case by simp
next
  case (Cons r rs)
  let ?tw1 = "set_list (slot_of tw r) (wheel tw ! slot_of tw r @ [item_of tw r]) tw"
  have r: "slot_of tw r \<noteq> s" using Cons.prems(3) by simp
  have "\<forall>r \<in> set rs. slot_of ?tw1 r \<noteq> s" using Cons.prems(3) by (simp add: slot_of_def)
  with Cons.IH [of ?tw1] Cons.prems(1,2) r have
    "add_timers rs (set_list s l ?tw1) = map_option (set_list s l) (add_timers rs ?tw1)"
    "\<forall>tw'. add_timers rs ?tw1 = Some tw' \<longrightarrow> wheel tw' ! s = wheel tw ! s"
    by simp_all
  moreover have "AddTimer r (set_list s l tw) = Some (set_list s l ?tw1)" "AddTimer r tw = Some ?tw1"
    using AddTimer_set_list [OF Cons.prems(1,2) r] AddTimer_eq [OF Cons.prems(1,2)] by simp_all
  ultimately show ?case by simp
qed

section \<open>One tick\<close>

lemma item_updates:
  "put_item s i it tw = set_list s ((wheel tw ! s)[i := it]) tw"
  "erase_item s i tw = set_list s (take i (wheel tw ! s) @ drop (Suc i) (wheel tw ! s)) tw"
  by (simp_all add: put_item_def erase_item_def set_list_def)

lemma task_of_update [simp]: "task_of (it\<lparr>remaining_ticks := x\<rparr>) = task_of it"
  by (cases "perform_co it") (simp_all add: task_of_def)

text \<open>What a visit leaves of a list: the expired items are gone, the others have one tick less.\<close>

definition settle :: "'k timeout_item list \<Rightarrow> 'k timeout_item list" where
  "settle l = map (\<lambda>it. it\<lparr>remaining_ticks := remaining_ticks it - 1\<rparr>)
     (filter (\<lambda>it. 0 < remaining_ticks it) l)"

definition settled :: "nat \<Rightarrow> nat \<Rightarrow> 'k time_wheel \<Rightarrow> 'k time_wheel" where
  "settled s i tw = set_list s (take i (wheel tw ! s) @ settle (drop i (wheel tw ! s))) tw"

text \<open>
  The tasks may add timers of any length whose tick count is in range, except those that would go
  into the list that is being visited.
\<close>

definition safe_run :: "('k task \<Rightarrow> 'e \<Rightarrow> 'k request list \<times> 'e) \<Rightarrow> 'k time_wheel \<Rightarrow> bool" where
  "safe_run run tw \<longleftrightarrow> (\<forall>t e. \<forall>r \<in> set (fst (run t e)). req_ok tw r \<and>
     req_timeout r div granularity tw mod slots tw \<noteq> slots tw - 1)"

lemma safe_run_same_shape: "same_shape tw tw' \<Longrightarrow> safe_run run tw' = safe_run run tw"
  by (simp add: safe_run_def same_shape_def req_ok_def)

lemma mod_shift: "(s::nat) < N \<Longrightarrow> (s + k) mod N = s \<longleftrightarrow> k mod N = 0"
  using mod_eq_dvd_iff_nat [of s "s + k" N] by (auto simp: dvd_eq_mod_eq_0)

lemma safe_slot:
  assumes ok: "wheel_ok tw" and s: "s < slots tw" "(s + 1) mod slots tw = current_slot tw"
    and r: "req_ok tw r" "req_timeout r div granularity tw mod slots tw \<noteq> slots tw - 1"
  shows "slot_of tw r \<noteq> s"
proof
  let ?n = "req_timeout r div granularity tw" and ?N = "slots tw"
  assume "slot_of tw r = s"
  then have "((s + 1) mod ?N + ?n) mod ?N = s" using slot_of_ok [OF ok r(1)] s(2) by simp
  then have "(s + (1 + ?n)) mod ?N = s" by (simp add: mod_simps add.assoc)
  then have "Suc ?n mod ?N = 0" using mod_shift [OF s(1), of "1 + ?n"] by simp
  with r(2) show False by (simp add: mod_Suc split: if_splits)
qed

lemma wheel_ok_settled:
  assumes "wheel_ok tw" "s < slots tw"
  shows "wheel_ok (settled s i tw)"
  unfolding settled_def
  by (rule wheel_ok_set_list [OF assms(1)])
    (use wheel_okD(6) [OF assms] in \<open>auto simp: settle_def dest: in_set_takeD in_set_dropD\<close>)

lemma visit_keep:
  assumes "i < length (wheel tw ! s)" "0 < remaining_ticks (wheel tw ! s ! i)" "s < length (wheel tw)"
  shows "visit_loop run s i tw e =
      visit_loop run s (Suc i) (put_item s i ((wheel tw ! s ! i)
        \<lparr>remaining_ticks := remaining_ticks (wheel tw ! s ! i) - 1\<rparr>) tw) e"
    and "settled s (Suc i) (put_item s i ((wheel tw ! s ! i)
        \<lparr>remaining_ticks := remaining_ticks (wheel tw ! s ! i) - 1\<rparr>) tw) = settled s i tw"
proof -
  show "visit_loop run s i tw e =
      visit_loop run s (Suc i) (put_item s i ((wheel tw ! s ! i)
        \<lparr>remaining_ticks := remaining_ticks (wheel tw ! s ! i) - 1\<rparr>) tw) e"
    using assms by (subst visit_loop.simps) (simp add: Let_def)
  show "settled s (Suc i) (put_item s i ((wheel tw ! s ! i)
        \<lparr>remaining_ticks := remaining_ticks (wheel tw ! s ! i) - 1\<rparr>) tw) = settled s i tw"
    using assms Cons_nth_drop_Suc [OF assms(1)]
    by (simp add: settled_def item_updates settle_def take_Suc_conv_app_nth flip: Cons_nth_drop_Suc)
qed

lemma visit_fire:
  assumes ok: "wheel_ok tw" and s: "s < slots tw" "(s + 1) mod slots tw = current_slot tw"
    and run: "safe_run run tw" and i: "i < length (wheel tw ! s)"
    and fire: "remaining_ticks (wheel tw ! s ! i) = 0"
    and r: "run (task_of (wheel tw ! s ! i)) e = (reqs, e1)"
  shows "\<exists>tw'. visit_loop run s i tw e = visit_loop run s i tw' e1 \<and> wheel_ok tw' \<and> same_shape tw tw' \<and>
    wheel tw' ! s = take i (wheel tw ! s) @ drop (Suc i) (wheel tw ! s) \<and>
    due (settled s i tw') = fold (sched_add (granularity tw)) reqs (due (settled s i tw))"
proof -
  let ?L = "wheel tw ! s" and ?old = "wheel tw ! s ! i"
  let ?item = "?old\<lparr>remaining_ticks := remaining_ticks ?old - 1\<rparr>"
  let ?rest = "take i ?L @ drop (Suc i) ?L" and ?set = "take i ?L @ settle (drop i ?L)"
  note D = wheel_okD [OF ok]
  have reqs: "\<forall>q \<in> set reqs. req_ok tw q \<and> slot_of tw q \<noteq> s"
    using run r safe_slot [OF ok s] unfolding safe_run_def by (metis fst_conv)
  obtain tw2 where tw2: "add_timers reqs tw = Some tw2" "wheel_ok tw2" "same_shape tw tw2"
    using add_timers_due [OF ok] reqs by blast
  have comm: "add_timers reqs (set_list s l tw) = Some (set_list s l tw2)" "wheel tw2 ! s = ?L" for l
    using add_timers_set_list [OF D(3,1), of reqs s l] reqs tw2(1) by auto
  have len: "s < length (wheel tw2)" using tw2(3) D(5) s(1) by (simp add: same_shape_def)
  have "repeat_count ?old = 1" using D(6) [OF s(1)] i by simp
  then have "visit_loop run s i tw e = visit_loop run s i (set_list s ?rest tw2) e1"
    using i fire r comm(1) [of "?L[i := ?item]"] len
    by (subst visit_loop.simps) (simp add: Let_def item_updates)
  moreover have "wheel_ok (set_list s ?rest tw2)"
    by (rule wheel_ok_set_list [OF tw2(2)])
      (use D(6) [OF s(1)] in \<open>auto dest: in_set_takeD in_set_dropD\<close>)
  moreover have "due (settled s i (set_list s ?rest tw2)) =
      fold (sched_add (granularity tw)) reqs (due (settled s i tw))"
  proof -
    have "settle (drop i ?L) = settle (drop (Suc i) ?L)"
      using fire by (simp add: settle_def flip: Cons_nth_drop_Suc [OF i])
    then have "settled s i (set_list s ?rest tw2) = set_list s ?set tw2"
      using i len by (simp add: settled_def)
    moreover have "granularity (settled s i tw) = granularity tw" by (simp add: settled_def)
    moreover have "\<forall>q \<in> set reqs. req_ok (settled s i tw) q"
      using reqs by (simp add: settled_def req_ok_def)
    ultimately show ?thesis
      using add_timers_due [OF wheel_ok_settled [OF ok s(1)], of reqs i] comm(1) [of ?set]
      by (simp add: settled_def)
  qed
  moreover have "same_shape tw (set_list s ?rest tw2)" using tw2(3) by (simp add: same_shape_def)
  ultimately show ?thesis using len by (intro exI [of _ "set_list s ?rest tw2"]) simp
qed

text \<open>The inner loop runs what is due, in the order of the list, and settles the rest.\<close>

lemma visit_loop_settles:
  assumes "wheel_ok tw" "s < slots tw" "(s + 1) mod slots tw = current_slot tw" "safe_run run tw"
  shows "\<exists>tw' e'. visit_loop run s i tw e = Some (tw', e') \<and> wheel_ok tw' \<and> same_shape tw tw' \<and>
    (due tw', e') = fire_all run (granularity tw)
      (map task_of (filter (\<lambda>it. remaining_ticks it = 0) (drop i (wheel tw ! s)))) (due (settled s i tw)) e"
  using assms
proof (induction "length (wheel tw ! s) - i" arbitrary: i tw e)
  case 0
  then have "visit_loop run s i tw e = Some (tw, e)" "settled s i tw = tw" "drop i (wheel tw ! s) = []"
    by (simp_all add: visit_loop.simps settled_def settle_def)
  with 0 show ?case by (auto simp: same_shape_def)
next
  case (Suc k)
  let ?L = "wheel tw ! s" and ?old = "wheel tw ! s ! i"
  note D = wheel_okD [OF Suc.prems(1)]
  have i: "i < length ?L" using Suc.hyps(2) by simp
  have len: "s < length (wheel tw)" using D(5) Suc.prems(2) by simp
  note dr = Cons_nth_drop_Suc [OF i, symmetric]
  have "0 \<le> remaining_ticks ?old" using D(6) [OF Suc.prems(2)] i by simp
  then consider (keep) "0 < remaining_ticks ?old" | (fire) "remaining_ticks ?old = 0" by linarith
  then show ?case
  proof cases
    case keep
    obtain tw1 where tw1: "tw1 = put_item s i (?old\<lparr>remaining_ticks := remaining_ticks ?old - 1\<rparr>) tw"
      by simp
    have ok1: "wheel_ok tw1" unfolding tw1 item_updates
      by (rule wheel_ok_set_list [OF Suc.prems(1)])
        (use D(6) [OF Suc.prems(2)] keep i in \<open>auto dest!: subsetD [OF set_update_subset_insert]\<close>)
    have L: "wheel tw1 ! s = ?L[i := ?old\<lparr>remaining_ticks := remaining_ticks ?old - 1\<rparr>]"
      using len by (simp add: tw1 item_updates)
    have shape: "same_shape tw tw1" by (simp add: tw1 same_shape_def item_updates)
    note vk = visit_keep [OF i keep len, folded tw1]
    have "k = length (wheel tw1 ! s) - Suc i" using Suc.hyps(2) L by simp
    moreover have "s < slots tw1" "(s + 1) mod slots tw1 = current_slot tw1" "safe_run run tw1"
      using Suc.prems(2-4) shape safe_run_same_shape [OF shape, of run] by (simp_all add: same_shape_def)
    ultimately obtain tw' e' where "visit_loop run s (Suc i) tw1 e = Some (tw', e')" "wheel_ok tw'"
        "same_shape tw1 tw'" "(due tw', e') = fire_all run (granularity tw1)
          (map task_of (filter (\<lambda>it. remaining_ticks it = 0) (drop (Suc i) (wheel tw1 ! s))))
          (due (settled s (Suc i) tw1)) e"
      using Suc.hyps(1) [of tw1 "Suc i" e] ok1 by blast
    moreover have "granularity tw1 = granularity tw" using shape by (simp add: same_shape_def)
    moreover have "filter (\<lambda>it. remaining_ticks it = 0) (drop (Suc i) (wheel tw1 ! s)) =
        filter (\<lambda>it. remaining_ticks it = 0) (drop i ?L)"
      using keep by (simp add: L dr)
    ultimately show ?thesis
      using vk(1) [of run e] vk(2) same_shape_trans [OF shape] by (intro exI [of _ tw'] exI [of _ e']) simp
  next
    case fire
    obtain reqs e1 where r: "run (task_of ?old) e = (reqs, e1)" by fastforce
    obtain tw1 where tw1: "visit_loop run s i tw e = visit_loop run s i tw1 e1" "wheel_ok tw1" "same_shape tw tw1"
        "wheel tw1 ! s = take i ?L @ drop (Suc i) ?L"
        "due (settled s i tw1) = fold (sched_add (granularity tw)) reqs (due (settled s i tw))"
      using visit_fire [OF Suc.prems(1-4) i fire r] by blast
    have "k = length (wheel tw1 ! s) - i" using Suc.hyps(2) i tw1(4) by simp
    moreover have "s < slots tw1" "(s + 1) mod slots tw1 = current_slot tw1" "safe_run run tw1"
      using Suc.prems(2-4) tw1(3) safe_run_same_shape [OF tw1(3), of run] by (simp_all add: same_shape_def)
    ultimately obtain tw' e' where "visit_loop run s i tw1 e1 = Some (tw', e')" "wheel_ok tw'"
        "same_shape tw1 tw'" "(due tw', e') = fire_all run (granularity tw1)
          (map task_of (filter (\<lambda>it. remaining_ticks it = 0) (drop i (wheel tw1 ! s))))
          (due (settled s i tw1)) e1"
      using Suc.hyps(1) [of tw1 i e1] tw1(2) by blast
    with tw1 same_shape_trans [OF tw1(3)] fire dr r i show ?thesis
      by (auto simp: same_shape_def)
  qed
qed

lemma settled_due:
  assumes ok: "wheel_ok tw" and tw0: "tw0 = tw\<lparr>current_slot := (current_slot tw + 1) mod slots tw\<rparr>"
  shows "due (settled (current_slot tw) 0 tw0) t = due tw (Suc t)"
proof -
  let ?N = "slots tw" and ?c = "current_slot tw"
  note D = wheel_okD [OF ok]
  have slot: "((?c + 1) mod ?N + t) mod ?N = (?c + Suc t) mod ?N" by (simp add: mod_simps)
  show ?thesis
  proof (cases "(?c + Suc t) mod ?N = ?c")
    case True
    then have "Suc t mod ?N = 0" using mod_shift [OF D(4)] by blast
    then have "Suc t div ?N = Suc (t div ?N)" by (simp add: div_Suc)
    moreover have "map task_of (filter (\<lambda>it. remaining_ticks it = int k) (settle l)) =
        map task_of (filter (\<lambda>it. remaining_ticks it = int (Suc k)) l)" for k and l :: "'a timeout_item list"
      by (induction l) (auto simp: settle_def)
    ultimately show ?thesis
      using True D(4,5) slot by (simp add: due_def settled_def tw0)
  next
    case False
    then have "Suc t mod ?N \<noteq> 0" using mod_shift [OF D(4)] by blast
    then have "Suc t div ?N = t div ?N" by (simp add: div_Suc)
    with False slot show ?thesis by (simp add: due_def settled_def tw0)
  qed
qed

lemma tick_loop_due:
  "wheel_ok tw \<Longrightarrow> safe_run run tw \<Longrightarrow>
   \<exists>tw' e'. tick_loop run n tw e = Some (tw', e') \<and> wheel_ok tw' \<and> slots tw' = slots tw \<and>
     granularity tw' = granularity tw \<and> last_trigger tw' = last_trigger tw \<and>
     current_slot tw' = (current_slot tw + n) mod slots tw \<and>
     (due tw', e') = sched_ticks run (granularity tw) n (due tw) e"
proof (induction n arbitrary: tw e)
  case 0
  then show ?case by (auto dest: wheel_okD(4))
next
  case (Suc n)
  let ?N = "slots tw" and ?c = "current_slot tw"
  let ?tw0 = "tw\<lparr>current_slot := (?c + 1) mod ?N\<rparr>"
  note D = wheel_okD [OF Suc.prems(1)]
  have ok0: "wheel_ok ?tw0" using Suc.prems(1) by (simp add: wheel_ok_def)
  have run0: "safe_run run ?tw0" using Suc.prems(2) by (simp add: safe_run_def req_ok_def)
  obtain tw1 e1 where tw1: "visit_loop run ?c 0 ?tw0 e = Some (tw1, e1)" "wheel_ok tw1" "same_shape ?tw0 tw1"
      "(due tw1, e1) = fire_all run (granularity tw)
        (map task_of (filter (\<lambda>it. remaining_ticks it = 0) (wheel tw ! ?c))) (due (settled ?c 0 ?tw0)) e"
    using visit_loop_settles [OF ok0 _ _ run0, of ?c 0 e] D(4) by auto
  have "map task_of (filter (\<lambda>it. remaining_ticks it = 0) (wheel tw ! ?c)) = due tw 0"
    using D(4) by (simp add: due_def)
  moreover have "due (settled ?c 0 ?tw0) = (\<lambda>t. due tw (Suc t))"
    using settled_due [OF Suc.prems(1) refl] by (intro ext)
  ultimately have fire: "(due tw1, e1) = fire_all run (granularity tw) (due tw 0) (\<lambda>t. due tw (Suc t)) e"
    using tw1(4) by simp
  have run1: "safe_run run tw1" using run0 safe_run_same_shape [OF tw1(3), of run] by simp
  from Suc.IH [OF tw1(2) run1, of e1] tw1(1,3) fire D(1) show ?case
    by (auto simp: same_shape_def mod_simps split: prod.splits dest: sym)
qed

lemma ExecuteTimeout_ticks:
  assumes "wheel_ok tw" "safe_run run tw" "last_trigger tw < now"
  shows "\<exists>tw' e'. ExecuteTimeout run now tw e = Some (tw', e') \<and> wheel_ok tw' \<and> last_trigger tw' = now \<and>
    (due tw', e') = sched_ticks run (granularity tw) ((now - last_trigger tw) div granularity tw) (due tw) e"
proof -
  obtain tw' e' where t: "tick_loop run ((now - last_trigger tw) div granularity tw) tw e = Some (tw', e')"
      "wheel_ok tw'" "(due tw', e') =
        sched_ticks run (granularity tw) ((now - last_trigger tw) div granularity tw) (due tw) e"
    using tick_loop_due [OF assms(1,2)] by blast
  have "due (tw'\<lparr>last_trigger := now\<rparr>) = due tw'" by (auto simp: due_def)
  moreover have "wheel_ok (tw'\<lparr>last_trigger := now\<rparr>)" using t(2) by (simp add: wheel_ok_def)
  ultimately show ?thesis
    using t wheel_okD(3) [OF assms(1)] assms(3)
    by (intro exI [of _ "tw'\<lparr>last_trigger := now\<rparr>"] exI [of _ e']) (simp add: ExecuteTimeout_def)
qed

text \<open>With tasks that only leave a trace, the trace is the schedule's first entries.\<close>

definition trace_run :: "'k task \<Rightarrow> 'k task list \<Rightarrow> 'k request list \<times> 'k task list" where
  "trace_run t e = ([], e @ [t])"

lemma safe_trace_run: "safe_run trace_run tw"
  by (simp add: safe_run_def trace_run_def)

lemma fire_all_trace: "fire_all trace_run g ts sch e = (sch, e @ ts)"
  by (induction ts arbitrary: e) (simp_all add: trace_run_def)

lemma sched_ticks_trace:
  "sched_ticks trace_run g n sch e = (\<lambda>t. sch (t + n), e @ concat (map sch [0..<n]))"
proof (induction n arbitrary: sch e)
  case 0
  then show ?case by simp
next
  case (Suc n)
  have "sch 0 @ concat (map (\<lambda>t. sch (Suc t)) [0..<n]) = concat (map sch [0..<Suc n])"
    by (simp only: upt_conv_Cons [of 0 "Suc n"] map_Suc_upt [symmetric]) (simp add: comp_def)
  with Suc show ?case by (simp add: fire_all_trace)
qed

section \<open>Properties of the timer wheel\<close>

text \<open>
  C3: \<^verbatim>\<open>ExecuteTimeout\<close> refines the abstract schedule: on a wheel of one-shot timers, with tasks that may add
  one-shot timers except those of \<open>slots - 1\<close> ticks modulo \<open>slots\<close> (such a timer lands in the slot
  that is being visited and the call may not return), it returns, and has run exactly the tasks due in
  the elapsed ticks, tick by tick and within a tick in the order they were added, each before the
  timers it adds take effect; what is left is the schedule shifted by the ticks.
\<close>

theorem ExecuteTimeout_refines_schedule:
  assumes "wheel_ok tw" "safe_run run tw" "last_trigger tw < now"
  shows "\<exists>tw' e'. ExecuteTimeout run now tw e = Some (tw', e') \<and> wheel_ok tw' \<and> last_trigger tw' = now \<and>
    (due tw', e') = sched_ticks run (granularity tw) ((now - last_trigger tw) div granularity tw) (due tw) e"
  using assms by (rule ExecuteTimeout_ticks)

lemma wheel_ok_TimeWheel: "0 < n \<Longrightarrow> n < 2 ^ 31 \<Longrightarrow> 0 < g \<Longrightarrow> wheel_ok (TimeWheel n g clk)"
  by (simp add: wheel_ok_def TimeWheel_def)

text \<open>A task that adds a timer of two ticks when it runs; a wheel in which it is due on tick one.\<close>

lemma due_TimeWheel: "0 < n \<Longrightarrow> due (TimeWheel n g clk) t = []"
  by (simp add: due_def TimeWheel_def)

definition chain_run :: "nat task \<Rightarrow> nat task list \<Rightarrow> nat request list \<times> nat task list" where
  "chain_run t e =
     (if t = Func 1 then [\<lparr>req_timeout = 20, req_func = 2, req_co = None, req_times = 1, req_clock = 0\<rparr>] else [], e @ [t])"

theorem ExecuteTimeout_refines_schedule_witness:
  "\<exists>tw tw'. AddTimer \<lparr>req_timeout = 10, req_func = 1, req_co = None, req_times = 1, req_clock = 0\<rparr> (TimeWheel 4 10 0) = Some tw \<and>
    ExecuteTimeout chain_run 55 tw [] = Some (tw', [Func 1, Func 2]) \<and> due tw' = (\<lambda>t. [])"
proof -
  let ?r = "\<lparr>req_timeout = 10, req_func = 1 :: nat, req_co = None, req_times = 1, req_clock = 0\<rparr>"
  let ?tw = "TimeWheel 4 10 0 :: nat time_wheel"
  have ok: "wheel_ok ?tw" by (rule wheel_ok_TimeWheel) simp_all
  have g: "granularity ?tw = 10" "last_trigger ?tw = 0" "slots ?tw = 4" by (simp_all add: TimeWheel_def)
  have "req_ok ?tw ?r" by (simp add: req_ok_def g)
  from AddTimer_due [OF ok this] obtain tw where tw: "AddTimer ?r ?tw = Some tw" "wheel_ok tw" "same_shape ?tw tw"
      "due tw = sched_add 10 ?r (due ?tw)" by (auto simp: g)
  have shape: "granularity tw = 10" "last_trigger tw = 0" "slots tw = 4" using tw(3) by (simp_all add: same_shape_def g)
  have safe: "safe_run chain_run tw" by (simp add: safe_run_def chain_run_def req_ok_def shape)
  have due: "due tw = (\<lambda>t. [])(1 := [Func 1])"
    by (simp add: tw(4) sched_add_def req_task_def due_TimeWheel fun_eq_iff)
  have five: "(5 :: nat) = Suc (Suc (Suc (Suc (Suc 0))))" by simp
  have "sched_ticks chain_run 10 5 (due tw) [] = (\<lambda>t. [], [Func 1, Func 2])"
    unfolding due five by (simp add: chain_run_def sched_add_def req_task_def)
  with ExecuteTimeout_refines_schedule [OF tw(2) safe, of 55 "[]"] tw(1) show ?thesis by (auto simp: shape)
qed

text \<open>
  C24: a timer of \<open>n\<close> ticks runs on the tick number \<open>n\<close> counted from 0, once, and no sooner: after
  \<^verbatim>\<open>AddTimer\<close> and \<^verbatim>\<open>ExecuteTimeout\<close>, with tasks that add no timers, the tasks that have run are the
  ones scheduled before with the new one at the end of the entry \<open>n\<close>.
\<close>

theorem AddTimer_fires_on_tick:
  assumes "wheel_ok tw" "req_ok tw r" "last_trigger tw < now"
  shows "\<exists>tw1 tw2 log. AddTimer r tw = Some tw1 \<and> ExecuteTimeout trace_run now tw1 [] = Some (tw2, log) \<and>
    (let n = req_timeout r div granularity tw; d = (now - last_trigger tw) div granularity tw in
     log = concat (map (\<lambda>t. due tw t @ (if t = n then [req_task r] else [])) [0..<d]) \<and>
     (\<forall>t. due tw2 t = due tw (t + d) @ (if t + d = n then [req_task r] else [])))"
proof -
  let ?d = "(now - last_trigger tw) div granularity tw"
  obtain tw1 where tw1: "AddTimer r tw = Some tw1" "wheel_ok tw1" "same_shape tw tw1"
      "due tw1 = sched_add (granularity tw) r (due tw)"
    using AddTimer_due [OF assms(1,2)] by blast
  have sch: "due tw1 = (\<lambda>t. due tw t @ (if t = req_timeout r div granularity tw then [req_task r] else []))"
    by (rule ext) (simp add: tw1(4) sched_add_def Let_def)
  obtain tw2 log where "ExecuteTimeout trace_run now tw1 [] = Some (tw2, log)"
      "(due tw2, log) = sched_ticks trace_run (granularity tw) ?d (due tw1) []"
    using ExecuteTimeout_ticks [OF tw1(2) safe_trace_run, of now "[]"] tw1(3) assms(3)
    by (auto simp: same_shape_def)
  with tw1(1) show ?thesis
    by (intro exI [of _ tw1] exI [of _ tw2] exI [of _ log]) (simp add: sched_ticks_trace sch Let_def)
qed

theorem AddTimer_fires_on_tick_witness:
  "\<exists>tw1 tw2. AddTimer \<lparr>req_timeout = 10, req_func = (), req_co = None, req_times = 1, req_clock = 0\<rparr> (TimeWheel 4 10 0) = Some tw1 \<and>
    ExecuteTimeout trace_run 25 tw1 [] = Some (tw2, [Func ()])"
proof -
  let ?r = "\<lparr>req_timeout = 10, req_func = (), req_co = None, req_times = 1, req_clock = 0\<rparr>"
  let ?tw = "TimeWheel 4 10 0 :: unit time_wheel"
  have ok: "wheel_ok ?tw" by (rule wheel_ok_TimeWheel) simp_all
  have r: "req_ok ?tw ?r" and l: "last_trigger ?tw < 25"
    and f: "granularity ?tw = 10" "last_trigger ?tw = 0"
    by (simp_all add: TimeWheel_def req_ok_def)
  have "[0..<2] = [0, 1 :: nat]" by (simp add: numeral_2_eq_2)
  with AddTimer_fires_on_tick [OF ok r l] f show ?thesis
    by (auto simp: due_TimeWheel req_task_def Let_def)
qed

section \<open>Repeating timers\<close>

text \<open>A tick over an empty slot, and one over a slot with a repeating timer of less than a revolution.\<close>

lemma visit_empty: "wheel tw ! s = [] \<Longrightarrow> visit_loop run s i tw e = Some (tw, e)"
  by (simp add: visit_loop.simps)

lemma visit_repeat:
  assumes it: "wheel tw ! s = [it]" "remaining_ticks it = 0" "repeat_count it < 0"
    and short: "0 \<le> repeat_interval it" "repeat_interval it < int (slots tw * granularity tw)"
      "repeat_interval it < 2 ^ 31"
    and tw: "0 < slots tw" "0 < granularity tw" "s < length (wheel tw)" "current_slot tw < slots tw" "slots tw < 2 ^ 31"
  shows "visit_loop trace_run s 0 tw e = Some (tw, e @ [task_of it])"
proof -
  let ?it = "it\<lparr>remaining_ticks := -1\<rparr>"
  have u: "to_uint64 (repeat_interval it) = nat (repeat_interval it)"
    using short(1,3) by (simp add: to_uint64_def)
  have "nat (repeat_interval it) < granularity tw * slots tw"
    using short by (simp add: nat_less_iff mult.commute)
  then have z: "to_uint64 (repeat_interval it) div granularity tw div slots tw = 0"
    using tw(1,2) u by (simp add: less_mult_imp_div_less mult.commute)
  have "to_int32 0 = 0" "to_uint64 0 = 0" by (simp_all add: to_int32_def to_uint64_def)
  moreover have "current_slot tw mod 2 ^ 64 mod slots tw = current_slot tw" using tw(4,5) by simp
  ultimately have "visit_loop trace_run s 0 tw e =
      visit_loop trace_run s (Suc 0) (set_list s [it\<lparr>remaining_ticks := 0\<rparr>] tw) (e @ [task_of it])"
    using it tw(3) z
    by (subst visit_loop.simps) (simp add: Let_def item_updates trace_run_def)
  also have "it\<lparr>remaining_ticks := 0\<rparr> = it" by (cases it) (use it(2) in simp)
  also have "set_list s [it] tw = tw" using it(1) by (metis set_list_simps(7))
  finally show ?thesis using it(1) by (simp add: visit_loop.simps)
qed

text \<open>A wheel with one item, in slot \<open>s\<close>.\<close>

definition single :: "nat \<Rightarrow> nat \<Rightarrow> nat \<Rightarrow> nat \<Rightarrow> 'k timeout_item \<Rightarrow> nat \<Rightarrow> 'k time_wheel" where
  "single n g clk c it s =
     \<lparr>wheel = (replicate n [])[s := [it]], slots = n, granularity = g, last_trigger = clk, current_slot = c\<rparr>"

lemma wheel_ok_single:
  "s < n \<Longrightarrow> c < n \<Longrightarrow> n < 2 ^ 31 \<Longrightarrow> 0 < g \<Longrightarrow> 0 \<le> remaining_ticks it \<Longrightarrow> repeat_count it = 1 \<Longrightarrow>
   wheel_ok (single n g clk c it s)"
  by (auto simp: wheel_ok_def single_def dest!: subsetD [OF set_update_subset_insert])

lemma single_step:
  assumes "s < n" "c < n" "n < 2 ^ 31" "0 < g"
    and "remaining_ticks it = 0" "repeat_count it < 0"
    and "0 \<le> repeat_interval it" "repeat_interval it < int (n * g)" "repeat_interval it < 2 ^ 31"
  shows "visit_loop trace_run c 0 ((single n g clk c it s)\<lparr>current_slot := (c + 1) mod n\<rparr>) e =
    Some (single n g clk ((c + 1) mod n) it s, if c = s then e @ [task_of it] else e)"
proof -
  have eq: "(single n g clk c it s)\<lparr>current_slot := (c + 1) mod n\<rparr> = single n g clk ((c + 1) mod n) it s"
    by (simp add: single_def)
  show ?thesis
  proof (cases "c = s")
    case True
    have "visit_loop trace_run s 0 (single n g clk ((c + 1) mod n) it s) e =
        Some (single n g clk ((c + 1) mod n) it s, e @ [task_of it])"
      by (rule visit_repeat) (use assms in \<open>simp_all add: single_def\<close>)
    with True show ?thesis unfolding eq by simp
  next
    case False
    with assms show ?thesis unfolding eq by (subst visit_empty) (simp_all add: single_def)
  qed
qed

text \<open>
  A repeating timer whose interval is shorter than a revolution of the wheel does not keep its
  interval: after its first expiry it runs exactly once per revolution, every \<open>slots\<close> ticks.
\<close>

theorem repeat_timer_period:
  assumes "s < n" "c < n" "n < 2 ^ 31" "0 < g"
    and "remaining_ticks it = 0" "repeat_count it < 0"
    and "0 \<le> repeat_interval it" "repeat_interval it < int (n * g)" "repeat_interval it < 2 ^ 31"
  shows "tick_loop trace_run k (single n g clk c it s) e =
    Some (single n g clk ((c + k) mod n) it s,
      e @ replicate (length (filter (\<lambda>t. (c + t) mod n = s) [0..<k])) (task_of it))"
  using assms(2)
proof (induction k arbitrary: c e)
  case 0
  then show ?case by simp
next
  case (Suc k)
  let ?c = "(c + 1) mod n" and ?e = "if c = s then e @ [task_of it] else e"
  have n: "0 < n" using Suc.prems by simp
  have "tick_loop trace_run (Suc k) (single n g clk c it s) e = tick_loop trace_run k (single n g clk ?c it s) ?e"
    using single_step [OF assms(1) Suc.prems assms(3-9), of clk e] n by (simp add: single_def)
  also have "\<dots> = Some (single n g clk ((?c + k) mod n) it s,
      ?e @ replicate (length (filter (\<lambda>t. (?c + t) mod n = s) [0..<k])) (task_of it))"
    by (rule Suc.IH) (use n in simp)
  also have "filter (\<lambda>t. (?c + t) mod n = s) [0..<k] = filter (\<lambda>t. (c + Suc t) mod n = s) [0..<k]"
    by (simp add: mod_simps)
  also have "length \<dots> = length (filter (\<lambda>t. (c + t) mod n = s) (map Suc [0..<k]))"
    by (simp add: filter_map comp_def)
  finally show ?case
    using Suc.prems by (simp add: mod_simps map_Suc_upt upt_conv_Cons [of 0 "Suc k"] del: upt_Suc)
qed

theorem repeat_timer_period_witness:
  "tick_loop trace_run 5 (single 4 10 0 0 \<lparr>remaining_ticks = 0, repeat_interval = 10, register_time = 0,
      repeat_count = -1, func = (), perform_co = None\<rparr> 0) [] =
   Some (single 4 10 0 1 \<lparr>remaining_ticks = 0, repeat_interval = 10, register_time = 0,
      repeat_count = -1, func = (), perform_co = None\<rparr> 0, [Func (), Func ()])"
proof -
  have "[0..<5] = [0, 1, 2, 3, 4 :: nat]" by (simp add: upt_rec)
  then show ?thesis
  using repeat_timer_period [of 0 4 0 10 "\<lparr>remaining_ticks = 0, repeat_interval = 10, register_time = 0,
      repeat_count = -1, func = (), perform_co = None\<rparr>" 5 0 "[]"]
  by (simp add: task_of_def)
qed

section \<open>Polling\<close>

text \<open>Calls of \<^verbatim>\<open>ExecuteTimeout\<close> at the times \<open>nows\<close>.\<close>

fun polls ::
  "('k task \<Rightarrow> 'e \<Rightarrow> 'k request list \<times> 'e) \<Rightarrow> nat list \<Rightarrow> 'k time_wheel \<Rightarrow> 'e \<Rightarrow>
   ('k time_wheel \<times> 'e) option" where
  "polls run [] tw e = Some (tw, e)"
| "polls run (now # nows) tw e = Option.bind (ExecuteTimeout run now tw e) (\<lambda>(tw', e'). polls run nows tw' e')"

text \<open>
  A caller that polls more often than the granularity starves the wheel: as long as consecutive
  polls are less than one granule apart nothing ever runs and no tick is counted,
  however long that goes on, because every poll moves \<^verbatim>\<open>last_trigger_\<close> to the present.
\<close>

theorem frequent_polls_starve:
  assumes "\<forall>i < length nows. (last_trigger tw # nows) ! i \<le> nows ! i \<and>
      nows ! i - (last_trigger tw # nows) ! i < granularity tw"
  shows "polls run nows tw e = Some (tw\<lparr>last_trigger := last (last_trigger tw # nows)\<rparr>, e)"
  using assms
proof (induction nows arbitrary: tw)
  case Nil
  then show ?case by simp
next
  case (Cons now nows)
  from Cons.prems have "last_trigger tw \<le> now" "now - last_trigger tw < granularity tw" by auto
  then have "ExecuteTimeout run now tw e = Some (tw\<lparr>last_trigger := now\<rparr>, e)"
    by (auto simp: ExecuteTimeout_def)
  moreover have "\<forall>i < length nows. (now # nows) ! i \<le> nows ! i \<and> nows ! i - (now # nows) ! i < granularity tw"
    using Cons.prems by (metis Suc_less_eq length_Cons nth_Cons_Suc)
  ultimately show ?case using Cons.IH [of "tw\<lparr>last_trigger := now\<rparr>"] by simp
qed

theorem frequent_polls_starve_witness:
  "polls trace_run [6, 12] (single 4 10 0 0 \<lparr>remaining_ticks = 0, repeat_interval = 10, register_time = 0,
      repeat_count = 1, func = (), perform_co = None\<rparr> 0) [] =
   Some (single 4 10 12 0 \<lparr>remaining_ticks = 0, repeat_interval = 10, register_time = 0,
      repeat_count = 1, func = (), perform_co = None\<rparr> 0, [])"
  using frequent_polls_starve [of "[6, 12]" "single 4 10 0 0 \<lparr>remaining_ticks = 0, repeat_interval = 10,
      register_time = 0, repeat_count = 1, func = (), perform_co = None\<rparr> 0" trace_run "[]"]
  by (simp add: single_def less_Suc_eq)

section \<open>Timers that add themselves\<close>

text \<open>The list that is visited never runs out: its last item is expired and not yet visited.\<close>

definition rearmed :: "'k time_wheel \<Rightarrow> nat \<Rightarrow> nat \<Rightarrow> 'k request \<Rightarrow> bool" where
  "rearmed tw s i r \<longleftrightarrow> wheel_ok tw \<and> s < slots tw \<and> (s + 1) mod slots tw = current_slot tw \<and>
     req_ok tw r \<and> req_timeout r div granularity tw = slots tw - 1 \<and>
     i < length (wheel tw ! s) \<and> remaining_ticks (last (wheel tw ! s)) = 0"

lemma rearmed_slot:
  assumes "rearmed tw s i r"
  shows "slot_of tw r = s" "remaining_ticks (item_of tw r) = 0" "repeat_count (item_of tw r) = 1"
proof -
  have ok: "wheel_ok tw" and r: "req_ok tw r" and s: "s < slots tw" "(s + 1) mod slots tw = current_slot tw"
    and n: "req_timeout r div granularity tw = slots tw - 1"
    using assms by (auto simp: rearmed_def)
  have "slot_of tw r = ((s + 1) mod slots tw + (slots tw - 1)) mod slots tw"
    using slot_of_ok [OF ok r] s(2) n by simp
  also have "\<dots> = (s + (1 + (slots tw - 1))) mod slots tw" by (simp add: mod_simps add.assoc)
  also have "\<dots> = s" using s(1) by simp
  finally show "slot_of tw r = s" .
  show "remaining_ticks (item_of tw r) = 0" "repeat_count (item_of tw r) = 1"
    using item_of_ok [OF ok r] n s(1) by simp_all
qed

lemma rearmed_keep:
  assumes inv: "rearmed tw s i r" and "0 < remaining_ticks (wheel tw ! s ! i)"
    and tw': "tw' = put_item s i ((wheel tw ! s ! i)\<lparr>remaining_ticks := remaining_ticks (wheel tw ! s ! i) - 1\<rparr>) tw"
  shows "rearmed tw' s (Suc i) r"
proof -
  let ?L = "wheel tw ! s"
  let ?it = "(?L ! i)\<lparr>remaining_ticks := remaining_ticks (?L ! i) - 1\<rparr>"
  have ok: "wheel_ok tw" and s: "s < slots tw" and i: "i < length ?L" and l: "remaining_ticks (last ?L) = 0"
    using inv by (auto simp: rearmed_def)
  have "?L \<noteq> []" using i by auto
  with i l assms(2) have "i \<noteq> length ?L - 1" by (auto simp: last_conv_nth)
  with i have i': "Suc i < length ?L" by simp
  have "wheel_ok tw'" unfolding tw' item_updates
    by (rule wheel_ok_set_list [OF ok])
      (use wheel_okD(6) [OF ok s] assms(2) i in \<open>auto dest!: subsetD [OF set_update_subset_insert]\<close>)
  moreover have "wheel tw' ! s = ?L[i := ?it]" using s wheel_okD(5) [OF ok] by (simp add: tw' item_updates)
  moreover have "last (?L[i := ?it]) = last ?L" using i' \<open>?L \<noteq> []\<close> by (simp add: last_conv_nth)
  ultimately show ?thesis
    using inv i' by (simp add: rearmed_def tw' item_updates req_ok_def)
qed

lemma rearmed_fire:
  assumes inv: "rearmed tw s i r" and fire: "remaining_ticks (wheel tw ! s ! i) = 0"
    and tw1: "tw1 = put_item s i ((wheel tw ! s ! i)\<lparr>remaining_ticks := -1\<rparr>) tw"
  shows "\<exists>tw2. add_timers [r] tw1 = Some tw2 \<and> rearmed (erase_item s i tw2) s i r"
proof -
  let ?L = "wheel tw ! s" and ?x = "item_of tw r"
  let ?L1 = "?L[i := (?L ! i)\<lparr>remaining_ticks := -1\<rparr>] @ [?x]"
  have ok: "wheel_ok tw" and s: "s < slots tw" and i: "i < length ?L" using inv by (auto simp: rearmed_def)
  note D = wheel_okD [OF ok] and sl = rearmed_slot [OF inv]
  have "slot_of tw1 r = s" "item_of tw1 r = ?x"
    using sl(1) by (simp_all add: tw1 item_updates slot_of_def item_of_def)
  moreover have "wheel tw1 ! s = ?L[i := (?L ! i)\<lparr>remaining_ticks := -1\<rparr>]"
    using s D(5) by (simp add: tw1 item_updates)
  ultimately have add: "add_timers [r] tw1 = Some (set_list s ?L1 tw1)"
    using AddTimer_eq [of tw1 r] D(1,3) by (simp add: tw1 item_updates)
  have er: "erase_item s i (set_list s ?L1 tw1) = set_list s (take i ?L @ drop (Suc i) ?L @ [?x]) tw"
    using s i D(5) by (simp add: tw1 item_updates)
  moreover have "rearmed (set_list s (take i ?L @ drop (Suc i) ?L @ [?x]) tw) s i r"
  proof -
    have "wheel_ok (set_list s (take i ?L @ drop (Suc i) ?L @ [?x]) tw)"
      by (rule wheel_ok_set_list [OF ok])
        (use D(6) [OF s] sl in \<open>auto dest: in_set_takeD in_set_dropD\<close>)
    then show ?thesis using inv sl(2) s i D(5) by (simp add: rearmed_def req_ok_def)
  qed
  ultimately show ?thesis using add by metis
qed

lemma visit_rearmed_step:
  assumes IH: "\<And>s i tw e. loop run s i tw e = Some res \<Longrightarrow> \<not> rearmed tw s i r"
    and run: "\<And>t e. \<exists>e'. run t e = ([r], e')" and inv: "rearmed tw s i r"
    and fire: "\<And>tw2 e1. add_timers [r] (put_item s i ((wheel tw ! s ! i)\<lparr>remaining_ticks := -1\<rparr>) tw) = Some tw2 \<Longrightarrow>
        run (task_of (wheel tw ! s ! i)) e = ([r], e1) \<Longrightarrow> remaining_ticks (wheel tw ! s ! i) = 0 \<Longrightarrow>
        repeat_count (wheel tw ! s ! i) = 1 \<Longrightarrow> loop run s i (erase_item s i tw2) e1 = Some res"
    and keep: "0 < remaining_ticks (wheel tw ! s ! i) \<Longrightarrow> loop run s (Suc i) (put_item s i
        ((wheel tw ! s ! i)\<lparr>remaining_ticks := remaining_ticks (wheel tw ! s ! i) - 1\<rparr>) tw) e = Some res"
  shows False
proof -
  have ok: "wheel_ok tw" and s: "s < slots tw" and i: "i < length (wheel tw ! s)"
    using inv by (auto simp: rearmed_def)
  have it: "0 \<le> remaining_ticks (wheel tw ! s ! i)" "repeat_count (wheel tw ! s ! i) = 1"
    using wheel_okD(6) [OF ok s] i by auto
  show False
  proof (cases "remaining_ticks (wheel tw ! s ! i) = 0")
    case True
    obtain e1 where "run (task_of (wheel tw ! s ! i)) e = ([r], e1)" using run by blast
    with rearmed_fire [OF inv True refl] fire [OF _ _ True it(2)] IH show False by blast
  next
    case False
    with it have "0 < remaining_ticks (wheel tw ! s ! i)" by simp
    with keep rearmed_keep [OF inv _ refl] IH show False by blast
  qed
qed

lemma visit_rearmed_diverges:
  assumes run: "\<And>t e. \<exists>e'. run t e = ([r], e')" and inv: "rearmed tw s i r"
  shows "visit_loop run s i tw e = None"
proof (rule ccontr)
  assume "visit_loop run s i tw e \<noteq> None"
  then obtain res where "visit_loop run s i tw e = Some res" by blast
  then have "run = run \<longrightarrow> \<not> rearmed tw s i r"
  proof (rule visit_loop.raw_induct [where P = "\<lambda>rn s i tw e res. rn = run \<longrightarrow> \<not> rearmed tw s i r", rotated])
    fix loop rn s i tw e res
    assume IH: "\<And>rn s i tw e y. loop rn s i tw e = Some y \<Longrightarrow> rn = run \<longrightarrow> \<not> rearmed tw s i r"
      and body: "(if length (wheel tw ! s) \<le> i then Some (tw, e)
      else let old = wheel tw ! s ! i;
               item = old\<lparr>remaining_ticks := remaining_ticks old - 1\<rparr>;
               tw1 = put_item s i item tw
           in if remaining_ticks item < 0 then
                (let (reqs, e1) = rn (task_of item) e in
                 Option.bind (add_timers reqs tw1) (\<lambda>tw2.
                   let cnt = (if repeat_count item > 0 then repeat_count item - 1 else repeat_count item) in
                   if cnt = 0 then loop rn s i (erase_item s i tw2) e1
                   else let ticks = to_int32 (to_uint64 (repeat_interval item) div granularity tw2 div slots tw2);
                            item2 = item\<lparr>repeat_count := cnt, remaining_ticks := ticks\<rparr>;
                            new_slot = (current_slot tw2 + to_uint64 ticks) mod 2 ^ 64 mod slots tw2
                        in if new_slot \<noteq> current_slot tw2
                           then loop rn s 0 (splice_item s i new_slot item2 tw2) e1
                           else loop rn s (Suc i) (put_item s i item2 tw2) e1))
              else loop rn s (Suc i) tw1 e) = Some res"
    show "rn = run \<longrightarrow> \<not> rearmed tw s i r"
    proof (intro impI notI)
      assume rn: "rn = run" and inv: "rearmed tw s i r"
      then have i: "i < length (wheel tw ! s)" by (simp add: rearmed_def)
      show False
        by (rule visit_rearmed_step [of loop run res r tw s i e, OF _ run inv])
          (use IH body rn i in \<open>auto simp: Let_def simp del: add_timers.simps\<close>)
    qed
  qed
  with inv show False by simp
qed

text \<open>
  C40: a task that re-arms itself for one revolution less one tick never lets \<^verbatim>\<open>ExecuteTimeout\<close> return:
  the new timer goes to the end of the list that is being visited, with no rounds to wait, and
  runs again at once.
\<close>

theorem rearming_timer_hangs:
  assumes ok: "wheel_ok tw" and r: "req_ok tw r" "req_timeout r div granularity tw = slots tw - 1"
    and due: "wheel tw ! current_slot tw \<noteq> []" "remaining_ticks (last (wheel tw ! current_slot tw)) = 0"
    and now: "last_trigger tw + granularity tw \<le> now"
  shows "ExecuteTimeout (\<lambda>t e. ([r], e @ [t])) now tw e = None"
proof -
  let ?run = "\<lambda>t e. ([r], e @ [t])" and ?c = "current_slot tw"
  let ?tw0 = "tw\<lparr>current_slot := (?c + 1) mod slots tw\<rparr>"
  note D = wheel_okD [OF ok]
  have "rearmed ?tw0 ?c 0 r"
    using ok r due D(4) by (auto simp: rearmed_def wheel_ok_def req_ok_def)
  then have "visit_loop ?run ?c 0 ?tw0 e = None" by (intro visit_rearmed_diverges) auto
  moreover obtain n where "(now - last_trigger tw) div granularity tw = Suc n"
  proof -
    have "0 < (now - last_trigger tw) div granularity tw" using now D(3) by (simp add: div_greater_zero_iff)
    then show ?thesis using that gr0_implies_Suc by blast
  qed
  ultimately show ?thesis using now D(1,3) by (simp add: ExecuteTimeout_def)
qed

theorem rearming_timer_hangs_witness:
  "ExecuteTimeout (\<lambda>t e. ([\<lparr>req_timeout = 30, req_func = (), req_co = None, req_times = 1, req_clock = 0\<rparr>], e @ [t])) 10
     (single 4 10 0 0 \<lparr>remaining_ticks = 0, repeat_interval = 0, register_time = 0,
      repeat_count = 1, func = (), perform_co = None\<rparr> 0) [] = None"
proof (rule rearming_timer_hangs)
  show "wheel_ok (single 4 10 0 0 \<lparr>remaining_ticks = 0, repeat_interval = 0, register_time = 0,
      repeat_count = 1, func = (), perform_co = None\<rparr> 0)"
    by (rule wheel_ok_single) simp_all
qed (simp_all add: single_def req_ok_def)

section \<open>The next timeout\<close>

text \<open>
  \<^verbatim>\<open>GetNextTimeout\<close> looks at the first item of each list only, so it can overlook the earliest
  timer: with a timer of 3 ticks added before one of 1 tick on a wheel of 2 slots it answers
  3, although the second one is due on tick 1.
\<close>

theorem GetNextTimeout_overlooks:
  "\<exists>tw1 tw2. AddTimer \<lparr>req_timeout = 3, req_func = True, req_co = None, req_times = 1, req_clock = 0\<rparr>
      (TimeWheel 2 1 0) = Some tw1 \<and>
    AddTimer \<lparr>req_timeout = 1, req_func = False, req_co = None, req_times = 1, req_clock = 0\<rparr> tw1 = Some tw2 \<and>
    due tw2 1 = [Func False] \<and> GetNextTimeout 0 tw2 = 3"
proof -
  have "replicate 2 [] = [[], []]" "[0..<2] = [0, 1 :: nat]" by (simp_all add: numeral_2_eq_2)
  then show ?thesis
    by (simp add: AddTimer_def TimeWheel_def Let_def due_def task_of_def GetNextTimeout_def
        trigger_def to_int32_def to_uint64_def INT64_MAX_def)
qed

end
