(* ===== verification/Coroutine.thy ===== *)
theory Coroutine
  imports Sylar_Prelude
begin

text \<open>
  Coroutines and the per-thread scheduler of \<^verbatim>\<open>src/src/coroutine.cc\<close>: creation, the stack of
  running coroutines, \<^verbatim>\<open>Resume\<close>, \<^verbatim>\<open>Yield\<close>, the end of a coroutine, and the copying of shared
  stacks. The machine contexts are not modelled: after a switch, \<open>running_co\<close> is the
  coroutine whose code runs. Objects live in lists and pointers are indices; an address inside
  a stack buffer is an offset. The address of the local variable in \<^verbatim>\<open>SwapContext\<close> is an
  argument, since it depends on how deep the code is in its calls.
\<close>

section \<open>State\<close>

datatype co_state = CO_READY | CO_RUNNING | CO_TERMINAL

datatype co_error = AssertFail | CannotYield | BadAlloc | DivByZeroPool | NullStack

record stack_mem =
  occupy_co :: "nat option"
  stack_sz :: nat
  stack_buffer :: "cell list"

record shared_mem =
  pool_count :: nat
  pool_sz :: nat
  stack_array :: "nat list"
  pool_idx :: nat

record coroutine_attr =
  attr_stack_size :: u64
  attr_shared_mem :: "nat option"

text \<open>The attributes a program gets by default: a private stack of 64 KiB.\<close>

definition CoroutineAttr :: coroutine_attr where
  "CoroutineAttr = \<lparr>attr_stack_size = 64 * 1024, attr_shared_mem = None\<rparr>"

record coroutine =
  co_st :: co_state
  is_main_co :: bool
  use_shared_stk :: bool
  co_stack_mem :: "nat option"
  saved_stack :: "cell list"
  dummy :: "nat option"

record schedule =
  initialised :: bool
  cos :: "coroutine list"
  stacks :: "stack_mem list"
  pools :: "shared_mem list"
  co_stack :: "nat list"
  stack_top :: nat
  running_co :: "nat option"

text \<open>The state of a thread before its first use of the scheduler.\<close>

definition Instance :: schedule where
  "Instance = \<lparr>initialised = False, cos = [], stacks = [], pools = [], co_stack = [], stack_top = 0,
     running_co = None\<rparr>"

text \<open>
  Memory for stacks: \<open>malloc\<close> says whether the library has memory of that size; the contents are
  indeterminate. An allocation that fails throws \<^verbatim>\<open>bad_alloc\<close>.
\<close>

definition AllocUniqueMemory :: "(nat \<Rightarrow> bool) \<Rightarrow> nat \<Rightarrow> co_error + cell list" where
  "AllocUniqueMemory malloc sz = (if malloc sz then Inr (replicate sz None) else Inl BadAlloc)"

definition AllocStack :: "(nat \<Rightarrow> bool) \<Rightarrow> nat \<Rightarrow> co_error + stack_mem" where
  "AllocStack malloc sz =
     res_bind (AllocUniqueMemory malloc sz) (\<lambda>buf. Inr \<lparr>occupy_co = None, stack_sz = sz, stack_buffer = buf\<rparr>)"

text \<open>The loop of \<^verbatim>\<open>AllocSharedMem\<close>: each of its allocations has an answer of its own.\<close>

fun alloc_stacks :: "(nat \<Rightarrow> bool) list \<Rightarrow> nat \<Rightarrow> co_error + stack_mem list" where
  "alloc_stacks [] sz = Inr []"
| "alloc_stacks (malloc # ms) sz =
     res_bind (AllocStack malloc sz) (\<lambda>stk. res_bind (alloc_stacks ms sz) (\<lambda>stks. Inr (stk # stks)))"

definition AllocSharedMem :: "(nat \<Rightarrow> bool) list \<Rightarrow> nat \<Rightarrow> schedule \<Rightarrow> co_error + schedule" where
  "AllocSharedMem mallocs sz s =
     res_bind (alloc_stacks mallocs sz) (\<lambda>stks.
       Inr (s\<lparr>stacks := stacks s @ stks,
         pools := pools s @ [\<lparr>pool_count = length mallocs, pool_sz = sz,
           stack_array = [length (stacks s)..<length (stacks s) + length mallocs], pool_idx = 0\<rparr>]\<rparr>))"

text \<open>\<^verbatim>\<open>GetStackMem\<close> deals the stacks of a pool out in turn.\<close>

definition GetStackMem :: "nat \<Rightarrow> schedule \<Rightarrow> co_error + nat \<times> schedule" where
  "GetStackMem p s =
     (let pool = pools s ! p in
      if pool_count pool = 0 then Inl DivByZeroPool
      else Inr (stack_array pool ! (pool_idx pool mod pool_count pool),
                s\<lparr>pools := (pools s)[p := pool\<lparr>pool_idx := (pool_idx pool + 1) mod 2 ^ 64\<rparr>]\<rparr>))"

section \<open>Creation\<close>

text \<open>The size of a private stack: up to the next multiple of 4096.\<close>

definition round_stack :: "u64 \<Rightarrow> u64" where
  "round_stack sz = (if sz AND 0xFFF \<noteq> 0 then (sz AND NOT 0xFFF) + 0x1000 else sz)"

definition new_co :: "bool \<Rightarrow> nat option \<Rightarrow> coroutine" where
  "new_co shared stk = \<lparr>co_st = CO_READY, is_main_co = False, use_shared_stk = shared, co_stack_mem = stk,
     saved_stack = [], dummy = None\<rparr>"

definition set_co :: "nat \<Rightarrow> (coroutine \<Rightarrow> coroutine) \<Rightarrow> schedule \<Rightarrow> schedule" where
  "set_co c f s = s\<lparr>cos := (cos s)[c := f (cos s ! c)]\<rparr>"

text \<open>
  \<^verbatim>\<open>InitThreadSchedule\<close> creates the main coroutine without attributes: no stack of its own.
\<close>

definition InitThreadSchedule :: "schedule \<Rightarrow> schedule" where
  "InitThreadSchedule s =
     (let m = length (cos s) in
      s\<lparr>initialised := True,
        cos := cos s @ [(new_co False None)\<lparr>is_main_co := True, co_st := CO_RUNNING\<rparr>],
        co_stack := co_stack s @ [m], stack_top := 1, running_co := Some m\<rparr>)"

definition GetThreadSchedule :: "schedule \<Rightarrow> schedule" where
  "GetThreadSchedule s = (if initialised s then s else InitThreadSchedule s)"

text \<open>
  \<^verbatim>\<open>CreateCoroutine\<close> with attributes; the attributes are updated in place. The result is the
  coroutine's index.
\<close>

definition CreateCoroutine ::
  "(nat \<Rightarrow> bool) \<Rightarrow> coroutine_attr \<Rightarrow> schedule \<Rightarrow> co_error + nat \<times> coroutine_attr \<times> schedule" where
  "CreateCoroutine malloc attr s0 =
     (let s = GetThreadSchedule s0;
          attr' = attr\<lparr>attr_stack_size := round_stack (attr_stack_size attr)\<rparr>
      in case attr_shared_mem attr' of
           Some p \<Rightarrow>
             res_bind (GetStackMem p s)
               (\<lambda>(stk, s'). Inr (length (cos s'), attr', s'\<lparr>cos := cos s' @ [new_co True (Some stk)]\<rparr>))
         | None \<Rightarrow>
             res_bind (AllocStack malloc (unat (attr_stack_size attr')))
               (\<lambda>stk. Inr (length (cos s), attr',
                  s\<lparr>stacks := stacks s @ [stk], cos := cos s @ [new_co False (Some (length (stacks s)))]\<rparr>)))"

definition GetCurrentCo :: "schedule \<Rightarrow> nat \<times> schedule" where
  "GetCurrentCo s0 = (let s = GetThreadSchedule s0 in (last (co_stack s), s))"

definition GetInvokeDeepth :: "schedule \<Rightarrow> nat \<times> schedule" where
  "GetInvokeDeepth s0 = (let s = GetThreadSchedule s0 in (length (co_stack s), s))"

section \<open>Switching\<close>

text \<open>
  \<^verbatim>\<open>SaveStack\<close>: without a recorded stack top the code goes on after its first branch and
  asks for as many bytes as the address of the end of the stack, which fails.
\<close>

definition SaveStack :: "nat \<Rightarrow> schedule \<Rightarrow> co_error + schedule" where
  "SaveStack c s =
     (case (dummy (cos s ! c), co_stack_mem (cos s ! c)) of
        (_, None) \<Rightarrow> Inl NullStack
      | (None, Some k) \<Rightarrow> Inl BadAlloc
      | (Some off, Some k) \<Rightarrow>
          Inr (set_co c (\<lambda>co. co\<lparr>saved_stack := drop off (stack_buffer (stacks s ! k))\<rparr>) s))"

text \<open>\<^verbatim>\<open>ResumeStack\<close>: nothing has been saved of a coroutine that never ran.\<close>

definition ResumeStack :: "nat \<Rightarrow> schedule \<Rightarrow> schedule" where
  "ResumeStack c s =
     (case (dummy (cos s ! c), co_stack_mem (cos s ! c)) of
        (Some off, Some k) \<Rightarrow>
          s\<lparr>stacks := (stacks s)[k := (stacks s ! k)
              \<lparr>stack_buffer := memcpy_at off (saved_stack (cos s ! c)) (stack_buffer (stacks s ! k))\<rparr>]\<rparr>
      | _ \<Rightarrow> s)"

definition SwapContext :: "nat \<Rightarrow> nat \<Rightarrow> nat \<Rightarrow> schedule \<Rightarrow> co_error + schedule" where
  "SwapContext prev nxt sp s0 =
     (let s = set_co prev (\<lambda>co. co\<lparr>dummy := Some sp\<rparr>) s0 in
      if use_shared_stk (cos s ! nxt)
      then case co_stack_mem (cos s ! nxt) of
             None \<Rightarrow> Inl NullStack
           | Some k \<Rightarrow>
               (let occ = occupy_co (stacks s ! k);
                    s1 = s\<lparr>stacks := (stacks s)[k := (stacks s ! k)\<lparr>occupy_co := Some nxt\<rparr>]\<rparr>
                in case occ of
                     None \<Rightarrow> Inr s1
                   | Some o_co \<Rightarrow>
                       if o_co \<noteq> nxt then res_bind (SaveStack o_co s1) (\<lambda>s2. Inr (ResumeStack nxt s2))
                       else Inr s1)
      else Inr s)"

text \<open>\<^verbatim>\<open>Yield\<close>, called by the running coroutine.\<close>

definition Yield :: "nat \<Rightarrow> schedule \<Rightarrow> co_error + schedule" where
  "Yield sp s =
     (if length (co_stack s) < 2 then Inl CannotYield
      else let running = co_stack s ! (stack_top s - 1);
               pending = co_stack s ! (stack_top s - 2);
               s1 = s\<lparr>co_stack := butlast (co_stack s), stack_top := stack_top s - 1,
                      running_co := Some pending\<rparr>;
               s2 = set_co pending (\<lambda>co. co\<lparr>co_st := CO_RUNNING\<rparr>)
                      (set_co running (\<lambda>co. co\<lparr>co_st := CO_READY\<rparr>) s1)
           in SwapContext running pending sp s2)"

text \<open>\<^verbatim>\<open>Resume\<close> of coroutine \<open>c\<close>, called by the running coroutine.\<close>

definition Resume :: "nat \<Rightarrow> nat \<Rightarrow> schedule \<Rightarrow> co_error + schedule" where
  "Resume c sp s0 =
     (let s = GetThreadSchedule s0 in
      if co_st (cos s ! c) = CO_TERMINAL then Inr s
      else if co_st (cos s ! c) \<noteq> CO_READY then Inl AssertFail
      else case running_co s of
             None \<Rightarrow> Inl NullStack
           | Some prev \<Rightarrow>
               if co_st (cos s ! prev) \<noteq> CO_RUNNING then Inl AssertFail
               else let s1 = (if length (co_stack s) > 1
                              then set_co prev (\<lambda>co. co\<lparr>co_st := CO_READY\<rparr>) s else s);
                        s2 = set_co c (\<lambda>co. co\<lparr>co_st := CO_RUNNING\<rparr>) s1;
                        s3 = s2\<lparr>co_stack := co_stack s2 @ [c], stack_top := stack_top s2 + 1,
                                running_co := Some c\<rparr>
                    in SwapContext prev c sp s3)"

text \<open>
  The end of \<^verbatim>\<open>CoMainFunc\<close>, after the coroutine's function has returned. The coroutine entered is
  the one on top of the stack.
\<close>

definition CoMainFunc :: "nat \<Rightarrow> schedule \<Rightarrow> co_error + schedule" where
  "CoMainFunc sp s =
     (let running = co_stack s ! (stack_top s - 1);
          pending = co_stack s ! (stack_top s - 2);
          s1 = set_co running (\<lambda>co. co\<lparr>co_st := CO_TERMINAL\<rparr>) s;
          s2 = s1\<lparr>co_stack := butlast (co_stack s1), stack_top := stack_top s1 - 1,
                  running_co := Some pending\<rparr>
      in SwapContext running pending sp s2)"

text \<open>The running coroutine computes: it changes its own stack buffer.\<close>

definition RunOn :: "cell list \<Rightarrow> schedule \<Rightarrow> schedule" where
  "RunOn buf s =
     (case running_co s of
        None \<Rightarrow> s
      | Some c \<Rightarrow>
          (case co_stack_mem (cos s ! c) of
             None \<Rightarrow> s
           | Some k \<Rightarrow> s\<lparr>stacks := (stacks s)[k := (stacks s ! k)\<lparr>stack_buffer := buf\<rparr>]\<rparr>))"

end
