(* ===== verification/Coroutine_Laws.thy ===== *)
theory Coroutine_Laws
  imports Coroutine
begin

text \<open>
  Invariants of the coroutine stack over every run of the scheduler, the bracketing of
  \<^verbatim>\<open>Resume\<close> and \<^verbatim>\<open>Yield\<close>, the state after the end of a nested coroutine, and the
  preservation of shared stacks.
\<close>

section \<open>What a switch leaves alone\<close>

lemma set_co_simps [simp]:
  "initialised (set_co c f s) = initialised s" "stacks (set_co c f s) = stacks s"
  "pools (set_co c f s) = pools s" "co_stack (set_co c f s) = co_stack s"
  "stack_top (set_co c f s) = stack_top s" "running_co (set_co c f s) = running_co s"
  "length (cos (set_co c f s)) = length (cos s)"
  by (simp_all add: set_co_def)

lemma cos_set_co: "cos (set_co c f s) ! d = (if d = c \<and> c < length (cos s) then f (cos s ! c) else cos s ! d)"
  by (cases "c < length (cos s)"; cases "d = c") (simp_all add: set_co_def list_update_beyond)

text \<open>The control part of the state: everything but stack contents and recorded stack tops.\<close>

definition control :: "schedule \<Rightarrow> bool \<times> nat list \<times> nat \<times> nat option \<times> (co_state \<times> bool) list" where
  "control s = (initialised s, co_stack s, stack_top s, running_co s,
     map (\<lambda>co. (co_st co, is_main_co co)) (cos s))"

lemma controlD:
  assumes "control s' = control s"
  shows "initialised s' = initialised s" "co_stack s' = co_stack s" "stack_top s' = stack_top s"
    "running_co s' = running_co s" "length (cos s') = length (cos s)"
    "\<And>c. c < length (cos s) \<Longrightarrow> co_st (cos s' ! c) = co_st (cos s ! c)"
    "\<And>c. c < length (cos s) \<Longrightarrow> is_main_co (cos s' ! c) = is_main_co (cos s ! c)"
proof -
  have m: "map (\<lambda>co. (co_st co, is_main_co co)) (cos s') = map (\<lambda>co. (co_st co, is_main_co co)) (cos s)"
    using assms by (simp add: control_def)
  then show len: "length (cos s') = length (cos s)" by (rule map_eq_imp_length_eq)
  show "co_st (cos s' ! c) = co_st (cos s ! c)" "is_main_co (cos s' ! c) = is_main_co (cos s ! c)"
    if "c < length (cos s)" for c
    using that len arg_cong [OF m, of "\<lambda>xs. xs ! c"] by simp_all
qed (use assms in \<open>simp_all add: control_def\<close>)

lemma control_set_co:
  "(\<And>co. co_st (f co) = co_st co) \<Longrightarrow> (\<And>co. is_main_co (f co) = is_main_co co) \<Longrightarrow>
   control (set_co c f s) = control s"
  by (cases "c < length (cos s)")
    (simp_all add: control_def set_co_def map_update list_update_same_conv list_update_beyond)

lemma control_stacks [simp]: "control (s\<lparr>stacks := x\<rparr>) = control s"
  by (simp add: control_def)

lemma control_SaveStack: "SaveStack c s = Inr s' \<Longrightarrow> control s' = control s"
  by (auto simp: SaveStack_def control_set_co split: option.splits)

lemma control_ResumeStack: "control (ResumeStack c s) = control s"
  by (simp add: ResumeStack_def split: option.splits)

lemma control_SwapContext: "SwapContext prev nxt sp s = Inr s' \<Longrightarrow> control s' = control s"
  by (auto simp: SwapContext_def Let_def control_set_co res_bind_eq_Inr control_ResumeStack
      dest!: control_SaveStack split: if_splits option.splits)

lemma control_RunOn: "control (RunOn buf s) = control s"
  by (simp add: RunOn_def split: option.splits)

section \<open>The scheduler as a transition system\<close>

inductive co_step :: "schedule \<Rightarrow> schedule \<Rightarrow> bool" where
  create: "CreateCoroutine malloc attr s = Inr (c, attr', s') \<Longrightarrow> co_step s s'"
| alloc: "AllocSharedMem mallocs sz s = Inr s' \<Longrightarrow> co_step s s'"
| resume: "c < length (cos s) \<Longrightarrow> Resume c sp s = Inr s' \<Longrightarrow> co_step s s'"
| yield: "Yield sp s = Inr s' \<Longrightarrow> co_step s s'"
| finish: "2 \<le> length (co_stack s) \<Longrightarrow> CoMainFunc sp s = Inr s' \<Longrightarrow> co_step s s'"
| run: "co_step s (RunOn buf s)"

text \<open>
  The stack pointer is the size of the stack, the running coroutine is on top, the main
  coroutine is at the bottom, only there, and always in state running.
\<close>

definition sched_inv :: "schedule \<Rightarrow> bool" where
  "sched_inv s \<longleftrightarrow>
     (if initialised s
      then stack_top s = length (co_stack s) \<and> co_stack s \<noteq> [] \<and>
           running_co s = Some (last (co_stack s)) \<and> (\<forall>c \<in> set (co_stack s). c < length (cos s)) \<and>
           co_st (cos s ! hd (co_stack s)) = CO_RUNNING \<and>
           (\<forall>c < length (cos s). is_main_co (cos s ! c) \<longleftrightarrow> c = hd (co_stack s)) \<and>
           hd (co_stack s) \<notin> set (tl (co_stack s))
      else co_stack s = [] \<and> cos s = [])"

lemma sched_inv_control:
  assumes "control s' = control s" "sched_inv s"
  shows "sched_inv s'"
proof -
  have "co_stack s \<noteq> [] \<Longrightarrow> hd (co_stack s) \<in> set (co_stack s)" by simp
  then show ?thesis
    using assms(2) controlD [OF assms(1)] unfolding sched_inv_def by (auto split: if_splits)
qed

lemma sched_inv_Init: "sched_inv s \<Longrightarrow> \<not> initialised s \<Longrightarrow> sched_inv (InitThreadSchedule s)"
  by (simp add: sched_inv_def InitThreadSchedule_def Let_def new_co_def)

lemma sched_inv_Get:
  "sched_inv s \<Longrightarrow> sched_inv (GetThreadSchedule s) \<and> initialised (GetThreadSchedule s)"
  by (auto simp: GetThreadSchedule_def sched_inv_Init) (simp add: InitThreadSchedule_def Let_def)

lemma sched_inv_new_co:
  assumes "sched_inv s" "initialised s" "\<not> is_main_co co"
  shows "sched_inv (s\<lparr>cos := cos s @ [co]\<rparr>)"
proof -
  have "hd (co_stack s) \<in> set (co_stack s)" using assms(1,2) by (simp add: sched_inv_def)
  then show ?thesis using assms by (auto simp: sched_inv_def nth_append less_Suc_eq)
qed

lemma sched_inv_Create:
  assumes "sched_inv s" "CreateCoroutine malloc attr s = Inr (c, attr', s')"
  shows "sched_inv s'"
proof -
  let ?s = "GetThreadSchedule s"
  note g = sched_inv_Get [OF assms(1)]
  have pool: "control s1 = control ?s" if "GetStackMem p ?s = Inr (k, s1)" for p k s1
    using that by (auto simp: GetStackMem_def Let_def control_def split: if_splits)
  show ?thesis
  proof (cases "attr_shared_mem attr")
    case None
    with assms(2) obtain stk where stk: "AllocStack malloc (unat (round_stack (attr_stack_size attr))) = Inr stk"
        "s' = ?s\<lparr>stacks := stacks ?s @ [stk], cos := cos ?s @ [new_co False (Some (length (stacks ?s)))]\<rparr>"
      by (auto simp: CreateCoroutine_def Let_def res_bind_eq_Inr)
    let ?t = "?s\<lparr>stacks := stacks ?s @ [stk]\<rparr>"
    have "sched_inv ?t" by (rule sched_inv_control [OF _ conjunct1 [OF g]]) simp
    from sched_inv_new_co [OF this, of "new_co False (Some (length (stacks ?s)))"] g stk(2)
    show ?thesis by (simp add: new_co_def)
  next
    case (Some p)
    with assms(2) obtain k s1 where k: "GetStackMem p ?s = Inr (k, s1)"
      "s' = s1\<lparr>cos := cos s1 @ [new_co True (Some k)]\<rparr>"
      by (auto simp: CreateCoroutine_def Let_def res_bind_eq_Inr)
    have "sched_inv s1" "initialised s1"
      using sched_inv_control [OF pool [OF k(1)]] controlD(1) [OF pool [OF k(1)]] g by auto
    with k(2) show ?thesis by (simp add: sched_inv_new_co new_co_def)
  qed
qed

lemma stack_split:
  assumes "sched_inv s" "2 \<le> length (co_stack s)"
  obtains xs p r where "co_stack s = xs @ [p, r]"
    "co_stack s ! (stack_top s - 1) = r" "co_stack s ! (stack_top s - 2) = p"
    "r \<noteq> hd (co_stack s)" "initialised s"
proof -
  have i: "initialised s" using assms by (auto simp: sched_inv_def split: if_splits)
  obtain ys r where y: "co_stack s = ys @ [r]" using assms(2) by (cases "co_stack s" rule: rev_cases) auto
  then obtain xs p where x: "ys = xs @ [p]" using assms(2) by (cases ys rule: rev_cases) auto
  have "stack_top s = length (co_stack s)" and h: "hd (co_stack s) \<notin> set (tl (co_stack s))"
    using assms(1) i by (auto simp: sched_inv_def)
  then have "co_stack s ! (stack_top s - 1) = r" "co_stack s ! (stack_top s - 2) = p"
    using y x by (simp_all add: nth_append)
  moreover have "r \<noteq> hd (co_stack s)" using h y x by (cases xs) auto
  ultimately show thesis using that y x i by simp
qed

lemma sched_inv_Yield:
  assumes inv: "sched_inv s" and y: "Yield sp s = Inr s'"
  shows "sched_inv s'"
proof -
  have len: "2 \<le> length (co_stack s)" using y by (auto simp: Yield_def split: if_splits)
  from stack_split [OF inv len] obtain xs p r where st: "co_stack s = xs @ [p, r]"
      "co_stack s ! (stack_top s - 1) = r" "co_stack s ! (stack_top s - 2) = p" "r \<noteq> hd (co_stack s)"
      "initialised s" .
  let ?s2 = "set_co p (\<lambda>co. co\<lparr>co_st := CO_RUNNING\<rparr>) (set_co r (\<lambda>co. co\<lparr>co_st := CO_READY\<rparr>)
    (s\<lparr>co_stack := butlast (co_stack s), stack_top := stack_top s - 1, running_co := Some p\<rparr>))"
  have "SwapContext r p sp ?s2 = Inr s'"
    using y st(2,3) len by (simp add: Yield_def Let_def)
  moreover have "sched_inv ?s2"
    using inv st by (cases xs) (auto simp: sched_inv_def cos_set_co butlast_append)
  ultimately show ?thesis using sched_inv_control control_SwapContext by blast
qed

lemma sched_inv_finish:
  assumes inv: "sched_inv s" and len: "2 \<le> length (co_stack s)" and f: "CoMainFunc sp s = Inr s'"
  shows "sched_inv s'"
proof -
  from stack_split [OF inv len] obtain xs p r where st: "co_stack s = xs @ [p, r]"
      "co_stack s ! (stack_top s - 1) = r" "co_stack s ! (stack_top s - 2) = p" "r \<noteq> hd (co_stack s)"
      "initialised s" .
  let ?s1 = "set_co r (\<lambda>co. co\<lparr>co_st := CO_TERMINAL\<rparr>) s"
  let ?s2 = "?s1\<lparr>co_stack := butlast (co_stack ?s1), stack_top := stack_top ?s1 - 1, running_co := Some p\<rparr>"
  have "SwapContext r p sp ?s2 = Inr s'" using f st(2,3) by (simp add: CoMainFunc_def Let_def)
  moreover have "sched_inv ?s2"
    using inv st by (cases xs) (auto simp: sched_inv_def cos_set_co butlast_append)
  ultimately show ?thesis using sched_inv_control control_SwapContext by blast
qed

lemma sched_inv_Resume:
  assumes inv0: "sched_inv s0" and c0: "c < length (cos (GetThreadSchedule s0))"
    and r: "Resume c sp s0 = Inr s'"
  shows "sched_inv s'"
proof (cases "co_st (cos (GetThreadSchedule s0) ! c) = CO_TERMINAL")
  case True
  with r sched_inv_Get [OF inv0] show ?thesis by (simp add: Resume_def Let_def)
next
  case False
  define s where "s = GetThreadSchedule s0"
  have inv: "sched_inv s" "initialised s" using sched_inv_Get [OF inv0] by (simp_all add: s_def)
  define prev where "prev = last (co_stack s)"
  have run: "running_co s = Some prev" using inv by (simp add: sched_inv_def prev_def)
  define s1 where "s1 = (if length (co_stack s) > 1 then set_co prev (\<lambda>co. co\<lparr>co_st := CO_READY\<rparr>) s else s)"
  define s3 where "s3 = (set_co c (\<lambda>co. co\<lparr>co_st := CO_RUNNING\<rparr>) s1)
    \<lparr>co_stack := co_stack s @ [c], stack_top := stack_top s + 1, running_co := Some c\<rparr>"
  have ready: "co_st (cos s ! c) = CO_READY" and sw: "SwapContext prev c sp s3 = Inr s'"
    using r False run
    by (auto simp: Resume_def Let_def s_def [symmetric] s1_def s3_def split: if_splits)
  have c: "c < length (cos s)" "c \<noteq> hd (co_stack s)" using c0 ready inv by (auto simp: s_def sched_inv_def)
  have "prev \<noteq> hd (co_stack s)" if l: "length (co_stack s) > 1"
  proof -
    have "2 \<le> length (co_stack s)" using l by simp
    from stack_split [OF inv(1) this] obtain xs p r where "co_stack s = xs @ [p, r]" "r \<noteq> hd (co_stack s)" .
    then show ?thesis by (simp add: prev_def)
  qed
  then have "sched_inv s1" using inv by (auto simp: s1_def sched_inv_def cos_set_co)
  then have "sched_inv s3"
    using inv c by (auto simp: s3_def s1_def sched_inv_def cos_set_co)
  with sw show ?thesis using sched_inv_control control_SwapContext by blast
qed

lemma sched_inv_step:
  assumes "co_step s s'" "sched_inv s"
  shows "sched_inv s'"
  using assms
proof cases
  case (create malloc attr c attr')
  then show ?thesis using assms(2) by (blast intro: sched_inv_Create)
next
  case (alloc mallocs sz)
  then have "control s' = control s" by (auto simp: AllocSharedMem_def res_bind_eq_Inr control_def)
  then show ?thesis using assms(2) by (rule sched_inv_control)
next
  case (resume c sp)
  have "length (cos s) \<le> length (cos (GetThreadSchedule s))"
    by (simp add: GetThreadSchedule_def InitThreadSchedule_def Let_def)
  with resume show ?thesis using assms(2) sched_inv_Resume [of s c sp s'] by simp
next
  case (yield sp)
  then show ?thesis using assms(2) by (blast intro: sched_inv_Yield)
next
  case (finish sp)
  then show ?thesis using assms(2) by (blast intro: sched_inv_finish)
next
  case (run buf)
  then show ?thesis using assms(2) control_RunOn sched_inv_control by blast
qed

section \<open>Properties of the scheduler\<close>

text \<open>
  C5: in every state the scheduler can reach from a fresh thread the stack pointer equals the number of
  coroutines on the stack, the running coroutine is the topmost one, and the main coroutine is
  at the bottom, nowhere else, and in state running.
\<close>

theorem schedule_invariant:
  assumes "co_step\<^sup>*\<^sup>* Instance s"
  shows "sched_inv s"
  using assms
proof (induction rule: rtranclp_induct)
  case base
  then show ?case by (simp add: sched_inv_def Instance_def)
next
  case (step s s')
  then show ?case by (blast intro: sched_inv_step)
qed

text \<open>A thread with a main coroutine and three others, all ready; then with the first one running.\<close>

definition demo :: schedule where
  "demo = \<lparr>initialised = True,
     cos = [(new_co False None)\<lparr>is_main_co := True, co_st := CO_RUNNING\<rparr>, new_co False (Some 0),
       new_co False (Some 1), new_co False (Some 2)],
     stacks = replicate 3 \<lparr>occupy_co = None, stack_sz = 1, stack_buffer = [None]\<rparr>, pools = [], co_stack = [0], stack_top = 1,
     running_co = Some 0\<rparr>"

definition nested_demo :: schedule where
  "nested_demo = demo\<lparr>cos := (cos demo)[1 := (new_co False (Some 0))\<lparr>co_st := CO_RUNNING\<rparr>],
     co_stack := [0, 1], stack_top := 2, running_co := Some 1\<rparr>"

lemma sched_inv_demo: "sched_inv demo" "sched_inv nested_demo"
  by (auto simp: sched_inv_def demo_def nested_demo_def new_co_def nth_Cons' less_Suc_eq)

theorem schedule_invariant_witness:
  "\<exists>s. CreateCoroutine (\<lambda>_. True) \<lparr>attr_stack_size = 100, attr_shared_mem = None\<rparr> Instance =
      Inr (1, \<lparr>attr_stack_size = 4096, attr_shared_mem = None\<rparr>, s) \<and> sched_inv s"
proof -
  let ?a = "\<lparr>attr_stack_size = 100, attr_shared_mem = None\<rparr>"
  have "round_stack 100 = 4096" by (simp add: round_stack_def)
  then obtain s where s: "CreateCoroutine (\<lambda>_. True) ?a Instance = Inr (1, \<lparr>attr_stack_size = 4096, attr_shared_mem = None\<rparr>, s)"
    by (auto simp: CreateCoroutine_def AllocStack_def AllocUniqueMemory_def Let_def GetThreadSchedule_def InitThreadSchedule_def Instance_def)
  then have "co_step\<^sup>*\<^sup>* Instance s" by (blast intro: co_step.create)
  with s schedule_invariant show ?thesis by blast
qed

text \<open>Without memory for its stack no coroutine is created, and a pool needs memory for all its stacks.\<close>

lemma CreateCoroutine_bad_alloc:
  assumes "attr_shared_mem attr = None" and "\<not> malloc (unat (round_stack (attr_stack_size attr)))"
  shows "CreateCoroutine malloc attr s = Inl BadAlloc"
  using assms by (simp add: CreateCoroutine_def AllocStack_def AllocUniqueMemory_def Let_def)

lemma AllocSharedMem_outcome:
  "(\<exists>s'. AllocSharedMem mallocs sz s = Inr s') \<longleftrightarrow> (\<forall>malloc \<in> set mallocs. malloc sz)"
proof -
  have "(\<exists>stks. alloc_stacks mallocs sz = Inr stks) \<longleftrightarrow> (\<forall>malloc \<in> set mallocs. malloc sz)"
    by (induction mallocs) (auto simp: AllocStack_def AllocUniqueMemory_def res_bind_eq_Inr)
  then show ?thesis by (auto simp: AllocSharedMem_def res_bind_eq_Inr)
qed

text \<open>What \<^verbatim>\<open>Resume\<close> does to the control state.\<close>

lemma Resume_control:
  assumes inv: "sched_inv s" "initialised s" and c: "c < length (cos s)"
    and "co_st (cos s ! c) = CO_READY" and run: "running_co s = Some p" and "co_st (cos s ! p) = CO_RUNNING"
    and r: "Resume c sp s = Inr s'"
  shows "co_stack s' = co_stack s @ [c]" "running_co s' = Some c" "stack_top s' = stack_top s + 1"
    "initialised s'" "length (cos s') = length (cos s)"
    "\<And>d. d < length (cos s) \<Longrightarrow> co_st (cos s' ! d) =
      (if d = c then CO_RUNNING else if d = p \<and> 1 < length (co_stack s) then CO_READY else co_st (cos s ! d))"
proof -
  define s1 where "s1 = (if length (co_stack s) > 1 then set_co p (\<lambda>co. co\<lparr>co_st := CO_READY\<rparr>) s else s)"
  define s3 where "s3 = (set_co c (\<lambda>co. co\<lparr>co_st := CO_RUNNING\<rparr>) s1)
    \<lparr>co_stack := co_stack s @ [c], stack_top := stack_top s + 1, running_co := Some c\<rparr>"
  have "SwapContext p c sp s3 = Inr s'"
    using r assms by (simp add: Resume_def Let_def GetThreadSchedule_def s1_def s3_def split: if_splits)
  note C = controlD [OF control_SwapContext [OF this]]
  have "p < length (cos s)" using inv run by (auto simp: sched_inv_def)
  with c show "\<And>d. d < length (cos s) \<Longrightarrow> co_st (cos s' ! d) =
      (if d = c then CO_RUNNING else if d = p \<and> 1 < length (co_stack s) then CO_READY else co_st (cos s ! d))"
    using C(6) by (simp add: s3_def s1_def cos_set_co)
  show "co_stack s' = co_stack s @ [c]" "running_co s' = Some c" "stack_top s' = stack_top s + 1"
    "initialised s'" "length (cos s') = length (cos s)"
    using C inv(2) by (simp_all add: s3_def s1_def)
qed

text \<open>
  C25: \<^verbatim>\<open>Resume\<close> followed, after any computation of the resumed coroutine, by its \<^verbatim>\<open>Yield\<close> brings back
  the coroutine stack, the running coroutine and the state of every coroutine.
\<close>

theorem Resume_Yield_bracket:
  assumes "sched_inv s" "initialised s" "c < length (cos s)" "co_st (cos s ! c) = CO_READY"
    and "running_co s = Some p" "co_st (cos s ! p) = CO_RUNNING"
    and r: "Resume c sp s = Inr s1" and y: "Yield sp' (RunOn buf s1) = Inr s2"
  shows "control s2 = control s"
proof -
  note R = Resume_control [OF assms(1-7)]
  let ?t = "RunOn buf s1"
  note T = controlD [OF control_RunOn [of buf s1]]
  have top: "stack_top s = length (co_stack s)" and ne: "co_stack s \<noteq> []" and last: "last (co_stack s) = p"
    and p: "p < length (cos s)" and sp: "\<forall>d < length (cos s). is_main_co (cos s ! d) \<longleftrightarrow> d = hd (co_stack s)"
    using assms(1,2,5) by (auto simp: sched_inv_def)
  have "co_stack s ! (stack_top s - 1) = p" using top ne last by (simp add: last_conv_nth)
  then have st: "co_stack ?t ! (stack_top ?t - 1) = c" "co_stack ?t ! (stack_top ?t - 2) = p"
    using T(2,3) R(1,3) top ne by (auto simp: nth_append numeral_2_eq_2)
  define t2 where "t2 = set_co p (\<lambda>co. co\<lparr>co_st := CO_RUNNING\<rparr>) (set_co c (\<lambda>co. co\<lparr>co_st := CO_READY\<rparr>)
    (?t\<lparr>co_stack := butlast (co_stack ?t), stack_top := stack_top ?t - 1, running_co := Some p\<rparr>))"
  have "SwapContext c p sp' t2 = Inr s2"
    using y st T(2) R(1) ne by (auto simp: Yield_def Let_def t2_def split: if_splits)
  then have "control s2 = control t2" by (rule control_SwapContext)
  also have "\<dots> = control s"
  proof -
    have "sched_inv s1" using sched_inv_Resume [OF assms(1) _ r] assms(2,3) by (simp add: GetThreadSchedule_def)
    then have m1: "\<forall>d < length (cos s1). is_main_co (cos s1 ! d) \<longleftrightarrow> d = hd (co_stack s1)"
      using R(4) by (simp add: sched_inv_def)
    have "map (\<lambda>co. (co_st co, is_main_co co)) (cos t2) = map (\<lambda>co. (co_st co, is_main_co co)) (cos s)"
      by (rule nth_equalityI)
        (use R(1,5,6) T(5-7) m1 sp assms(3,4,6) p ne in \<open>auto simp: t2_def cos_set_co\<close>)
    then show ?thesis using R T assms(2,5) by (simp add: control_def t2_def)
  qed
  finally show ?thesis .
qed

theorem Resume_Yield_bracket_witness:
  "\<exists>s1 s2. Resume 1 5 demo = Inr s1 \<and> Yield 7 (RunOn [] s1) = Inr s2 \<and> control s2 = control demo"
proof -
  have "case res_bind (Resume 1 5 demo) (\<lambda>s1. Yield 7 (RunOn [] s1)) of Inl e \<Rightarrow> False | Inr s2 \<Rightarrow> True"
    by code_simp
  then obtain s1 s2 where s: "Resume 1 5 demo = Inr s1" "Yield 7 (RunOn [] s1) = Inr s2"
    by (auto simp: res_bind_eq_Inr split: sum.splits)
  from Resume_Yield_bracket [OF sched_inv_demo(1) _ _ _ _ _ s, of 0] s show ?thesis
    by (auto simp: demo_def new_co_def)
qed

text \<open>
  When a coroutine that was resumed by another coroutine (not by the main one) ends, its parent goes on
  in state ready, and from then on every \<^verbatim>\<open>Resume\<close> of a coroutine that has not ended aborts
  on an assertion.
\<close>

theorem nested_finish_blocks_Resume:
  assumes "sched_inv s" "initialised s" "c < length (cos s)" "co_st (cos s ! c) = CO_READY"
    and "running_co s = Some p" "co_st (cos s ! p) = CO_RUNNING" and nested: "1 < length (co_stack s)"
    and r: "Resume c sp s = Inr s1" and f: "CoMainFunc sp' (RunOn buf s1) = Inr s2"
  shows "running_co s2 = Some p \<and> co_st (cos s2 ! p) = CO_READY \<and>
    Resume d sp'' s2 = (if co_st (cos s2 ! d) = CO_TERMINAL then Inr s2 else Inl AssertFail)"
proof -
  note R = Resume_control [OF assms(1-6) r]
  let ?t = "RunOn buf s1"
  note T = controlD [OF control_RunOn [of buf s1]]
  have top: "stack_top s = length (co_stack s)" and ne: "co_stack s \<noteq> []" and last: "last (co_stack s) = p"
    and p: "p < length (cos s)"
    using assms(1,2,5) by (auto simp: sched_inv_def)
  have pc: "p \<noteq> c" using assms(4,6) by auto
  have "co_stack s ! (stack_top s - 1) = p" using top ne last by (simp add: last_conv_nth)
  then have st: "co_stack ?t ! (stack_top ?t - 1) = c" "co_stack ?t ! (stack_top ?t - 2) = p"
    using T(2,3) R(1,3) top ne by (auto simp: nth_append numeral_2_eq_2)
  define t2 where "t2 = (set_co c (\<lambda>co. co\<lparr>co_st := CO_TERMINAL\<rparr>) ?t)
    \<lparr>co_stack := butlast (co_stack ?t), stack_top := stack_top ?t - 1, running_co := Some p\<rparr>"
  have "SwapContext c p sp' t2 = Inr s2" using f st by (simp add: CoMainFunc_def Let_def t2_def)
  note C = controlD [OF control_SwapContext [OF this]]
  have "running_co s2 = Some p" "initialised s2" using C(1,4) T(1) R(4) by (simp_all add: t2_def)
  moreover have "co_st (cos s2 ! p) = CO_READY"
    using C(5,6) T(5,6) R(5,6) pc p nested by (simp add: t2_def cos_set_co)
  ultimately show ?thesis by (auto simp: Resume_def GetThreadSchedule_def Let_def)
qed

theorem nested_finish_blocks_Resume_witness:
  "\<exists>s1 s2. Resume 2 0 nested_demo = Inr s1 \<and> CoMainFunc 0 (RunOn [] s1) = Inr s2 \<and> Resume 3 0 s2 = Inl AssertFail"
proof -
  have "case res_bind (Resume 2 0 nested_demo) (\<lambda>s1. CoMainFunc 0 (RunOn [] s1)) of
      Inl e \<Rightarrow> False | Inr s2 \<Rightarrow> co_st (cos s2 ! 3) = CO_READY"
    by code_simp
  then obtain s1 s2 where s: "Resume 2 0 nested_demo = Inr s1" "CoMainFunc 0 (RunOn [] s1) = Inr s2"
      "co_st (cos s2 ! 3) = CO_READY"
    by (auto simp: res_bind_eq_Inr split: sum.splits)
  from nested_finish_blocks_Resume [OF sched_inv_demo(2) _ _ _ _ _ _ s(1,2), of 1 3 0] s
  show ?thesis by (auto simp: nested_demo_def demo_def new_co_def)
qed

section \<open>Shared stacks\<close>

lemma SwapContext_private:
  assumes "nxt < length (cos s)" "\<not> use_shared_stk (cos s ! nxt)" "prev \<noteq> nxt"
  shows "SwapContext prev nxt sp s = Inr (set_co prev (\<lambda>co. co\<lparr>dummy := Some sp\<rparr>) s)"
  using assms by (simp add: SwapContext_def Let_def cos_set_co)

lemma SwapContext_shared:
  assumes "prev < length (cos s)" "nxt < length (cos s)" "occ < length (cos s)"
    and "prev \<noteq> nxt" "occ \<noteq> nxt" "occ \<noteq> prev"
    and "use_shared_stk (cos s ! nxt)" "co_stack_mem (cos s ! nxt) = Some k" "k < length (stacks s)"
    and "occupy_co (stacks s ! k) = Some occ" "co_stack_mem (cos s ! occ) = Some k"
    and "dummy (cos s ! occ) = Some off"
  shows "\<exists>s'. SwapContext prev nxt sp s = Inr s' \<and> control s' = control s \<and>
    length (stacks s') = length (stacks s) \<and> occupy_co (stacks s' ! k) = Some nxt \<and>
    stack_buffer (stacks s' ! k) = (case dummy (cos s ! nxt) of None \<Rightarrow> stack_buffer (stacks s ! k)
      | Some b \<Rightarrow> memcpy_at b (saved_stack (cos s ! nxt)) (stack_buffer (stacks s ! k))) \<and>
    (\<forall>d. cos s' ! d = (if d = prev then (cos s ! d)\<lparr>dummy := Some sp\<rparr>
      else if d = occ then (cos s ! d)\<lparr>saved_stack := drop off (stack_buffer (stacks s ! k))\<rparr>
      else cos s ! d))"
proof -
  let ?s = "set_co prev (\<lambda>co. co\<lparr>dummy := Some sp\<rparr>) s"
  let ?s1 = "?s\<lparr>stacks := (stacks ?s)[k := (stacks ?s ! k)\<lparr>occupy_co := Some nxt\<rparr>]\<rparr>"
  let ?s2 = "set_co occ (\<lambda>co. co\<lparr>saved_stack := drop off (stack_buffer (stacks s ! k))\<rparr>) ?s1"
  have n: "cos ?s ! nxt = cos s ! nxt" "cos ?s ! occ = cos s ! occ"
    using assms(4,6) by (simp_all add: cos_set_co)
  have "SaveStack occ ?s1 = Inr ?s2" using n(2) assms(9,11,12) by (simp add: SaveStack_def)
  then have sw: "SwapContext prev nxt sp s = Inr (ResumeStack nxt ?s2)"
    using n(1) assms(5,7,8,10) by (simp add: SwapContext_def Let_def)
  have n2: "cos ?s2 ! nxt = cos s ! nxt" using assms(5) n(1) by (simp add: cos_set_co)
  have "cos (ResumeStack nxt ?s2) ! d = (if d = prev then (cos s ! d)\<lparr>dummy := Some sp\<rparr>
      else if d = occ then (cos s ! d)\<lparr>saved_stack := drop off (stack_buffer (stacks s ! k))\<rparr> else cos s ! d)" for d
  proof -
    have "cos (ResumeStack nxt ?s2) = cos ?s2" by (simp add: ResumeStack_def split: option.splits)
    then show ?thesis using assms(1,3,6) by (simp add: cos_set_co)
  qed
  moreover have "occupy_co (stacks (ResumeStack nxt ?s2) ! k) = Some nxt \<and>
      length (stacks (ResumeStack nxt ?s2)) = length (stacks s) \<and>
      stack_buffer (stacks (ResumeStack nxt ?s2) ! k) = (case dummy (cos s ! nxt) of None \<Rightarrow> stack_buffer (stacks s ! k)
      | Some b \<Rightarrow> memcpy_at b (saved_stack (cos s ! nxt)) (stack_buffer (stacks s ! k)))"
    unfolding ResumeStack_def n2 assms(8) using assms(9) by (simp split: option.split)
  moreover have "control (ResumeStack nxt ?s2) = control s"
    using control_SwapContext [OF sw] .
  ultimately show ?thesis using sw by blast
qed

text \<open>The main coroutine resumes \<open>x\<close>, whose stack is occupied by the suspended \<open>y\<close>.\<close>

lemma Resume_shared:
  assumes main: "initialised s" "co_stack s = [m]" "stack_top s = 1" "running_co s = Some m"
      "m < length (cos s)" "co_st (cos s ! m) = CO_RUNNING"
    and xy: "x < length (cos s)" "y < length (cos s)" "x \<noteq> y" "m \<noteq> y" "co_st (cos s ! x) = CO_READY"
      "use_shared_stk (cos s ! x)" "co_stack_mem (cos s ! x) = Some k" "co_stack_mem (cos s ! y) = Some k"
    and occ: "k < length (stacks s)" "occupy_co (stacks s ! k) = Some y" "dummy (cos s ! y) = Some off"
  shows "\<exists>s'. Resume x sp s = Inr s' \<and> initialised s' \<and> co_stack s' = [m, x] \<and> stack_top s' = 2 \<and>
    running_co s' = Some x \<and> length (cos s') = length (cos s) \<and> length (stacks s') = length (stacks s) \<and>
    occupy_co (stacks s' ! k) = Some x \<and>
    stack_buffer (stacks s' ! k) = (case dummy (cos s ! x) of None \<Rightarrow> stack_buffer (stacks s ! k)
      | Some b \<Rightarrow> memcpy_at b (saved_stack (cos s ! x)) (stack_buffer (stacks s ! k))) \<and>
    cos s' ! m = (cos s ! m)\<lparr>dummy := Some sp\<rparr> \<and> cos s' ! x = (cos s ! x)\<lparr>co_st := CO_RUNNING\<rparr> \<and>
    cos s' ! y = (cos s ! y)\<lparr>saved_stack := drop off (stack_buffer (stacks s ! k))\<rparr>"
proof -
  have mx: "m \<noteq> x" using main(6) xy(5) by auto
  define t where "t = (set_co x (\<lambda>co. co\<lparr>co_st := CO_RUNNING\<rparr>) s)
    \<lparr>co_stack := [m, x], stack_top := Suc 1, running_co := Some x\<rparr>"
  have R: "Resume x sp s = SwapContext m x sp t"
    using main xy(5) by (simp add: Resume_def Let_def GetThreadSchedule_def t_def)
  have co: "cos t ! x = (cos s ! x)\<lparr>co_st := CO_RUNNING\<rparr>" "cos t ! m = cos s ! m" "cos t ! y = cos s ! y"
      "length (cos t) = length (cos s)" "stacks t = stacks s"
    using mx xy(1,3) by (simp_all add: t_def cos_set_co)
  obtain s' where s': "SwapContext m x sp t = Inr s'" "control s' = control t" "length (stacks s') = length (stacks t)"
      "occupy_co (stacks s' ! k) = Some x"
      "stack_buffer (stacks s' ! k) = (case dummy (cos t ! x) of None \<Rightarrow> stack_buffer (stacks t ! k)
        | Some b \<Rightarrow> memcpy_at b (saved_stack (cos t ! x)) (stack_buffer (stacks t ! k)))"
      "\<forall>d. cos s' ! d = (if d = m then (cos t ! d)\<lparr>dummy := Some sp\<rparr>
        else if d = y then (cos t ! d)\<lparr>saved_stack := drop off (stack_buffer (stacks t ! k))\<rparr> else cos t ! d)"
    using SwapContext_shared [of m t x y k off sp] co main(5) xy mx occ by auto
  have "initialised t" "co_stack t = [m, x]" "stack_top t = 2" "running_co t = Some x"
    using main(1) by (simp_all add: t_def)
  then have "initialised s'" "co_stack s' = [m, x]" "stack_top s' = 2" "running_co s' = Some x"
      "length (cos s') = length (cos s)"
    using controlD [OF s'(2)] co(4) by simp_all
  moreover have "stack_buffer (stacks s' ! k) = (case dummy (cos s ! x) of None \<Rightarrow> stack_buffer (stacks s ! k)
      | Some b \<Rightarrow> memcpy_at b (saved_stack (cos s ! x)) (stack_buffer (stacks s ! k)))"
    using s'(5) co by (cases "dummy (cos s ! x)") simp_all
  moreover have "cos s' ! m = (cos s ! m)\<lparr>dummy := Some sp\<rparr>" "cos s' ! x = (cos s ! x)\<lparr>co_st := CO_RUNNING\<rparr>"
      "cos s' ! y = (cos s ! y)\<lparr>saved_stack := drop off (stack_buffer (stacks s ! k))\<rparr>"
    using s'(6) co mx xy(3,4) by simp_all
  ultimately show ?thesis using R s'(1,3,4) co(5) by (intro exI [of _ s']) simp
qed

text \<open>
  C6: two coroutines can share a stack. When the main coroutine, with one of them (\<open>a\<close>) suspended
  at the stack offset \<open>off\<close> and occupying the stack, resumes the other one (\<open>b\<close>), lets it overwrite the
  whole stack and yield, and then resumes \<open>a\<close>, all three switches succeed and \<open>a\<close> finds its part
  of the stack, from \<open>off\<close> to the end, as it left it.
\<close>

theorem shared_stack_preserved:
  assumes inv: "sched_inv s" "initialised s" "co_stack s = [m]" "\<not> use_shared_stk (cos s ! m)"
    and ab: "a < length (cos s)" "b < length (cos s)" "a \<noteq> b"
      "co_st (cos s ! a) = CO_READY" "co_st (cos s ! b) = CO_READY"
      "use_shared_stk (cos s ! a)" "use_shared_stk (cos s ! b)"
      "co_stack_mem (cos s ! a) = Some k" "co_stack_mem (cos s ! b) = Some k" "k < length (stacks s)"
    and occ: "occupy_co (stacks s ! k) = Some a" "dummy (cos s ! a) = Some off"
    and len: "length buf = length (stack_buffer (stacks s ! k))" "off \<le> length buf"
  shows "\<exists>s1 s2 s3. Resume b sp1 s = Inr s1 \<and> Yield sp2 (RunOn buf s1) = Inr s2 \<and> Resume a sp3 s2 = Inr s3 \<and>
    running_co s3 = Some a \<and>
    drop off (stack_buffer (stacks s3 ! k)) = drop off (stack_buffer (stacks s ! k))"
proof -
  let ?L = "stack_buffer (stacks s ! k)"
  have m: "m < length (cos s)" "co_st (cos s ! m) = CO_RUNNING" "running_co s = Some m" "stack_top s = 1"
    using inv(1-3) by (auto simp: sched_inv_def)
  then have ne: "m \<noteq> a" "m \<noteq> b" using ab(4,5) by auto
  obtain s1 where s1: "Resume b sp1 s = Inr s1" "initialised s1" "co_stack s1 = [m, b]" "stack_top s1 = 2"
      "running_co s1 = Some b" "length (cos s1) = length (cos s)" "length (stacks s1) = length (stacks s)"
      "occupy_co (stacks s1 ! k) = Some b" "cos s1 ! m = (cos s ! m)\<lparr>dummy := Some sp1\<rparr>"
      "cos s1 ! b = (cos s ! b)\<lparr>co_st := CO_RUNNING\<rparr>" "cos s1 ! a = (cos s ! a)\<lparr>saved_stack := drop off ?L\<rparr>"
    using Resume_shared [OF inv(2,3) m(4,3,1,2) ab(2,1) ab(3) [symmetric] ne(1) ab(5,7,9,8,10) occ] by blast
  define r1 where "r1 = RunOn buf s1"
  have r1: "cos r1 = cos s1" "co_stack r1 = [m, b]" "stack_top r1 = 2" "initialised r1"
      "stacks r1 = (stacks s1)[k := (stacks s1 ! k)\<lparr>stack_buffer := buf\<rparr>]"
    using s1 ab(9) by (simp_all add: r1_def RunOn_def)
  define t2 where "t2 = set_co m (\<lambda>co. co\<lparr>co_st := CO_RUNNING\<rparr>) (set_co b (\<lambda>co. co\<lparr>co_st := CO_READY\<rparr>)
    (r1\<lparr>co_stack := [m], stack_top := 1, running_co := Some m\<rparr>))"
  define s2 where "s2 = set_co b (\<lambda>co. co\<lparr>dummy := Some sp2\<rparr>) t2"
  have "Yield sp2 r1 = SwapContext b m sp2 t2" by (simp add: Yield_def Let_def r1(2,3) t2_def)
  also have "\<dots> = Inr s2" unfolding s2_def
    by (rule SwapContext_private) (use m ne s1 r1(1) inv(4) in \<open>auto simp: t2_def cos_set_co\<close>)
  finally have Y: "Yield sp2 (RunOn buf s1) = Inr s2" by (simp add: r1_def)
  have f2: "co_stack s2 = [m]" "stack_top s2 = 1" "running_co s2 = Some m" "initialised s2" "stacks s2 = stacks r1"
      "length (cos s2) = length (cos s)"
    using r1 s1 by (simp_all add: s2_def t2_def)
  have co2: "cos s2 ! a = cos s1 ! a" "dummy (cos s2 ! b) = Some sp2" "co_stack_mem (cos s2 ! b) = Some k"
      "co_st (cos s2 ! m) = CO_RUNNING"
    using ne ab r1(1) s1 m by (auto simp: s2_def t2_def cos_set_co)
  have "\<exists>s3. Resume a sp3 s2 = Inr s3 \<and> running_co s3 = Some a \<and>
      stack_buffer (stacks s3 ! k) = memcpy_at off (drop off ?L) buf"
    using Resume_shared [OF f2(4,1,2,3), of a b k sp2 sp3] f2 co2 m ab ne occ s1 r1(5) by auto
  moreover have "drop off (memcpy_at off (drop off ?L) buf) = drop off ?L" using len by (simp add: memcpy_at_def)
  ultimately show ?thesis using s1(1) Y by fastforce
qed

text \<open>Two coroutines on one stack of two bytes, the first one suspended at offset 1.\<close>

definition shared_demo :: schedule where
  "shared_demo = \<lparr>initialised = True,
     cos = [(new_co False None)\<lparr>is_main_co := True, co_st := CO_RUNNING\<rparr>,
       (new_co True (Some 0))\<lparr>dummy := Some 1\<rparr>, new_co True (Some 0)],
     stacks = [\<lparr>occupy_co = Some 1, stack_sz = 2, stack_buffer = [Some 7, Some 8]\<rparr>], pools = [],
     co_stack = [0], stack_top = 1, running_co = Some 0\<rparr>"

theorem shared_stack_preserved_witness:
  "\<exists>s1 s2 s3. Resume 2 0 shared_demo = Inr s1 \<and> Yield 0 (RunOn [Some 1, Some 2] s1) = Inr s2 \<and>
    Resume 1 0 s2 = Inr s3 \<and> running_co s3 = Some 1 \<and> drop 1 (stack_buffer (stacks s3 ! 0)) = [Some 8]"
proof -
  have "sched_inv shared_demo"
    by (auto simp: sched_inv_def shared_demo_def new_co_def nth_Cons' less_Suc_eq)
  from shared_stack_preserved [OF this, of 0 1 2 0 1 "[Some 1, Some 2]" 0 0 0] show ?thesis
    by (simp add: shared_demo_def new_co_def)
qed

section \<open>Stack sizes\<close>

lemma unat_and_mask: "unat (w AND mask n :: 'a::len word) = unat w mod 2 ^ n"
  by (metis take_bit_eq_mask take_bit_eq_mod unsigned_take_bit_eq)

lemma unat_and_not_mask: "unat (w AND NOT (mask n) :: 'a::len word) = unat w div 2 ^ n * 2 ^ n"
proof -
  have "w = (w AND NOT (mask n)) OR (w AND mask n)"
    by (rule bit_word_eqI) (auto simp: bit_simps)
  also have "\<dots> = (w AND NOT (mask n)) + (w AND mask n)"
    by (rule disjunctive_add [symmetric]) (auto simp: bit_simps)
  finally have "w AND NOT (mask n) = w - (w AND mask n)" by (metis add_diff_cancel_right')
  moreover have "w AND mask n \<le> w" by (rule word_and_le2)
  moreover note unat_and_mask [of w n]
  ultimately have "unat (w AND NOT (mask n)) = unat w - unat w mod 2 ^ n" by (simp add: unat_sub)
  then show ?thesis by (simp add: minus_mod_eq_div_mult)
qed

text \<open>
  The size of a private stack is rounded up to a multiple of 4096: never below the requested size and
  less than 4096 above it, for every request the rounding does not wrap around at; a request in the
  last 4095 values of the type wraps to a stack of size 0.
\<close>

theorem round_stack_bounds:
  "if unat sz \<le> 2 ^ 64 - 4096
   then 4096 dvd unat (round_stack sz) \<and> unat sz \<le> unat (round_stack sz) \<and> unat (round_stack sz) < unat sz + 4096
   else round_stack sz = 0"
proof -
  have m: "(0xFFF :: u64) = mask 12" by (simp add: mask_eq_exp_minus_1)
  have mod: "unat (sz AND 0xFFF) = unat sz mod 4096"
    unfolding m unat_and_mask by simp
  then have z: "sz AND 0xFFF = 0 \<longleftrightarrow> unat sz mod 4096 = 0" by (metis unat_eq_zero)
  define q where "q = unat sz div 4096"
  have dn: "unat (sz AND NOT 0xFFF) = q * 4096" unfolding m unat_and_not_mask by (simp add: q_def)
  have lt: "unat sz < 2 ^ 64" using unsigned_less [of sz] by simp
  have split: "unat sz = q * 4096 + unat sz mod 4096" by (simp add: q_def)
  have r: "unat ((sz AND NOT 0xFFF) + 0x1000) = (q * 4096 + 4096) mod 2 ^ 64"
    using dn by (simp add: unat_word_ariths)
  show ?thesis
  proof (cases "unat sz \<le> 2 ^ 64 - 4096")
    case True
    show ?thesis
    proof (cases "unat sz mod 4096 = 0")
      case True
      with z \<open>unat sz \<le> _\<close> show ?thesis by (auto simp: round_stack_def dvd_eq_mod_eq_0)
    next
      case False
      then have "q * 4096 < 2 ^ 64 - 4096" using split True by linarith
      then have "q * 4096 + 4096 < 2 ^ 64" by simp
      then have u: "unat (round_stack sz) = q * 4096 + 4096" using r z False by (simp add: round_stack_def)
      have "unat sz mod 4096 < 4096" by simp
      then have "unat sz \<le> q * 4096 + 4096" "q * 4096 + 4096 < unat sz + 4096"
        using split False by linarith+
      with u True show ?thesis by simp
    qed
  next
    case False
    then have "18446744073709547520 < unat sz" "unat sz < 18446744073709551616" using lt by simp_all
    moreover have "unat sz mod 4096 < 4096" by simp
    ultimately have q: "q = 4503599627370495" using split by linarith
    then have "unat sz mod 4096 \<noteq> 0" using split \<open>18446744073709547520 < unat sz\<close> by linarith
    with q have "unat (round_stack sz) = 0" using r z by (simp add: round_stack_def)
    then have "round_stack sz = 0" by (rule unat_eq_zero [THEN iffD1])
    with False show ?thesis by simp
  qed
qed

end
