(* ===== verification/Epoll.thy ===== *)
theory Epoll
  imports Timer_Laws
begin

text \<open>
  The event registry of \<^verbatim>\<open>src/src/epoll.cc\<close> and the event loop of \<^verbatim>\<open>src/src/coroutine.cc\<close>.
  The kernel is outside: the calls of \<^verbatim>\<open>epoll_ctl\<close> are logged in order, the results of
  \<^verbatim>\<open>epoll_wait\<close> and the clock are arguments. Contexts live in a list and a shared pointer is
  an index, or \<open>None\<close> for a null one. The address of a context is a parameter \<open>adr\<close>, since the code
  stores it in the event data and reads its low half back as a descriptor. The registry
  inherits from the timer wheel, which is a state of its own here.
\<close>

section \<open>State\<close>

definition READ :: u32 where "READ = 1"
definition WRITE :: u32 where "WRITE = 4"

definition EPOLLIN :: u32 where "EPOLLIN = 1"
definition EPOLLOUT :: u32 where "EPOLLOUT = 4"
definition EPOLLET :: u32 where "EPOLLET = 0x80000000"

lemmas event_bits = READ_def WRITE_def EPOLLIN_def EPOLLOUT_def EPOLLET_def

record 'k event_ctx =
  ev_type :: u32
  ev_fd :: int
  r_callback :: "'k option"
  w_callback :: "'k option"
  r_co :: "nat option"
  w_co :: "nat option"

text \<open>The union \<^verbatim>\<open>epoll_data\<close>: a descriptor, or the address of a context.\<close>

datatype ev_data = DataFd int | DataPtr nat

datatype ctl_op = CtlAdd | CtlMod | CtlDel

record ctl_call =
  ctl_op :: ctl_op
  ctl_fd :: int
  ctl_events :: u32
  ctl_data :: ev_data

record 'k epoll =
  reg_event :: "int \<rightharpoonup> nat option"
  ctxs :: "'k event_ctx list"
  nonblocking :: "int set"
  stoped :: bool
  ctl_log :: "ctl_call list"

datatype epoll_error = NullCtx

definition Epoll :: "'k epoll" where
  "Epoll = \<lparr>reg_event = Map.empty, ctxs = [], nonblocking = {}, stoped = False, ctl_log = []\<rparr>"

definition StopEventLoop :: "bool \<Rightarrow> 'k epoll \<Rightarrow> 'k epoll" where
  "StopEventLoop val ep = ep\<lparr>stoped := val\<rparr>"

text \<open>
  The instance of a thread: its descriptor once it is initialised, and a count that every access
  raises but only the destructor lowers. The descriptors \<^verbatim>\<open>epoll_create1\<close> returns are arguments.
\<close>

record thread_epoll =
  t_epoll :: "int option"
  reference_cnt :: int
  closed_epfds :: "int list"

definition InitThreadEpoll :: "int \<Rightarrow> thread_epoll \<Rightarrow> thread_epoll" where
  "InitThreadEpoll epfd t = t\<lparr>t_epoll := Some epfd\<rparr>"

definition GetThreadEpoll :: "int \<Rightarrow> thread_epoll \<Rightarrow> thread_epoll" where
  "GetThreadEpoll epfd t =
     (let t1 = (if t_epoll t = None then InitThreadEpoll epfd t else t)
      in t1\<lparr>reference_cnt := reference_cnt t1 + 1\<rparr>)"

definition EpollDestructor :: "thread_epoll \<Rightarrow> thread_epoll" where
  "EpollDestructor t =
     (let t1 = t\<lparr>reference_cnt := reference_cnt t - 1\<rparr> in
      if reference_cnt t1 = 0
      then t1\<lparr>closed_epfds := closed_epfds t1 @ (case t_epoll t1 of Some fd \<Rightarrow> [fd] | None \<Rightarrow> [])\<rparr> else t1)"

section \<open>Registration\<close>

definition event_mask :: "u32 \<Rightarrow> u32" where
  "event_mask type =
     (if type AND READ \<noteq> 0 then EPOLLIN OR EPOLLET else 0) OR
     (if type AND WRITE \<noteq> 0 then EPOLLOUT OR EPOLLET else 0)"

definition log_ctl :: "ctl_op \<Rightarrow> int \<Rightarrow> u32 \<Rightarrow> ev_data \<Rightarrow> 'k epoll \<Rightarrow> 'k epoll" where
  "log_ctl op fd evs dat ep =
     ep\<lparr>ctl_log := ctl_log ep @ [\<lparr>ctl_op = op, ctl_fd = fd, ctl_events = evs, ctl_data = dat\<rparr>]\<rparr>"

text \<open>The first overload: callbacks and coroutines for each direction.\<close>

definition RegisterEvent ::
  "u32 \<Rightarrow> int \<Rightarrow> 'k option \<Rightarrow> 'k option \<Rightarrow> nat option \<Rightarrow> nat option \<Rightarrow> 'k epoll \<Rightarrow> epoll_error + 'k epoll" where
  "RegisterEvent type fd r_func w_func rco wco ep0 =
     (let ep = ep0\<lparr>nonblocking := insert fd (nonblocking ep0)\<rparr> in
      case reg_event ep fd of
        None \<Rightarrow>
          (let ctx = \<lparr>ev_type = type, ev_fd = fd, r_callback = r_func, w_callback = w_func,
                      r_co = rco, w_co = wco\<rparr>
           in Inr (log_ctl CtlAdd fd (event_mask type) (DataFd fd)
                (ep\<lparr>ctxs := ctxs ep @ [ctx], reg_event := (reg_event ep)(fd \<mapsto> Some (length (ctxs ep)))\<rparr>)))
      | Some None \<Rightarrow> Inl NullCtx
      | Some (Some p) \<Rightarrow>
          if ev_type (ctxs ep ! p) AND type \<noteq> 0 then Inr ep
          else Inr (log_ctl CtlMod fd (event_mask type) (DataFd fd)
                 (ep\<lparr>ctxs := (ctxs ep)[p := (ctxs ep ! p)\<lparr>ev_type := type, r_callback := r_func, r_co := rco,
                      w_callback := w_func, w_co := wco\<rparr>]\<rparr>)))"

text \<open>The second overload: a context of the caller's.\<close>

definition RegisterEventCtx :: "u32 \<Rightarrow> int \<Rightarrow> nat \<Rightarrow> 'k epoll \<Rightarrow> 'k epoll" where
  "RegisterEventCtx type fd p ep0 =
     (let ep = ep0\<lparr>nonblocking := insert fd (nonblocking ep0)\<rparr>;
          op = (if reg_event ep fd = None then CtlAdd else CtlMod)
      in log_ctl op fd (event_mask type) (DataPtr p) (ep\<lparr>reg_event := (reg_event ep)(fd \<mapsto> Some p)\<rparr>))"

definition CancelEvent :: "u32 \<Rightarrow> int \<Rightarrow> 'k epoll \<Rightarrow> epoll_error + 'k epoll" where
  "CancelEvent type fd ep =
     (case reg_event ep fd of
        None \<Rightarrow> Inr ep
      | Some None \<Rightarrow> Inl NullCtx
      | Some (Some p) \<Rightarrow>
          if ev_type (ctxs ep ! p) AND type = 0 then Inr ep
          else
            (let evs0 = EPOLLIN OR EPOLLOUT OR EPOLLET;
                 evs1 = (if type AND READ \<noteq> 0 then evs0 AND NOT EPOLLIN else evs0);
                 ty1 = (if type AND READ \<noteq> 0 then ev_type (ctxs ep ! p) AND NOT READ else ev_type (ctxs ep ! p));
                 evs2 = (if type AND WRITE \<noteq> 0 then evs1 AND NOT EPOLLOUT else evs1);
                 ty2 = (if type AND WRITE \<noteq> 0 then ty1 AND NOT WRITE else ty1);
                 ep1 = ep\<lparr>ctxs := (ctxs ep)[p := (ctxs ep ! p)\<lparr>ev_type := ty2\<rparr>]\<rparr>
             in if ty2 = 0
                then Inr (log_ctl CtlDel fd evs2 (DataPtr p) (ep1\<lparr>reg_event := (reg_event ep1)(fd := None)\<rparr>))
                else Inr (log_ctl CtlMod fd evs2 (DataPtr p) ep1)))"

section \<open>The event loop\<close>

definition MAX_TIMEOUT :: nat where "MAX_TIMEOUT = 1000"

definition wait_timeout :: "nat \<Rightarrow> nat" where
  "wait_timeout interval =
     (if interval = 0 then MAX_TIMEOUT else min ((interval + 1) mod 2 ^ 64) MAX_TIMEOUT)"

text \<open>The descriptor read back from the event data.\<close>

fun data_fd :: "(nat \<Rightarrow> int) \<Rightarrow> ev_data \<Rightarrow> int" where
  "data_fd adr (DataFd fd) = fd"
| "data_fd adr (DataPtr p) = adr p"

text \<open>
  One reported event. \<open>run\<close> is what a callback or a resumed coroutine does to the registry and
  its environment. Indexing the map creates a null entry for an unknown descriptor.
\<close>

definition run_handler ::
  "('k task \<Rightarrow> 'k epoll \<times> 'e \<Rightarrow> 'k epoll \<times> 'e) \<Rightarrow> 'k option \<Rightarrow> nat option \<Rightarrow> 'k epoll \<times> 'e \<Rightarrow> 'k epoll \<times> 'e" where
  "run_handler run cb co st =
     (case cb of Some f \<Rightarrow> run (Func f) st
      | None \<Rightarrow> (case co of Some c \<Rightarrow> run (Resume c) st | None \<Rightarrow> st))"

definition dispatch ::
  "(nat \<Rightarrow> int) \<Rightarrow> ('k task \<Rightarrow> 'k epoll \<times> 'e \<Rightarrow> 'k epoll \<times> 'e) \<Rightarrow> u32 \<times> ev_data \<Rightarrow> 'k epoll \<times> 'e \<Rightarrow>
   epoll_error + 'k epoll \<times> 'e" where
  "dispatch adr run ev st =
     (case reg_event (fst st) (data_fd adr (snd ev)) of
        Some (Some p) \<Rightarrow>
          (let st1 = (if fst ev AND EPOLLIN \<noteq> 0
                      then run_handler run (r_callback (ctxs (fst st) ! p)) (r_co (ctxs (fst st) ! p)) st else st);
               st2 = (if fst ev AND EPOLLOUT \<noteq> 0
                      then run_handler run (w_callback (ctxs (fst st1) ! p)) (w_co (ctxs (fst st1) ! p)) st1 else st1)
           in Inr st2)
      | entry \<Rightarrow>
          if fst ev AND (EPOLLIN OR EPOLLOUT) \<noteq> 0 then Inl NullCtx
          else if entry = None
          then Inr ((fst st)\<lparr>reg_event := (reg_event (fst st))(data_fd adr (snd ev) \<mapsto> None)\<rparr>, snd st)
          else Inr st)"

fun dispatch_all ::
  "(nat \<Rightarrow> int) \<Rightarrow> ('k task \<Rightarrow> 'k epoll \<times> 'e \<Rightarrow> 'k epoll \<times> 'e) \<Rightarrow> (u32 \<times> ev_data) list \<Rightarrow> 'k epoll \<times> 'e \<Rightarrow>
   epoll_error + 'k epoll \<times> 'e" where
  "dispatch_all adr run [] st = Inr st"
| "dispatch_all adr run (ev # evs) st = res_bind (dispatch adr run ev st) (dispatch_all adr run evs)"

section \<open>What the kernel has been told\<close>

text \<open>
  The interest list after a log of calls, and whether every call fits it: a descriptor is
  added when absent, modified and deleted when present.
\<close>

definition ctl_step :: "ctl_call \<Rightarrow> (int \<rightharpoonup> u32 \<times> ev_data) \<Rightarrow> (int \<rightharpoonup> u32 \<times> ev_data)" where
  "ctl_step c m = (case ctl_op c of
       CtlDel \<Rightarrow> m(ctl_fd c := None)
     | _ \<Rightarrow> m(ctl_fd c \<mapsto> (ctl_events c, ctl_data c)))"

definition interest :: "ctl_call list \<Rightarrow> (int \<rightharpoonup> u32 \<times> ev_data)" where
  "interest cs = fold ctl_step cs Map.empty"

fun ctl_fits :: "ctl_call list \<Rightarrow> (int \<rightharpoonup> u32 \<times> ev_data) \<Rightarrow> bool" where
  "ctl_fits [] m = True"
| "ctl_fits (c # cs) m =
     ((if ctl_op c = CtlAdd then m (ctl_fd c) = None else m (ctl_fd c) \<noteq> None) \<and> ctl_fits cs (ctl_step c m))"

lemma interest_snoc [simp]: "interest (cs @ [c]) = ctl_step c (interest cs)"
  by (simp add: interest_def)

lemma ctl_fits_append: "ctl_fits (cs @ ds) m \<longleftrightarrow> ctl_fits cs m \<and> ctl_fits ds (fold ctl_step cs m)"
  by (induction cs arbitrary: m) auto

text \<open>
  The registry and the interest list agree: the same descriptors, with the mask of the
  context's event type; contexts are not shared between descriptors.
\<close>

definition some_type :: "u32 \<Rightarrow> bool" where
  "some_type type \<longleftrightarrow> type = READ \<or> type = WRITE \<or> type = READ OR WRITE"

definition fd_ok :: "'k event_ctx list \<Rightarrow> nat option option \<Rightarrow> (u32 \<times> ev_data) option \<Rightarrow> int \<Rightarrow> bool" where
  "fd_ok cs entry told fd =
     (case entry of
        None \<Rightarrow> told = None
      | Some None \<Rightarrow> False
      | Some (Some p) \<Rightarrow> p < length cs \<and> ev_fd (cs ! p) = fd \<and> some_type (ev_type (cs ! p)) \<and>
          map_option fst told = Some (event_mask (ev_type (cs ! p))))"

definition epoll_inv :: "'k epoll \<Rightarrow> bool" where
  "epoll_inv ep \<longleftrightarrow> ctl_fits (ctl_log ep) Map.empty \<and>
     (\<forall>fd. fd_ok (ctxs ep) (reg_event ep fd) (interest (ctl_log ep) fd) fd)"

lemma fd_okD:
  "fd_ok cs entry told fd \<Longrightarrow> entry = None \<longleftrightarrow> told = None"
  "fd_ok cs entry told fd \<Longrightarrow> entry \<noteq> Some None"
  by (auto simp: fd_ok_def split: option.splits)

lemma fd_ok_cong:
  "fd_ok cs entry told fd \<Longrightarrow> (\<And>p. entry = Some (Some p) \<Longrightarrow> p < length cs' \<and> cs' ! p = cs ! p) \<Longrightarrow>
   fd_ok cs' entry told fd"
  by (auto simp: fd_ok_def split: option.splits)

lemma epoll_inv_Epoll: "epoll_inv Epoll"
  by (simp add: epoll_inv_def Epoll_def interest_def fd_ok_def)

lemma log_ctl_simps [simp]:
  "reg_event (log_ctl op fd evs dat ep) = reg_event ep" "ctxs (log_ctl op fd evs dat ep) = ctxs ep"
  "ctl_log (log_ctl op fd evs dat ep) = ctl_log ep @ [\<lparr>ctl_op = op, ctl_fd = fd, ctl_events = evs, ctl_data = dat\<rparr>]"
  "nonblocking (log_ctl op fd evs dat ep) = nonblocking ep"
  by (simp_all add: log_ctl_def)

text \<open>Telling the kernel about one descriptor while changing that descriptor's context only.\<close>

lemma epoll_inv_log:
  assumes inv: "epoll_inv ep"
    and op: "if op = CtlAdd then reg_event ep fd = None else reg_event ep fd \<noteq> None"
    and other: "\<And>fd'. fd' \<noteq> fd \<Longrightarrow> reg_event ep' fd' = reg_event ep fd'"
      "\<And>fd' p. fd' \<noteq> fd \<Longrightarrow> reg_event ep fd' = Some (Some p) \<Longrightarrow> p < length (ctxs ep') \<and> ctxs ep' ! p = ctxs ep ! p"
    and log: "ctl_log ep' = ctl_log ep"
    and here: "if op = CtlDel then reg_event ep' fd = None
      else \<exists>p. reg_event ep' fd = Some (Some p) \<and> p < length (ctxs ep') \<and> ev_fd (ctxs ep' ! p) = fd \<and>
        some_type (ev_type (ctxs ep' ! p)) \<and> evs = event_mask (ev_type (ctxs ep' ! p))"
  shows "epoll_inv (log_ctl op fd evs dat ep')"
proof -
  have ok: "fd_ok (ctxs ep) (reg_event ep fd') (interest (ctl_log ep) fd') fd'" for fd'
    using inv by (simp add: epoll_inv_def)
  have fits: "ctl_fits (ctl_log (log_ctl op fd evs dat ep')) Map.empty"
    using inv op fd_okD(1) [OF ok [of fd]] by (auto simp: epoll_inv_def log ctl_fits_append interest_def split: if_splits)
  have "fd_ok (ctxs ep') (reg_event ep' fd') (interest (ctl_log (log_ctl op fd evs dat ep')) fd') fd'" for fd'
  proof (cases "fd' = fd")
    case True
    with here show ?thesis by (cases op) (auto simp: log ctl_step_def fd_ok_def)
  next
    case False
    then have "interest (ctl_log (log_ctl op fd evs dat ep')) fd' = interest (ctl_log ep) fd'"
      by (simp add: log ctl_step_def split: ctl_op.split)
    with fd_ok_cong [OF ok [of fd'], of "ctxs ep'"] other False show ?thesis by simp
  qed
  with fits show ?thesis by (simp add: epoll_inv_def)
qed

lemma some_type_cases:
  assumes "some_type type"
  obtains "type = 1" | "type = 4" | "type = 5"
  using assms by (auto simp: some_type_def event_bits)

lemma ctx_of_other:
  assumes "epoll_inv ep" "reg_event ep fd = Some (Some p)" "reg_event ep fd' = Some (Some p')" "fd' \<noteq> fd"
  shows "p' \<noteq> p" "p' < length (ctxs ep)" "p < length (ctxs ep)"
proof -
  have "fd_ok (ctxs ep) (reg_event ep fd) (interest (ctl_log ep) fd) fd"
    "fd_ok (ctxs ep) (reg_event ep fd') (interest (ctl_log ep) fd') fd'"
    using assms(1) by (simp_all add: epoll_inv_def)
  with assms(2-4) show "p' \<noteq> p" "p' < length (ctxs ep)" "p < length (ctxs ep)" by (auto simp: fd_ok_def)
qed

lemma ctx_bound:
  assumes "epoll_inv ep" "reg_event ep fd = Some (Some p)"
  shows "p < length (ctxs ep)"
proof -
  have "fd_ok (ctxs ep) (reg_event ep fd) (interest (ctl_log ep) fd) fd"
    using assms(1) by (simp add: epoll_inv_def)
  with assms(2) show ?thesis by (simp add: fd_ok_def)
qed

lemma ctx_update_other:
  assumes "epoll_inv ep" "reg_event ep fd = Some (Some p)" "reg_event ep fd' = Some (Some p')" "fd' \<noteq> fd"
  shows "p' < length ((ctxs ep)[p := x]) \<and> (ctxs ep)[p := x] ! p' = ctxs ep ! p'"
  using ctx_of_other [OF assms] by simp

lemma RegisterEvent_inv:
  assumes inv: "epoll_inv ep" and ty: "some_type type"
  shows "\<exists>ep'. RegisterEvent type fd r_fn w_fn rco wco ep = Inr ep' \<and> epoll_inv ep'"
proof -
  let ?ep = "ep\<lparr>nonblocking := insert fd (nonblocking ep)\<rparr>"
  have inv': "epoll_inv ?ep" using inv by (simp add: epoll_inv_def)
  have ok: "fd_ok (ctxs ep) (reg_event ep fd') (interest (ctl_log ep) fd') fd'" for fd'
    using inv by (simp add: epoll_inv_def)
  consider (new) "reg_event ep fd = None" | (old) p where "reg_event ep fd = Some (Some p)"
    using fd_okD(2) [OF ok [of fd]] by (cases "reg_event ep fd") auto
  then show ?thesis
  proof cases
    case new
    let ?ctx = "\<lparr>ev_type = type, ev_fd = fd, r_callback = r_fn, w_callback = w_fn, r_co = rco, w_co = wco\<rparr>"
    let ?ep1 = "?ep\<lparr>ctxs := ctxs ep @ [?ctx], reg_event := (reg_event ep)(fd \<mapsto> Some (length (ctxs ep)))\<rparr>"
    have "epoll_inv (log_ctl CtlAdd fd (event_mask type) (DataFd fd) ?ep1)"
      by (rule epoll_inv_log [OF inv'])
        (use new ty ctx_bound [OF inv] in \<open>auto simp: nth_append less_SucI\<close>)
    with new show ?thesis by (simp add: RegisterEvent_def Let_def)
  next
    case old
    have p: "p < length (ctxs ep)" "ev_fd (ctxs ep ! p) = fd" using ok [of fd] old by (auto simp: fd_ok_def)
    let ?ep1 = "?ep\<lparr>ctxs := (ctxs ep)[p := (ctxs ep ! p)\<lparr>ev_type := type, r_callback := r_fn, r_co := rco,
      w_callback := w_fn, w_co := wco\<rparr>]\<rparr>"
    have "epoll_inv (log_ctl CtlMod fd (event_mask type) (DataFd fd) ?ep1)"
      by (rule epoll_inv_log [OF inv']) (use old ty p ctx_update_other [OF inv old] in auto)
    with inv' old show ?thesis by (simp add: RegisterEvent_def Let_def)
  qed
qed

lemma CancelEvent_inv:
  assumes inv: "epoll_inv ep" and ty: "some_type type"
  shows "\<exists>ep'. CancelEvent type fd ep = Inr ep' \<and> epoll_inv ep'"
proof -
  have ok: "fd_ok (ctxs ep) (reg_event ep fd') (interest (ctl_log ep) fd') fd'" for fd'
    using inv by (simp add: epoll_inv_def)
  consider (new) "reg_event ep fd = None" | (old) p where "reg_event ep fd = Some (Some p)"
    using fd_okD(2) [OF ok [of fd]] by (cases "reg_event ep fd") auto
  then show ?thesis
  proof cases
    case new
    with inv show ?thesis by (simp add: CancelEvent_def)
  next
    case old
    let ?t = "ev_type (ctxs ep ! p)"
    have p: "p < length (ctxs ep)" "ev_fd (ctxs ep ! p) = fd" "some_type ?t" using ok [of fd] old by (auto simp: fd_ok_def)
    note oth = ctx_update_other [OF inv old]
    have del: "epoll_inv (log_ctl CtlDel fd evs dat (ep\<lparr>ctxs := (ctxs ep)[p := x], reg_event := (reg_event ep)(fd := None)\<rparr>))"
      for evs dat x
      by (rule epoll_inv_log [OF inv]) (use old p oth in auto)
    have md: "epoll_inv (log_ctl CtlMod fd evs dat (ep\<lparr>ctxs := (ctxs ep)[p := (ctxs ep ! p)\<lparr>ev_type := ty\<rparr>]\<rparr>))"
      if "some_type ty" "evs = event_mask ty" for evs dat ty
      by (rule epoll_inv_log [OF inv]) (use old p oth that in auto)
    have md': "epoll_inv (log_ctl CtlMod fd 0x80000004 dat (ep\<lparr>ctxs := (ctxs ep)[p := (ctxs ep ! p)\<lparr>ev_type := 4\<rparr>]\<rparr>))"
        "epoll_inv (log_ctl CtlMod fd 0x80000001 dat (ep\<lparr>ctxs := (ctxs ep)[p := (ctxs ep ! p)\<lparr>ev_type := 1\<rparr>]\<rparr>))" for dat
      by (rule md; simp add: some_type_def event_mask_def event_bits)+
    from p(3) ty show ?thesis
      by (elim some_type_cases) (use old inv del md' in \<open>simp_all add: CancelEvent_def Let_def event_bits\<close>)
  qed
qed

text \<open>The destructor closes the descriptor only when the instance was accessed exactly once.\<close>

lemma GetThreadEpoll_all:
  assumes "t_epoll t = Some epfd"
  shows "fold GetThreadEpoll fds t = t\<lparr>reference_cnt := reference_cnt t + int (length fds)\<rparr>"
  using assms by (induction fds arbitrary: t) (simp_all add: GetThreadEpoll_def)

lemma EpollDestructor_closes:
  "closed_epfds (EpollDestructor (fold GetThreadEpoll (fd # fds) \<lparr>t_epoll = None, reference_cnt = 0, closed_epfds = []\<rparr>)) =
   (if fds = [] then [fd] else [])"
proof -
  have "fold GetThreadEpoll (fd # fds) \<lparr>t_epoll = None, reference_cnt = 0, closed_epfds = []\<rparr> =
      fold GetThreadEpoll fds \<lparr>t_epoll = Some fd, reference_cnt = 1, closed_epfds = []\<rparr>"
    by (simp add: GetThreadEpoll_def InitThreadEpoll_def)
  then show ?thesis by (simp add: GetThreadEpoll_all EpollDestructor_def)
qed

section \<open>Properties of the event registry\<close>

datatype 'k ep_op =
    Register u32 int "'k option" "'k option" "nat option" "nat option"
  | Cancel u32 int

fun ep_step :: "'k ep_op \<Rightarrow> 'k epoll \<Rightarrow> epoll_error + 'k epoll" where
  "ep_step (Register type fd r_fn w_fn rco wco) ep = RegisterEvent type fd r_fn w_fn rco wco ep"
| "ep_step (Cancel type fd) ep = CancelEvent type fd ep"

abbreviation run_ep :: "'k ep_op list \<Rightarrow> 'k epoll \<Rightarrow> epoll_error + 'k epoll" where
  "run_ep \<equiv> res_run ep_step"

fun op_type :: "'k ep_op \<Rightarrow> u32" where
  "op_type (Register type fd r_fn w_fn rco wco) = type"
| "op_type (Cancel type fd) = type"

interpretation ep: total_steps ep_step "\<lambda>op. some_type (op_type op)" epoll_inv
proof
  show "\<exists>ep'. ep_step op ep = Inr ep' \<and> epoll_inv ep'" if "epoll_inv ep" "some_type (op_type op)" for ep and op :: "'k ep_op"
    using that by (cases op) (simp_all add: RegisterEvent_inv CancelEvent_inv)
qed

text \<open>
  C7: any sequence of \<^verbatim>\<open>RegisterEvent\<close> and \<^verbatim>\<open>CancelEvent\<close> calls for reading, writing or both succeeds, never
  asks the kernel for something it refuses (adding a present descriptor, changing an absent one), and
  keeps the registry and the kernel's interest list in step: the same descriptors, each
  watched for exactly the directions its context is registered for.
\<close>

theorem registry_in_step:
  assumes "\<forall>op \<in> set ops. some_type (op_type op)"
  shows "\<exists>ep. run_ep ops Epoll = Inr ep \<and> ctl_fits (ctl_log ep) Map.empty \<and>
    (\<forall>fd. case reg_event ep fd of
       None \<Rightarrow> interest (ctl_log ep) fd = None
     | Some None \<Rightarrow> False
     | Some (Some p) \<Rightarrow> p < length (ctxs ep) \<and>
         map_option fst (interest (ctl_log ep) fd) = Some (event_mask (ev_type (ctxs ep ! p))))"
proof -
  obtain ep where ep: "run_ep ops Epoll = Inr ep" "epoll_inv ep"
    using ep.run_inv [OF epoll_inv_Epoll assms] by blast
  have "case reg_event ep fd of
       None \<Rightarrow> interest (ctl_log ep) fd = None
     | Some None \<Rightarrow> False
     | Some (Some p) \<Rightarrow> p < length (ctxs ep) \<and>
         map_option fst (interest (ctl_log ep) fd) = Some (event_mask (ev_type (ctxs ep ! p)))" for fd
  proof -
    have "fd_ok (ctxs ep) (reg_event ep fd) (interest (ctl_log ep) fd) fd" using ep(2) by (simp add: epoll_inv_def)
    then show ?thesis by (auto simp: fd_ok_def split: option.splits)
  qed
  with ep show ?thesis by (auto simp: epoll_inv_def)
qed

theorem registry_in_step_witness:
  "\<exists>ep. run_ep [Register (READ OR WRITE) 3 (Some ()) None None (Some 2), Cancel READ 3] Epoll = Inr ep \<and>
    ctl_fits (ctl_log ep) Map.empty"
  using registry_in_step [of "[Register (READ OR WRITE) 3 (Some ()) None None (Some 2), Cancel READ 3]"]
  by (auto simp: some_type_def)

text \<open>
  Registering a new descriptor: the kernel watches it with the descriptor as event data, and an event
  reported for it runs the callback of its direction, or resumes the coroutine when there is no callback.
\<close>

theorem RegisterEvent_dispatches:
  assumes "epoll_inv ep" "some_type type" "reg_event ep fd = None"
  shows "\<exists>ep'. RegisterEvent type fd r_fn w_fn rco wco ep = Inr ep' \<and>
    interest (ctl_log ep') fd = Some (event_mask type, DataFd fd) \<and> fd \<in> nonblocking ep' \<and>
    dispatch adr run (EPOLLIN, DataFd fd) (ep', e) = Inr (run_handler run r_fn rco (ep', e)) \<and>
    dispatch adr run (EPOLLOUT, DataFd fd) (ep', e) = Inr (run_handler run w_fn wco (ep', e))"
  using assms by (simp add: RegisterEvent_def Let_def ctl_step_def dispatch_def event_bits)

theorem RegisterEvent_dispatches_witness:
  "\<exists>ep'. RegisterEvent READ 3 None None (Some 7) None (Epoll :: unit epoll) = Inr ep' \<and>
    dispatch (\<lambda>_. 0) (\<lambda>t (ep, e). (ep, e @ [t])) (EPOLLIN, DataFd 3) (ep', []) = Inr (ep', [Resume 7])"
  using RegisterEvent_dispatches [OF epoll_inv_Epoll, of READ 3 None None "Some 7" None
      "\<lambda>_. 0" "\<lambda>t (ep, e). (ep, e @ [t])" "[]"]
  by (auto simp: some_type_def Epoll_def run_handler_def)

text \<open>
  Registering on a descriptor that is registered already never merges: when the directions overlap
  the call changes nothing, so the handlers of the earlier call stay; when they do not,
  the earlier handlers and directions are replaced and the kernel stops watching the earlier direction.
\<close>

theorem RegisterEvent_existing:
  assumes "epoll_inv ep" "some_type type" "reg_event ep fd = Some (Some p)"
  shows "\<exists>ep'. RegisterEvent type fd r_fn w_fn rco wco ep = Inr ep' \<and>
    (if ev_type (ctxs ep ! p) AND type \<noteq> 0
     then ctxs ep' = ctxs ep \<and> ctl_log ep' = ctl_log ep
     else ctxs ep' ! p = \<lparr>ev_type = type, ev_fd = fd, r_callback = r_fn, w_callback = w_fn, r_co = rco, w_co = wco\<rparr> \<and>
       interest (ctl_log ep') fd = Some (event_mask type, DataFd fd))"
proof -
  have "fd_ok (ctxs ep) (reg_event ep fd) (interest (ctl_log ep) fd) fd" using assms(1) by (simp add: epoll_inv_def)
  with assms(3) have "p < length (ctxs ep)" "ev_fd (ctxs ep ! p) = fd" by (auto simp: fd_ok_def)
  with assms(3) show ?thesis
    by (cases "ctxs ep ! p") (simp add: RegisterEvent_def Let_def ctl_step_def)
qed

theorem RegisterEvent_existing_witness:
  "\<exists>ep1 ep2. RegisterEvent READ 3 None None (Some 7) None (Epoll :: unit epoll) = Inr ep1 \<and>
    RegisterEvent WRITE 3 None None None (Some 8) ep1 = Inr ep2 \<and> r_co (ctxs ep2 ! 0) = None \<and>
    interest (ctl_log ep2) 3 = Some (EPOLLOUT OR EPOLLET, DataFd 3)"
proof -
  obtain ep1 where ep1: "RegisterEvent READ 3 None None (Some 7) None (Epoll :: unit epoll) = Inr ep1" "epoll_inv ep1"
    using RegisterEvent_inv [OF epoll_inv_Epoll, of READ 3 None None "Some 7" None] by (auto simp: some_type_def)
  then have "reg_event ep1 3 = Some (Some 0)" "ev_type (ctxs ep1 ! 0) = READ"
    by (auto simp: RegisterEvent_def Let_def Epoll_def)
  with RegisterEvent_existing [OF ep1(2), of WRITE 3 0 None None None "Some 8"] ep1(1) show ?thesis
    by (auto simp: some_type_def event_bits event_mask_def)
qed

text \<open>
  Cancelling one direction of a descriptor registered for both replaces the event data by the context's
  address. The event loop reads the low half of it as a descriptor: unless that happens to be
  registered too, the next event of the remaining direction dereferences a null pointer.
\<close>

theorem CancelEvent_breaks_dispatch:
  assumes "reg_event ep fd = Some (Some p)" "ev_type (ctxs ep ! p) = READ OR WRITE" "p < length (ctxs ep)"
    and "adr p \<noteq> fd" "reg_event ep (adr p) = None"
  shows "\<exists>ep'. CancelEvent READ fd ep = Inr ep' \<and> reg_event ep' fd = Some (Some p) \<and>
    ev_type (ctxs ep' ! p) = WRITE \<and> interest (ctl_log ep') fd = Some (EPOLLOUT OR EPOLLET, DataPtr p) \<and>
    dispatch adr run (EPOLLOUT, DataPtr p) (ep', e) = Inl NullCtx"
  using assms by (simp add: CancelEvent_def Let_def event_bits ctl_step_def dispatch_def)

theorem CancelEvent_breaks_dispatch_witness:
  "\<exists>ep1 ep2. RegisterEvent (READ OR WRITE) 3 None None (Some 7) (Some 7) (Epoll :: unit epoll) = Inr ep1 \<and>
    CancelEvent READ 3 ep1 = Inr ep2 \<and>
    dispatch (\<lambda>_. 100) (\<lambda>t st. st) (EPOLLOUT, DataPtr 0) (ep2, ()) = Inl NullCtx"
proof -
  let ?ctx = "\<lparr>ev_type = READ OR WRITE, ev_fd = 3, r_callback = None, w_callback = None, r_co = Some 7, w_co = Some 7\<rparr>"
  obtain ep1 where ep1: "RegisterEvent (READ OR WRITE) 3 None None (Some 7) (Some 7) (Epoll :: unit epoll) = Inr ep1"
      "reg_event ep1 = [3 \<mapsto> Some 0]" "ctxs ep1 = [?ctx]"
    by (simp add: RegisterEvent_def Let_def Epoll_def)
  with CancelEvent_breaks_dispatch [of ep1 3 0 "\<lambda>_. 100" "\<lambda>t st. st" "()"] show ?thesis by auto
qed

lemma foldl_decreasing: "(\<And>d x. f d x \<le> (d::nat)) \<Longrightarrow> foldl f d xs \<le> d"
proof (induction xs arbitrary: d)
  case (Cons x xs)
  then show ?case using order_trans [OF Cons.IH Cons.prems(1)] by simp
qed simp

lemma GetNextTimeout_less: "GetNextTimeout now tw < 2 ^ 63"
proof -
  have "foldl (\<lambda>dis i. case wheel tw ! ((current_slot tw + i) mod slots tw) of
      [] \<Rightarrow> dis | it # _ \<Rightarrow> min dis (trigger now it)) INT64_MAX [0..<length (wheel tw)] \<le> INT64_MAX"
    by (rule foldl_decreasing) (simp split: list.split)
  then show ?thesis by (simp add: GetNextTimeout_def Let_def INT64_MAX_def)
qed

text \<open>
  Whatever the timers hold, the timeout the event loop passes to \<^verbatim>\<open>epoll_wait\<close> is positive and at most
  one second, so the loop neither spins nor blocks for ever.
\<close>

theorem wait_timeout_bounds: "0 < wait_timeout (GetNextTimeout now tw) \<and> wait_timeout (GetNextTimeout now tw) \<le> 1000"
  using GetNextTimeout_less [of now tw] by (auto simp: wait_timeout_def MAX_TIMEOUT_def)

end
