(* ===== verification/Hook.thy ===== *)
theory Hook
  imports Epoll Coroutine_Laws
begin

text \<open>
  The hooked system calls of \<^verbatim>\<open>src/src/hook.cc\<close>, which turn blocking calls into waiting coroutines.
  They tie the scheduler, the event registry and the timer wheel of a thread together. What
  the original calls return is a script of arguments; so is what happens on the thread between
  the yield of a waiting coroutine and its next resumption.
\<close>

section \<open>State\<close>

record 'k thread =
  sched :: "Coroutine.schedule"
  registry :: "'k epoll"
  timers :: "'k option time_wheel"
  is_hook_enable :: bool
  closed_fds :: "int list"

datatype hook_error = CoError co_error | EpollError epoll_error | TimerError

definition GetHookEnable :: "'k thread \<Rightarrow> bool" where
  "GetHookEnable th = is_hook_enable th"

definition SetHookEnable :: "bool \<Rightarrow> 'k thread \<Rightarrow> 'k thread" where
  "SetHookEnable val th = th\<lparr>is_hook_enable := val\<rparr>"

text \<open>A system call's result with the error number it leaves.\<close>

type_synonym sys_result = "int \<times> int"

definition lift_co :: "'k thread \<Rightarrow> co_error + Coroutine.schedule \<Rightarrow> hook_error + 'k thread" where
  "lift_co th r = (case r of Inl e \<Rightarrow> Inl (CoError e) | Inr s \<Rightarrow> Inr (th\<lparr>sched := s\<rparr>))"

definition lift_ep :: "'k thread \<Rightarrow> epoll_error + 'k epoll \<Rightarrow> hook_error + 'k thread" where
  "lift_ep th r = (case r of Inl e \<Rightarrow> Inl (EpollError e) | Inr ep \<Rightarrow> Inr (th\<lparr>registry := ep\<rparr>))"

section \<open>Waiting for a descriptor\<close>

definition register_read :: "int \<Rightarrow> u32 \<Rightarrow> 'k thread \<Rightarrow> hook_error + 'k thread" where
  "register_read fd event th =
     (if event AND READ \<noteq> 0
      then case GetCurrentCo (sched th) of
             (c, s) \<Rightarrow> lift_ep (th\<lparr>sched := s\<rparr>) (RegisterEvent event fd None None (Some c) None (registry th))
      else Inr th)"

definition register_write :: "int \<Rightarrow> u32 \<Rightarrow> 'k thread \<Rightarrow> hook_error + 'k thread" where
  "register_write fd event th =
     (if event AND WRITE \<noteq> 0
      then case GetCurrentCo (sched th) of
             (c, s) \<Rightarrow> lift_ep (th\<lparr>sched := s\<rparr>) (RegisterEvent event fd None None None (Some c) (registry th))
      else Inr th)"

text \<open>
  The block after a call that would have blocked: register the current coroutine, and yield
  unless it is the main one. The result says whether it yielded.
\<close>

definition wait_for :: "int \<Rightarrow> u32 \<Rightarrow> nat \<Rightarrow> 'k thread \<Rightarrow> hook_error + bool \<times> 'k thread" where
  "wait_for fd event sp th =
     res_bind (register_read fd event th) (\<lambda>th1.
     res_bind (register_write fd event th1) (\<lambda>th2.
       case GetInvokeDeepth (sched th2) of
         (n, s) \<Rightarrow>
           if 2 \<le> n then res_bind (lift_co (th2\<lparr>sched := s\<rparr>) (Yield sp s)) (\<lambda>th3. Inr (True, th3))
           else Inr (False, th2\<lparr>sched := s\<rparr>)))"

text \<open>
  The loop of \<^verbatim>\<open>do_io\<close>: each entry of the script has the result of the call, the result of the call
  repeated after a signal, and what the thread does until the coroutine is resumed. An
  empty script means that the coroutine is still waiting.
\<close>

fun io_loop ::
  "int \<Rightarrow> u32 \<Rightarrow> nat \<Rightarrow> (sys_result \<times> sys_result \<times> ('k thread \<Rightarrow> 'k thread)) list \<Rightarrow> 'k thread \<Rightarrow>
   hook_error + sys_result option \<times> 'k thread" where
  "io_loop fd event sp [] th = Inr (None, th)"
| "io_loop fd event sp ((r1, r2, meanwhile) # script) th =
     (let r = (if r1 = (-1, EINTR) then r2 else r1) in
      if r = (-1, EAGAIN)
      then res_bind (wait_for fd event sp th)
             (\<lambda>(yielded, th1). io_loop fd event sp script (if yielded then meanwhile th1 else th1))
      else Inr (Some r, th))"

definition do_io ::
  "int \<Rightarrow> u32 \<Rightarrow> nat \<Rightarrow> (sys_result \<times> sys_result \<times> ('k thread \<Rightarrow> 'k thread)) list \<Rightarrow> 'k thread \<Rightarrow>
   hook_error + sys_result option \<times> 'k thread" where
  "do_io fd event sp script th =
     (if \<not> GetHookEnable th
      then Inr ((case script of [] \<Rightarrow> None | (r1, _, _) # _ \<Rightarrow> Some r1), th)
      else io_loop fd event sp script
             (th\<lparr>registry := (registry th)\<lparr>nonblocking := insert fd (nonblocking (registry th))\<rparr>\<rparr>))"

text \<open>The wrappers: the original function each one calls, and the event it waits for.\<close>

datatype sys_call =
  sys_read | sys_readv | sys_recv | sys_recvfrom | sys_recvmsg | sys_write | sys_writev | sys_send | sys_sendto | sys_sendmsg

fun wrapper :: "sys_call \<Rightarrow> sys_call \<times> u32" where
  "wrapper sys_read = (sys_read, READ)" | "wrapper sys_readv = (sys_readv, READ)"
| "wrapper sys_recv = (sys_recv, READ)" | "wrapper sys_recvfrom = (sys_recvfrom, READ)"
| "wrapper sys_recvmsg = (sys_recvmsg, READ)" | "wrapper sys_write = (sys_write, WRITE)"
| "wrapper sys_writev = (sys_write, WRITE)" | "wrapper sys_send = (sys_send, WRITE)"
| "wrapper sys_sendto = (sys_sendto, WRITE)" | "wrapper sys_sendmsg = (sys_sendmsg, WRITE)"

section \<open>Sleeping and closing\<close>

text \<open>Both sleeps up to their yield; the original calls are used when the hook is off (\<open>None\<close>).\<close>

definition sleep_ms :: "nat \<Rightarrow> nat \<Rightarrow> nat \<Rightarrow> 'k thread \<Rightarrow> hook_error + 'k thread" where
  "sleep_ms ms clock sp th =
     (case GetCurrentCo (sched th) of
        (c, s) \<Rightarrow>
          (case AddTimer \<lparr>req_timeout = ms, req_func = None, req_co = Some c, req_times = 1, req_clock = clock\<rparr>
                  (timers th) of
             None \<Rightarrow> Inl TimerError
           | Some tw \<Rightarrow> lift_co (th\<lparr>timers := tw, sched := s\<rparr>) (Yield sp s)))"

definition sleep :: "u32 \<Rightarrow> nat \<Rightarrow> nat \<Rightarrow> 'k thread \<Rightarrow> (hook_error + 'k thread) option" where
  "sleep seconds clock sp th =
     (if \<not> GetHookEnable th then None else Some (sleep_ms (unat (seconds * 1000)) clock sp th))"

definition usleep :: "u32 \<Rightarrow> nat \<Rightarrow> nat \<Rightarrow> 'k thread \<Rightarrow> (hook_error + 'k thread) option" where
  "usleep usec clock sp th =
     (if \<not> GetHookEnable th then None else Some (sleep_ms (unat usec div 1000) clock sp th))"

definition close :: "int \<Rightarrow> 'k thread \<Rightarrow> hook_error + 'k thread" where
  "close fd th =
     (if \<not> GetHookEnable th then Inr (th\<lparr>closed_fds := closed_fds th @ [fd]\<rparr>)
      else res_bind (lift_ep th (CancelEvent READ fd (registry th))) (\<lambda>th1.
           res_bind (lift_ep th1 (CancelEvent WRITE fd (registry th1))) (\<lambda>th2.
             Inr (th2\<lparr>closed_fds := closed_fds th2 @ [fd]\<rparr>))))"

end
