(* ===== verification/Hook_Laws.thy ===== *)
theory Hook_Laws
  imports Hook
begin

text \<open>
  Laws of the hooked calls. A waiting coroutine is registered so that the next event of its
  descriptor resumes it, a sleeping one so that its tick resumes it, and a hooked call never
  lets its caller see that it would have blocked. Coroutines have stacks of their own here.
\<close>

section \<open>Threads\<close>

definition private_stacks :: "Coroutine.schedule \<Rightarrow> bool" where
  "private_stacks s \<longleftrightarrow> (\<forall>c < length (cos s). \<not> use_shared_stk (cos s ! c))"

definition thread_ok :: "'k thread \<Rightarrow> bool" where
  "thread_ok th \<longleftrightarrow> sched_inv (sched th) \<and> initialised (sched th) \<and> private_stacks (sched th) \<and> epoll_inv (registry th)"

lemma Yield_private:
  assumes inv: "sched_inv s" and priv: "private_stacks s" and len: "2 \<le> length (co_stack s)"
  obtains s' where "Yield sp s = Inr s'" "sched_inv s'" "initialised s'" "private_stacks s'"
    "co_stack s' = butlast (co_stack s)" "running_co s' = Some (last (butlast (co_stack s)))"
    "length (cos s') = length (cos s)" "co_st (cos s' ! last (butlast (co_stack s))) = CO_RUNNING"
    "last (butlast (co_stack s)) \<noteq> last (co_stack s) \<Longrightarrow> co_st (cos s' ! last (co_stack s)) = CO_READY"
proof -
  from stack_split [OF inv len] obtain xs p r where st: "co_stack s = xs @ [p, r]"
      "co_stack s ! (stack_top s - 1) = r" "co_stack s ! (stack_top s - 2) = p" "initialised s" .
  define t where "t = set_co p (\<lambda>co. co\<lparr>co_st := CO_RUNNING\<rparr>) (set_co r (\<lambda>co. co\<lparr>co_st := CO_READY\<rparr>)
    (s\<lparr>co_stack := butlast (co_stack s), stack_top := stack_top s - 1, running_co := Some p\<rparr>))"
  define s' where "s' = set_co r (\<lambda>co. co\<lparr>dummy := Some sp\<rparr>) t"
  have p: "p < length (cos s)" "r < length (cos s)" using inv st(1,4) by (simp_all add: sched_inv_def)
  have shared: "use_shared_stk (cos s' ! c) = use_shared_stk (cos s ! c)" for c
    by (simp add: s'_def t_def cos_set_co)
  have "SwapContext r p sp t = Inr s'"
    using shared [of p] priv p by (simp add: SwapContext_def Let_def private_stacks_def flip: s'_def)
  then have y: "Yield sp s = Inr s'"
    using st(2,3) len by (simp add: Yield_def Let_def t_def)
  show thesis
  proof (rule that [OF y])
    show "sched_inv s'" by (rule sched_inv_Yield [OF inv y])
    show "private_stacks s'" using shared priv by (simp add: private_stacks_def s'_def t_def)
  qed (use st p in \<open>auto simp: s'_def t_def butlast_append cos_set_co\<close>)
qed

lemma GetCurrentCo_initialised [simp]: "initialised s \<Longrightarrow> GetCurrentCo s = (last (co_stack s), s)"
  by (simp add: GetCurrentCo_def GetThreadSchedule_def)

lemma GetInvokeDeepth_initialised [simp]: "initialised s \<Longrightarrow> GetInvokeDeepth s = (length (co_stack s), s)"
  by (simp add: GetInvokeDeepth_def GetThreadSchedule_def)

lemma read_write_bits: "READ AND WRITE = 0" "READ AND READ \<noteq> 0" "WRITE AND WRITE \<noteq> 0" "WRITE AND READ = 0"
    "READ \<noteq> 0" "WRITE \<noteq> 0" "WRITE \<noteq> READ"
  by (simp_all add: event_bits)

text \<open>One direction is registered: the wait is one registration and a yield.\<close>

definition wait_reg :: "u32 \<Rightarrow> int \<Rightarrow> nat \<Rightarrow> 'k epoll \<Rightarrow> epoll_error + 'k epoll" where
  "wait_reg event fd c =
     (if event = READ then RegisterEvent event fd None None (Some c) None
      else RegisterEvent event fd None None None (Some c))"

lemma wait_reg_inv:
  assumes "epoll_inv ep" "event = READ \<or> event = WRITE"
  obtains ep' where "wait_reg event fd c ep = Inr ep'" "epoll_inv ep'"
  using RegisterEvent_inv [OF assms(1), of event fd None None "Some c" None]
    RegisterEvent_inv [OF assms(1), of event fd None None None "Some c"] assms(2) that
  by (auto simp: wait_reg_def some_type_def read_write_bits)

lemma wait_for_ok:
  assumes ok: "thread_ok th" and ev: "event = READ \<or> event = WRITE"
    and reg: "wait_reg event fd (last (co_stack (sched th))) (registry th) = Inr ep"
  shows "\<exists>s. wait_for fd event sp th =
     Inr (2 \<le> length (co_stack (sched th)), th\<lparr>registry := ep, sched := s\<rparr>) \<and>
     thread_ok (th\<lparr>registry := ep, sched := s\<rparr>) \<and>
     co_stack s = (if 2 \<le> length (co_stack (sched th)) then butlast (co_stack (sched th)) else co_stack (sched th)) \<and>
     (2 \<le> length (co_stack (sched th)) \<longrightarrow> Yield sp (sched th) = Inr s)"
proof -
  have inv: "sched_inv (sched th)" "initialised (sched th)" "private_stacks (sched th)" "epoll_inv (registry th)"
    using ok by (simp_all add: thread_ok_def)
  have ep: "epoll_inv ep"
    using wait_reg_inv [OF inv(4) ev, of fd "last (co_stack (sched th))"] reg by auto
  have step: "res_bind (register_read fd event th) (register_write fd event) = Inr (th\<lparr>registry := ep\<rparr>)"
    using ev reg inv(2) by (auto simp: register_read_def register_write_def wait_reg_def lift_ep_def read_write_bits)
  then have eq: "wait_for fd event sp th =
      (if 2 \<le> length (co_stack (sched th))
       then res_bind (lift_co (th\<lparr>registry := ep\<rparr>) (Yield sp (sched th))) (\<lambda>th3. Inr (True, th3))
       else Inr (False, th\<lparr>registry := ep\<rparr>))"
    using inv(2) unfolding wait_for_def by (simp flip: res_bind_assoc)
  show ?thesis
  proof (cases "2 \<le> length (co_stack (sched th))")
    case True
    from Yield_private [OF inv(1,3) True, of sp] obtain s where
      "Yield sp (sched th) = Inr s" "sched_inv s" "initialised s" "private_stacks s"
      "co_stack s = butlast (co_stack (sched th))" by blast
    with True eq ep show ?thesis by (intro exI [of _ s]) (simp add: lift_co_def thread_ok_def)
  next
    case False
    with eq ep inv show ?thesis by (intro exI [of _ "sched th"]) (simp add: thread_ok_def)
  qed
qed

section \<open>Properties of the hooked calls\<close>

text \<open>
  A hooked call that would block, made by a coroutine on a descriptor nobody waits for, registers the
  coroutine and yields to the one that resumed it; the registry stays in step with the
  kernel, which watches the descriptor for the direction, and the next event of that direction
  resumes exactly this coroutine.
\<close>

theorem blocked_call_is_woken:
  assumes "thread_ok th" and "event = READ \<or> event = WRITE" and "2 \<le> length (co_stack (sched th))"
    and "reg_event (registry th) fd = None"
  shows "\<exists>th'. wait_for fd event sp th = Inr (True, th') \<and> thread_ok th' \<and>
     co_stack (sched th') = butlast (co_stack (sched th)) \<and>
     interest (ctl_log (registry th')) fd = Some (event_mask event, DataFd fd) \<and>
     dispatch adr run (event, DataFd fd) (registry th', e) =
       Inr (run (task.Resume (last (co_stack (sched th)))) (registry th', e))"
proof -
  let ?c = "last (co_stack (sched th))"
  have inv: "epoll_inv (registry th)" using assms(1) by (simp add: thread_ok_def)
  from wait_reg_inv [OF inv assms(2)] obtain ep where ep: "wait_reg event fd ?c (registry th) = Inr ep" .
  from wait_for_ok [OF assms(1,2) ep, of sp] assms(3) obtain s where
    s: "wait_for fd event sp th = Inr (True, th\<lparr>registry := ep, sched := s\<rparr>)"
      "thread_ok (th\<lparr>registry := ep, sched := s\<rparr>)" "co_stack s = butlast (co_stack (sched th))" by auto
  have "interest (ctl_log ep) fd = Some (event_mask event, DataFd fd) \<and>
      dispatch adr run (event, DataFd fd) (ep, e) = Inr (run (task.Resume ?c) (ep, e))"
    using assms(2,4) ep
    by (auto simp: wait_reg_def RegisterEvent_def Let_def ctl_step_def dispatch_def run_handler_def event_bits)
  with s show ?thesis by (intro exI [of _ "th\<lparr>registry := ep, sched := s\<rparr>"]) simp
qed

text \<open>A thread whose coroutine 1 runs, with nothing registered.\<close>

definition hook_demo :: "unit thread" where
  "hook_demo = \<lparr>sched = nested_demo, registry = Epoll, timers = TimeWheel 8 10 0, is_hook_enable = True, closed_fds = []\<rparr>"

lemma hook_demo_ok: "thread_ok hook_demo"
  using sched_inv_demo(2) epoll_inv_Epoll
  by (auto simp: thread_ok_def hook_demo_def private_stacks_def nested_demo_def demo_def new_co_def nth_Cons' less_Suc_eq)

lemma hook_demo_stack: "co_stack (sched hook_demo) = [0, 1]" "reg_event (registry hook_demo) fd = None"
  by (simp_all add: hook_demo_def nested_demo_def Epoll_def)

theorem blocked_call_is_woken_witness:
  "\<exists>th'. wait_for 3 READ 0 hook_demo = Inr (True, th') \<and> co_stack (sched th') = [0] \<and>
     dispatch (\<lambda>_. 0) (\<lambda>t (ep, e). (ep, e @ [t])) (READ, DataFd 3) (registry th', []) =
       Inr (registry th', [task.Resume 1])"
  using blocked_call_is_woken [OF hook_demo_ok, of READ 3 0 "\<lambda>_. 0" "\<lambda>t (ep, e). (ep, e @ [t])" "[]"]
  by (auto simp: hook_demo_stack)

text \<open>The result of a round: the call's, or the repeated call's after a signal.\<close>

definition round_result :: "sys_result \<times> sys_result \<times> ('k thread \<Rightarrow> 'k thread) \<Rightarrow> sys_result" where
  "round_result x = (case x of (r1, r2, _) \<Rightarrow> if r1 = (-1, EINTR) then r2 else r1)"

lemma io_loop_returns:
  assumes "thread_ok th" and "event = READ \<or> event = WRITE"
    and "\<forall>x\<in>set blocked. round_result x = (-1, EAGAIN) \<and> (\<forall>t. thread_ok t \<longrightarrow> thread_ok (snd (snd x) t))"
    and "round_result final \<noteq> (-1, EAGAIN)"
  shows "\<exists>th'. io_loop fd event sp (blocked @ final # unused) th = Inr (Some (round_result final), th') \<and> thread_ok th'"
  using assms(1,3)
proof (induction blocked arbitrary: th)
  case Nil
  with assms(4) show ?case by (auto simp: round_result_def Let_def split: prod.splits if_splits)
next
  case (Cons x blocked)
  obtain r1 r2 mw where x: "x = (r1, r2, mw)" by (cases x)
  have inv: "epoll_inv (registry th)" using Cons.prems(1) by (simp add: thread_ok_def)
  from wait_reg_inv [OF inv assms(2)] obtain ep where
    "wait_reg event fd (last (co_stack (sched th))) (registry th) = Inr ep" .
  from wait_for_ok [OF Cons.prems(1) assms(2) this, of sp] obtain y th1 where
    w: "wait_for fd event sp th = Inr (y, th1)" "thread_ok th1" by blast
  have "thread_ok (if y then mw th1 else th1)" using w(2) Cons.prems(2) x by simp
  with Cons.IH [OF this] Cons.prems(2) w(1) show ?case by (auto simp: x round_result_def Let_def)
qed

text \<open>
  C26: a hooked call returns, and never tells its caller that it would have blocked. When the original
  call is refused any number of times and then answers \<open>r\<close> (after at most one repetition for
  a signal in each round), whatever well-formed things happen on the thread meanwhile, the
  hooked call returns \<open>r\<close>.
\<close>

theorem do_io_returns:
  assumes "thread_ok th" and "GetHookEnable th" and "event = READ \<or> event = WRITE"
    and "\<forall>x\<in>set blocked. round_result x = (-1, EAGAIN) \<and> (\<forall>t. thread_ok t \<longrightarrow> thread_ok (snd (snd x) t))"
    and "round_result final \<noteq> (-1, EAGAIN)"
  shows "\<exists>th'. do_io fd event sp (blocked @ final # unused) th = Inr (Some (round_result final), th') \<and> thread_ok th'"
proof -
  let ?th = "th\<lparr>registry := (registry th)\<lparr>nonblocking := insert fd (nonblocking (registry th))\<rparr>\<rparr>"
  have "thread_ok ?th" using assms(1) by (simp add: thread_ok_def epoll_inv_def)
  from io_loop_returns [OF this assms(3-5), of fd sp unused] assms(2) show ?thesis by (simp add: do_io_def)
qed

theorem do_io_returns_witness:
  "\<exists>th'. do_io 3 READ 0 [((-1, EAGAIN), (0, 0), \<lambda>t. hook_demo), ((-1, EINTR), (5, 0), id)] hook_demo =
     Inr (Some (5, 0), th') \<and> thread_ok th'"
  using do_io_returns [OF hook_demo_ok, of READ "[((-1, EAGAIN), (0, 0), \<lambda>t. hook_demo)]" "((-1, EINTR), (5, 0), id)" 3 0 "[]"]
    hook_demo_ok
  by (simp add: round_result_def GetHookEnable_def hook_demo_def EAGAIN_def EINTR_def)

text \<open>The hooked \<^verbatim>\<open>sleep\<close> up to its yield.\<close>

lemma sleep_schedules:
  assumes "thread_ok th" and "GetHookEnable th" and "2 \<le> length (co_stack (sched th))" and "wheel_ok (timers th)"
    and "n = unat seconds * 1000 mod 2 ^ 32 div granularity (timers th)" and "n < 2 ^ 31"
  shows "\<exists>th'. sleep seconds clock sp th = Some (Inr th') \<and> thread_ok th' \<and> wheel_ok (timers th') \<and>
     registry th' = registry th \<and> same_shape (timers th) (timers th') \<and>
     co_stack (sched th') = butlast (co_stack (sched th)) \<and>
     due (timers th') = (due (timers th))(n := due (timers th) n @ [task.Resume (last (co_stack (sched th)))])"
proof -
  let ?r = "\<lparr>req_timeout = unat (seconds * 1000), req_func = None, req_co = Some (last (co_stack (sched th))),
    req_times = 1, req_clock = clock\<rparr>"
  have inv: "sched_inv (sched th)" "initialised (sched th)" "private_stacks (sched th)" "epoll_inv (registry th)"
    using assms(1) by (simp_all add: thread_ok_def)
  have ms: "unat (seconds * 1000) = unat seconds * 1000 mod 2 ^ 32" by (simp add: unat_word_ariths)
  then have "req_ok (timers th) ?r" using assms(5,6) by (simp add: req_ok_def)
  from AddTimer_due [OF assms(4) this] obtain tw where tw: "AddTimer ?r (timers th) = Some tw" "wheel_ok tw" "same_shape (timers th) tw"
      "due tw = sched_add (granularity (timers th)) ?r (due (timers th))" by blast
  from Yield_private [OF inv(1,3) assms(3), of sp] obtain s where s: "Yield sp (sched th) = Inr s"
      "sched_inv s" "initialised s" "private_stacks s" "co_stack s = butlast (co_stack (sched th))" by blast
  let ?th = "th\<lparr>timers := tw, sched := s\<rparr>"
  have "sleep seconds clock sp th = Some (Inr ?th)"
    using tw(1) s(1) inv(2) assms(2) by (simp add: sleep_def sleep_ms_def lift_co_def)
  with tw s inv(4) show ?thesis
    by (intro exI [of _ ?th]) (simp add: thread_ok_def sched_add_def req_task_def Let_def ms assms(5))
qed

text \<open>
  The hooked \<^verbatim>\<open>sleep\<close> of a coroutine puts its resumption on the timer wheel, behind what is due on the
  same tick, and yields. The time is the product of the seconds and 1000 modulo \<open>2 ^ 32\<close>: from 4294968
  seconds on the coroutine sleeps a fraction of what it asked for.
\<close>

theorem sleep_schedules_resumption:
  assumes "thread_ok th" and "GetHookEnable th" and "2 \<le> length (co_stack (sched th))" and "wheel_ok (timers th)"
    and "n = unat seconds * 1000 mod 2 ^ 32 div granularity (timers th)" and "n < 2 ^ 31"
  shows "\<exists>th'. sleep seconds clock sp th = Some (Inr th') \<and> thread_ok th' \<and> wheel_ok (timers th') \<and>
     co_stack (sched th') = butlast (co_stack (sched th)) \<and>
     due (timers th') = (due (timers th))(n := due (timers th) n @ [task.Resume (last (co_stack (sched th)))])"
  using sleep_schedules [OF assms, of clock sp] by blast

lemma hook_demo_wheel: "wheel_ok (timers hook_demo)" "granularity (timers hook_demo) = 10" "due (timers hook_demo) n = []"
  by (auto simp: hook_demo_def TimeWheel_def wheel_ok_def due_def)

theorem sleep_schedules_resumption_witness:
  "\<exists>th'. sleep 2 0 0 hook_demo = Some (Inr th') \<and> due (timers th') 200 = [task.Resume 1]"
proof -
  have "200 = unat (2 :: u32) * 1000 mod 2 ^ 32 div granularity (timers hook_demo)"
    by (simp add: hook_demo_wheel)
  moreover have "GetHookEnable hook_demo" by (simp add: GetHookEnable_def hook_demo_def)
  ultimately show ?thesis
    using sleep_schedules_resumption [OF hook_demo_ok _ _ hook_demo_wheel(1), of 200 2 0 0]
    by (auto simp: hook_demo_stack hook_demo_wheel)
qed

lemma CancelEvent_both:
  assumes inv: "epoll_inv ep" and r: "CancelEvent READ fd ep = Inr ep1" and w: "CancelEvent WRITE fd ep1 = Inr ep2"
  shows "reg_event ep2 fd = None"
proof -
  have ok: "fd_ok (ctxs ep) (reg_event ep fd) (interest (ctl_log ep) fd) fd"
    using inv by (simp add: epoll_inv_def)
  show ?thesis
  proof (cases "reg_event ep fd")
    case None
    with r w show ?thesis by (auto simp: CancelEvent_def)
  next
    case (Some x)
    with ok obtain p where p: "reg_event ep fd = Some (Some p)" "p < length (ctxs ep)" "some_type (ev_type (ctxs ep ! p))"
      by (auto simp: fd_ok_def split: option.splits)
    from p(3) show ?thesis
      by (elim some_type_cases) (use p(1,2) r w in \<open>auto simp: CancelEvent_def Let_def event_bits\<close>)
  qed
qed

text \<open>
  The hooked \<^verbatim>\<open>close\<close> leaves nothing of the descriptor behind: whatever directions it was registered
  for, it is gone from the registry and from the kernel's interest list when it is closed.
\<close>

theorem close_unregisters:
  assumes "epoll_inv (registry th)" and "GetHookEnable th"
  shows "\<exists>th'. close fd th = Inr th' \<and> epoll_inv (registry th') \<and> reg_event (registry th') fd = None \<and>
     interest (ctl_log (registry th')) fd = None \<and> closed_fds th' = closed_fds th @ [fd]"
proof -
  have types: "some_type READ" "some_type WRITE" by (simp_all add: some_type_def)
  obtain ep1 where ep1: "CancelEvent READ fd (registry th) = Inr ep1" "epoll_inv ep1"
    using CancelEvent_inv [OF assms(1) types(1)] by blast
  obtain ep2 where ep2: "CancelEvent WRITE fd ep1 = Inr ep2" "epoll_inv ep2"
    using CancelEvent_inv [OF ep1(2) types(2)] by blast
  have gone: "reg_event ep2 fd = None" by (rule CancelEvent_both [OF assms(1) ep1(1) ep2(1)])
  have "fd_ok (ctxs ep2) (reg_event ep2 fd) (interest (ctl_log ep2) fd) fd"
    using ep2(2) by (simp add: epoll_inv_def)
  with gone have "interest (ctl_log ep2) fd = None" by (simp add: fd_ok_def)
  with assms(2) ep1 ep2 gone show ?thesis by (simp add: close_def lift_ep_def)
qed

theorem close_unregisters_witness:
  "\<exists>th'. close 3 hook_demo = Inr th' \<and> closed_fds th' = [3]"
  using close_unregisters [of hook_demo 3] hook_demo_ok
  by (auto simp: thread_ok_def GetHookEnable_def hook_demo_def)

end
