(* ===== verification/Event_Loop.thy ===== *)
theory Event_Loop
  imports Hook_Laws
begin

text \<open>
  The event loop of a thread, \<^verbatim>\<open>Schedule::Eventloop\<close> of \<^verbatim>\<open>src/src/coroutine.cc\<close>: it composes the timer
  wheel, the event registry and what their tasks do. The laws follow a timer from the call that
  adds it through the rounds of the loop.
\<close>

section \<open>The loop\<close>

definition MAX_EVENT :: nat where "MAX_EVENT = 1024"

datatype loop_error = LoopEpoll epoll_error | LoopTimer

text \<open>
  A round of the loop: the two readings of the clock, and what \<^verbatim>\<open>epoll_wait\<close> reports for a timeout. The
  handlers of events may change the registry, the wheel and the environment; the tasks of
  timers may add timers and change the registry and the environment.
\<close>

type_synonym loop_input = "nat \<times> (nat \<Rightarrow> (u32 \<times> ev_data) list) \<times> nat"
type_synonym ('k, 'f, 'e) loop_state = "'k epoll \<times> 'f time_wheel \<times> 'e"

definition loop_round ::
  "(nat \<Rightarrow> int) \<Rightarrow> ('k task \<Rightarrow> ('k, 'f, 'e) loop_state \<Rightarrow> ('k, 'f, 'e) loop_state) \<Rightarrow>
   ('f task \<Rightarrow> 'k epoll \<times> 'e \<Rightarrow> 'f request list \<times> 'k epoll \<times> 'e) \<Rightarrow> loop_input \<Rightarrow>
   ('k, 'f, 'e) loop_state \<Rightarrow> loop_error + ('k, 'f, 'e) loop_state" where
  "loop_round adr handle run input st =
     (case (input, st) of ((now, epoll_wait, now'), (ep, tw, e)) \<Rightarrow>
        let timeout = wait_timeout (GetNextTimeout now tw) in
        case dispatch_all adr handle (take MAX_EVENT (epoll_wait timeout)) (ep, tw, e) of
          Inl x \<Rightarrow> Inl (LoopEpoll x)
        | Inr (ep1, tw1, e1) \<Rightarrow>
            (case ExecuteTimeout run now' tw1 (ep1, e1) of
               None \<Rightarrow> Inl LoopTimer
             | Some (tw2, ep2, e2) \<Rightarrow> Inr (ep2, tw2, e2)))"

text \<open>The loop over a sequence of rounds; the result says whether it has returned.\<close>

fun Eventloop ::
  "(nat \<Rightarrow> int) \<Rightarrow> ('k task \<Rightarrow> ('k, 'f, 'e) loop_state \<Rightarrow> ('k, 'f, 'e) loop_state) \<Rightarrow>
   ('f task \<Rightarrow> 'k epoll \<times> 'e \<Rightarrow> 'f request list \<times> 'k epoll \<times> 'e) \<Rightarrow> loop_input list \<Rightarrow>
   ('k, 'f, 'e) loop_state \<Rightarrow> loop_error + bool \<times> ('k, 'f, 'e) loop_state" where
  "Eventloop adr handle run [] st = Inr (stoped (fst st), st)"
| "Eventloop adr handle run (input # inputs) st =
     (if stoped (fst st) then Inr (True, st)
      else res_bind (loop_round adr handle run input st) (Eventloop adr handle run inputs))"

section \<open>Timers in the loop\<close>

text \<open>The ticks that pass in rounds that end at the given times, counted from the last trigger.\<close>

fun loop_ticks :: "nat \<Rightarrow> nat \<Rightarrow> nat list \<Rightarrow> nat" where
  "loop_ticks g since [] = 0"
| "loop_ticks g since (now # nows) =
     (if since < now then (now - since) div g + loop_ticks g now nows else loop_ticks g since nows)"

text \<open>Each round loses less than a tick.\<close>

lemma loop_ticks_bound:
  assumes "0 < g" and "nows \<noteq> []" and "sorted (since # nows)"
  shows "last nows - since \<le> g * loop_ticks g since nows + length nows * (g - 1)"
  using assms(2,3)
proof (induction nows arbitrary: since)
  case (Cons now nows)
  have "(now - since) mod g \<le> g - 1" using assms(1) by (metis Suc_pred' less_Suc_eq_le mod_less_divisor)
  then have step: "now - since \<le> g * ((now - since) div g) + (g - 1)"
    using mult_div_mod_eq [of g "now - since"] by linarith
  show ?case
  proof (cases "nows = []")
    case True
    then show ?thesis using step by simp
  next
    case False
    with Cons have rest: "last nows - now \<le> g * loop_ticks g now nows + length nows * (g - 1)" "since \<le> now" "now \<le> last nows"
      by auto
    show ?thesis
    proof (cases "since = now")
      case True
      with rest False show ?thesis by (simp add: trans_le_add1 add.commute)
    next
      case False
      have "last nows - since = (last nows - now) + (now - since)" using rest by linarith
      also have "\<dots> \<le> g * loop_ticks g now nows + length nows * (g - 1) + (g * ((now - since) div g) + (g - 1))"
        using rest(1) step by (rule add_mono)
      finally show ?thesis using False rest(2) \<open>nows \<noteq> []\<close> by (simp add: add_mult_distrib2)
    qed
  qed
qed simp

text \<open>Tasks that add no timers: an abstract tick is a fold over what is due.\<close>

lemma fire_all_quiet: "(\<And>t e. run t e = ([], f t e)) \<Longrightarrow> fire_all run g ts sch e = (sch, fold f ts e)"
  by (induction ts arbitrary: e) simp_all

lemma sched_ticks_quiet:
  assumes "\<And>t e. run t e = ([], f t e)"
  shows "sched_ticks run g n sch e = (\<lambda>t. sch (t + n), fold f (concat (map sch [0..<n])) e)"
proof (induction n arbitrary: sch e)
  case (Suc n)
  have "sch 0 @ concat (map (\<lambda>t. sch (Suc t)) [0..<n]) = concat (map sch [0..<Suc n])"
    by (simp only: upt_conv_Cons [of 0 "Suc n"] map_Suc_upt [symmetric]) (simp add: comp_def)
  then have "fold f (concat (map (\<lambda>t. sch (Suc t)) [0..<n])) (fold f (sch 0) e) = fold f (concat (map sch [0..<Suc n])) e"
    by (metis comp_apply fold_append)
  with Suc show ?case by (simp add: fire_all_quiet [OF assms])
qed simp

lemma concat_due_shift: "concat (map (\<lambda>t. sch (t + a)) [0..<b]) = concat (map sch [a..<a + b])"
  by (induction b) (simp_all add: add.commute)

lemma concat_due_append: "concat (map sch [0..<a]) @ concat (map (\<lambda>t. sch (t + a)) [0..<b]) = concat (map sch [0..<a + b])"
  unfolding concat_due_shift using upt_add_eq_append [of 0 a b] by simp

lemma ExecuteTimeout_quiet:
  assumes ok: "wheel_ok tw" and run: "\<And>t e. run t e = ([], f t e)"
    and d_def: "d = loop_ticks (granularity tw) (last_trigger tw) [now]"
  shows "\<exists>tw'. ExecuteTimeout run now tw e = Some (tw', fold f (concat (map (due tw) [0..<d])) e) \<and> wheel_ok tw' \<and>
    granularity tw' = granularity tw \<and> last_trigger tw' = max now (last_trigger tw) \<and> due tw' = (\<lambda>t. due tw (t + d))"
proof (cases "last_trigger tw < now")
  case False
  then show ?thesis using ok by (simp add: ExecuteTimeout_def d_def)
next
  case True
  then have d: "d = (now - last_trigger tw) div granularity tw" by (simp add: d_def)
  have safe: "safe_run run tw" by (simp add: safe_run_def run)
  obtain tw' e' where t: "tick_loop run d tw e = Some (tw', e')" "wheel_ok tw'" "granularity tw' = granularity tw"
      "(due tw', e') = sched_ticks run (granularity tw) d (due tw) e"
    using tick_loop_due [OF ok safe] by blast
  have "due (tw'\<lparr>last_trigger := now\<rparr>) = due tw'" by (auto simp: due_def)
  moreover have "wheel_ok (tw'\<lparr>last_trigger := now\<rparr>)" using t(2) by (simp add: wheel_ok_def)
  ultimately show ?thesis
    using t wheel_okD(3) [OF ok] True
    by (intro exI [of _ "tw'\<lparr>last_trigger := now\<rparr>"])
      (simp add: ExecuteTimeout_def d [symmetric] sched_ticks_quiet [OF run] max_def)
qed

text \<open>Rounds in which no descriptor is ready.\<close>

definition idle :: "loop_input \<Rightarrow> bool" where
  "idle input \<longleftrightarrow> (case input of (now, epoll_wait, now') \<Rightarrow> \<forall>t. epoll_wait t = [])"

definition round_end :: "loop_input \<Rightarrow> nat" where
  "round_end input = (case input of (now, epoll_wait, now') \<Rightarrow> now')"

text \<open>Tasks that only leave a trace, and handlers that may change the registry but do not stop the loop.\<close>

definition loop_trace :: "'f task \<Rightarrow> 'k epoll \<times> 'f task list \<Rightarrow> 'f request list \<times> 'k epoll \<times> 'f task list" where
  "loop_trace t p = ([], fst p, snd p @ [t])"

definition registry_only :: "('k task \<Rightarrow> ('k, 'f, 'e) loop_state \<Rightarrow> ('k, 'f, 'e) loop_state) \<Rightarrow> bool" where
  "registry_only handle \<longleftrightarrow> (\<forall>t st. snd (handle t st) = snd st \<and> stoped (fst (handle t st)) = stoped (fst st))"

lemma loop_trace_adds: "loop_trace t p = ([], snd (loop_trace t p))"
  by (simp add: loop_trace_def)

lemma fold_loop_trace: "fold (\<lambda>t p. snd (loop_trace t p)) ts (ep, e) = (ep, e @ ts)"
  by (induction ts arbitrary: e) (simp_all add: loop_trace_def)

lemma run_handler_registry_only:
  "registry_only handle \<Longrightarrow> snd (run_handler handle cb co st) = snd st \<and> stoped (fst (run_handler handle cb co st)) = stoped (fst st)"
  by (cases st) (simp add: run_handler_def registry_only_def split: option.split)

lemma dispatch_registry_only:
  "registry_only handle \<Longrightarrow> dispatch adr handle ev st = Inr st' \<Longrightarrow> snd st' = snd st \<and> stoped (fst st') = stoped (fst st)"
  by (auto simp: dispatch_def Let_def run_handler_registry_only split: option.splits if_splits)

lemma dispatch_all_registry_only:
  "registry_only handle \<Longrightarrow> dispatch_all adr handle evs st = Inr st' \<Longrightarrow> snd st' = snd st \<and> stoped (fst st') = stoped (fst st)"
proof (induction evs arbitrary: st)
  case (Cons ev evs)
  then obtain st1 where "dispatch adr handle ev st = Inr st1" "dispatch_all adr handle evs st1 = Inr st'"
    by (cases "dispatch adr handle ev st") auto
  with Cons dispatch_registry_only [OF Cons.prems(1), of adr ev st st1] show ?case by simp
qed simp

text \<open>
  Such rounds run exactly what is due in their ticks, unless an event of an unknown descriptor ends the loop.
\<close>

lemma Eventloop_quiet:
  fixes handle :: "'k task \<Rightarrow> ('k, 'f, 'f task list) loop_state \<Rightarrow> ('k, 'f, 'f task list) loop_state"
  assumes "wheel_ok tw" and quiet: "registry_only handle" and "\<not> stoped ep"
    and n_def: "n = loop_ticks (granularity tw) (last_trigger tw) (map round_end inputs)"
  shows "(\<exists>x. Eventloop adr handle loop_trace inputs (ep, tw, log) = Inl (LoopEpoll x)) \<and> (\<exists>i\<in>set inputs. \<not> idle i) \<or>
    (\<exists>ep' tw'. Eventloop adr handle loop_trace inputs (ep, tw, log) =
      Inr (False, ep', tw', log @ concat (map (due tw) [0..<n])) \<and> \<not> stoped ep')"
  using assms(1,3) unfolding n_def
proof (induction inputs arbitrary: ep tw log)
  case (Cons input inputs)
  obtain now w now' where input: "input = (now, w, now')" by (cases input)
  let ?evs = "take MAX_EVENT (w (wait_timeout (GetNextTimeout now tw)))"
  show ?case
  proof (cases "dispatch_all adr handle ?evs (ep, tw, log)")
    case (Inl x)
    then have "\<not> idle input" by (cases "idle input") (simp_all add: input idle_def)
    with Inl Cons.prems(2) show ?thesis by (simp add: input loop_round_def)
  next
    case (Inr st1)
    define d where "d = loop_ticks (granularity tw) (last_trigger tw) [now']"
    from dispatch_all_registry_only [OF quiet Inr] obtain ep1 where st1: "st1 = (ep1, tw, log)" "\<not> stoped ep1"
      using Cons.prems(2) by (cases st1) auto
    obtain tw1 where tw1: "ExecuteTimeout loop_trace now' tw (ep1, log) = Some (tw1, ep1, log @ concat (map (due tw) [0..<d]))"
        "wheel_ok tw1" "granularity tw1 = granularity tw" "last_trigger tw1 = max now' (last_trigger tw)"
        "due tw1 = (\<lambda>t. due tw (t + d))"
      using ExecuteTimeout_quiet [where f = "\<lambda>t p. snd (loop_trace t p)" and e = "(ep1, log)", OF Cons.prems(1) loop_trace_adds d_def]
      by (auto simp: fold_loop_trace)
    have round: "loop_round adr handle loop_trace input (ep, tw, log) = Inr (ep1, tw1, log @ concat (map (due tw) [0..<d]))"
      using tw1(1) Inr by (simp add: loop_round_def input st1)
    define m where "m = loop_ticks (granularity tw) (last_trigger tw1) (map round_end inputs)"
    have n: "loop_ticks (granularity tw) (last_trigger tw) (map round_end (input # inputs)) = d + m"
      by (simp add: d_def m_def tw1(4) input round_end_def max_def)
    show ?thesis
      using Cons.IH [OF tw1(2) st1(2), of "log @ concat (map (due tw) [0..<d])"] Cons.prems(2) tw1(3,5) unfolding n
      by (auto simp: round m_def [symmetric] concat_due_append [symmetric])
  qed
qed simp

section \<open>The abstract loop\<close>

text \<open>
  What the loop promises, over the abstract schedule of the timers instead of the wheel. A handler of an
  event and a task of a timer are programs that may change the registry (register and cancel
  events, stop the loop), add timers and act on their environment. A report names a
  descriptor or, after an event was cancelled, the address of its context.
\<close>

type_synonym ('k, 'f, 'e) spec_state = "'k epoll \<times> (nat \<Rightarrow> 'f task list) \<times> 'e"
type_synonym loop_report = "nat \<times> (u32 \<times> ev_data) list \<times> nat"

definition handler_task :: "'k option \<Rightarrow> nat option \<Rightarrow> 'k task list" where
  "handler_task cb co = (case cb of Some f \<Rightarrow> [Func f] | None \<Rightarrow> (case co of Some c \<Rightarrow> [task.Resume c] | None \<Rightarrow> []))"

definition reader_tasks :: "u32 \<Rightarrow> 'k event_ctx \<Rightarrow> 'k task list" where
  "reader_tasks msk ctx = (if msk AND EPOLLIN \<noteq> 0 then handler_task (r_callback ctx) (r_co ctx) else [])"

definition writer_tasks :: "u32 \<Rightarrow> 'k event_ctx \<Rightarrow> 'k task list" where
  "writer_tasks msk ctx = (if msk AND EPOLLOUT \<noteq> 0 then handler_task (w_callback ctx) (w_co ctx) else [])"

definition spec_handle ::
  "nat \<Rightarrow> ('k task \<Rightarrow> 'k epoll \<times> 'e \<Rightarrow> 'f request list \<times> 'k epoll \<times> 'e) \<Rightarrow> 'k task \<Rightarrow>
   ('k, 'f, 'e) spec_state \<Rightarrow> ('k, 'f, 'e) spec_state" where
  "spec_handle g prog t st =
     (case st of (ep, sch, e) \<Rightarrow> case prog t (ep, e) of (reqs, ep1, e1) \<Rightarrow> (ep1, fold (sched_add g) reqs sch, e1))"

text \<open>
  An event runs the reader of the registered context, then its writer as the reader has left it; for an
  unknown descriptor the code dereferences a null pointer or leaves a null entry behind.
\<close>

definition spec_event ::
  "(nat \<Rightarrow> int) \<Rightarrow> ('k task \<Rightarrow> ('k, 'f, 'e) spec_state \<Rightarrow> ('k, 'f, 'e) spec_state) \<Rightarrow> u32 \<times> ev_data \<Rightarrow>
   ('k, 'f, 'e) spec_state \<Rightarrow> epoll_error + ('k, 'f, 'e) spec_state" where
  "spec_event adr h ev st =
     (case (ev, st) of ((msk, dat), (ep, sch, e)) \<Rightarrow>
        case Option.bind (reg_event ep (data_fd adr dat)) id of
          Some p \<Rightarrow>
            (let st1 = fold h (reader_tasks msk (ctxs ep ! p)) st
             in Inr (fold h (writer_tasks msk (ctxs (fst st1) ! p)) st1))
        | None \<Rightarrow>
            if msk AND (EPOLLIN OR EPOLLOUT) \<noteq> 0 then Inl NullCtx
            else Inr (ep\<lparr>reg_event := (reg_event ep)(data_fd adr dat \<mapsto> None)\<rparr>, sch, e))"

fun spec_events ::
  "(nat \<Rightarrow> int) \<Rightarrow> ('k task \<Rightarrow> ('k, 'f, 'e) spec_state \<Rightarrow> ('k, 'f, 'e) spec_state) \<Rightarrow> (u32 \<times> ev_data) list \<Rightarrow>
   ('k, 'f, 'e) spec_state \<Rightarrow> epoll_error + ('k, 'f, 'e) spec_state" where
  "spec_events adr h [] st = Inr st"
| "spec_events adr h (ev # evs) st = res_bind (spec_event adr h ev st) (spec_events adr h evs)"

text \<open>
  A round: the reported events in their order, then the timers due in the whole ticks that have passed
  since the last round that ran timers; the loop goes on until it is stopped.
\<close>

fun loop_spec ::
  "(nat \<Rightarrow> int) \<Rightarrow> ('k task \<Rightarrow> 'k epoll \<times> 'e \<Rightarrow> 'f request list \<times> 'k epoll \<times> 'e) \<Rightarrow>
   ('f task \<Rightarrow> 'k epoll \<times> 'e \<Rightarrow> 'f request list \<times> 'k epoll \<times> 'e) \<Rightarrow> nat \<Rightarrow> nat \<Rightarrow> loop_report list \<Rightarrow>
   ('k, 'f, 'e) spec_state \<Rightarrow> loop_error + bool \<times> ('k, 'f, 'e) spec_state" where
  "loop_spec adr prog run g since [] st = Inr (stoped (fst st), st)"
| "loop_spec adr prog run g since ((now, evs, now') # rs) st =
     (if stoped (fst st) then Inr (True, st)
      else case spec_events adr (spec_handle g prog) evs st of
        Inl x \<Rightarrow> Inl (LoopEpoll x)
      | Inr (ep1, sch1, e1) \<Rightarrow>
          (case sched_ticks run g ((now' - since) div g) sch1 (ep1, e1) of (sch2, ep2, e2) \<Rightarrow>
             loop_spec adr prog run g (max now' since) rs (ep2, sch2, e2)))"

text \<open>The same programs on the wheel, and the reports as inputs of the loop.\<close>

definition handle_with ::
  "('k task \<Rightarrow> 'k epoll \<times> 'e \<Rightarrow> 'f request list \<times> 'k epoll \<times> 'e) \<Rightarrow> 'k task \<Rightarrow>
   ('k, 'f, 'e) loop_state \<Rightarrow> ('k, 'f, 'e) loop_state" where
  "handle_with prog t st =
     (case st of (ep, tw, e) \<Rightarrow> case prog t (ep, e) of (reqs, ep1, e1) \<Rightarrow> (ep1, the (add_timers reqs tw), e1))"

definition report_input :: "loop_report \<Rightarrow> loop_input" where
  "report_input r = (case r of (now, evs, now') \<Rightarrow> (now, \<lambda>_. evs, now'))"

definition requests_ok :: "('k task \<Rightarrow> 'k epoll \<times> 'e \<Rightarrow> 'f request list \<times> 'k epoll \<times> 'e) \<Rightarrow> 'f time_wheel \<Rightarrow> bool" where
  "requests_ok prog tw \<longleftrightarrow> (\<forall>t p. \<forall>r\<in>set (fst (prog t p)). req_ok tw r)"

text \<open>The wheel stands for its schedule while the handlers of a round run.\<close>

definition sim :: "'f time_wheel \<Rightarrow> ('k, 'f, 'e) loop_state \<Rightarrow> ('k, 'f, 'e) spec_state \<Rightarrow> bool" where
  "sim tw0 st ast \<longleftrightarrow> (case (st, ast) of ((ep, tw, e), (ep', sch, e')) \<Rightarrow>
     ep = ep' \<and> e = e' \<and> wheel_ok tw \<and> same_shape tw0 tw \<and> due tw = sch)"

lemma sim_fst: "sim tw0 st ast \<Longrightarrow> fst ast = fst st"
  by (auto simp: sim_def)

lemma handle_sim:
  assumes "requests_ok prog tw0" and "sim tw0 st ast"
  shows "sim tw0 (handle_with prog t st) (spec_handle (granularity tw0) prog t ast)"
proof -
  obtain ep tw e where st: "st = (ep, tw, e)" by (cases st)
  have tw: "wheel_ok tw" "same_shape tw0 tw" "ast = (ep, due tw, e)" using assms(2) by (cases ast; simp add: st sim_def)+
  obtain reqs ep1 e1 where p: "prog t (ep, e) = (reqs, ep1, e1)" by (cases "prog t (ep, e)")
  have "\<forall>r\<in>set reqs. req_ok tw r"
    using assms(1) p req_ok_same_shape [OF tw(2)] by (metis fst_conv requests_ok_def)
  then obtain tw1 where "add_timers reqs tw = Some tw1" "wheel_ok tw1" "same_shape tw tw1"
      "due tw1 = fold (sched_add (granularity tw)) reqs (due tw)"
    using add_timers_due [OF tw(1)] by blast
  moreover have "granularity tw = granularity tw0" using tw(2) by (simp add: same_shape_def)
  ultimately show ?thesis
    using same_shape_trans [OF tw(2), of tw1] by (simp add: sim_def handle_with_def spec_handle_def st tw(3) p)
qed

lemma fold_sim:
  assumes "requests_ok prog tw0"
  shows "sim tw0 st ast \<Longrightarrow> sim tw0 (fold (handle_with prog) ts st) (fold (spec_handle (granularity tw0) prog) ts ast)"
  by (induction ts arbitrary: st ast) (simp_all add: handle_sim [OF assms])

lemma run_handler_fold: "run_handler h cb co st = fold h (handler_task cb co) st"
  by (simp add: run_handler_def handler_task_def split: option.split)

lemma dispatch_sim:
  assumes ok: "requests_ok prog tw0" and sim: "sim tw0 st ast"
  shows "rel_sum (=) (sim tw0) (dispatch adr (handle_with prog) ev st) (spec_event adr (spec_handle (granularity tw0) prog) ev ast)"
proof -
  obtain msk dat where ev: "ev = (msk, dat)" by (cases ev)
  obtain ep tw e where st: "st = (ep, tw, e)" by (cases st)
  have ast: "ast = (ep, due tw, e)" using sim by (cases ast; simp add: st sim_def)
  show ?thesis
  proof (cases "Option.bind (reg_event ep (data_fd adr dat)) id")
    case None
    then have "reg_event ep (data_fd adr dat) \<in> {None, Some None}" by (cases "reg_event ep (data_fd adr dat)") auto
    with sim show ?thesis by (auto simp: dispatch_def spec_event_def ev st ast sim_def fun_upd_idem)
  next
    case (Some p)
    then have reg: "reg_event ep (data_fd adr dat) = Some (Some p)" by (cases "reg_event ep (data_fd adr dat)") auto
    let ?h = "handle_with prog" and ?a = "spec_handle (granularity tw0) prog"
    let ?st1 = "fold ?h (reader_tasks msk (ctxs ep ! p)) st"
    have "dispatch adr ?h ev st = Inr (fold ?h (writer_tasks msk (ctxs (fst ?st1) ! p)) ?st1)"
      by (simp add: dispatch_def ev st reg reader_tasks_def writer_tasks_def run_handler_fold Let_def)
    moreover note sim1 = fold_sim [OF ok sim, of "reader_tasks msk (ctxs ep ! p)"]
    ultimately show ?thesis
      using fold_sim [OF ok sim1] sim_fst [OF sim1] reg by (simp add: spec_event_def ev ast Let_def)
  qed
qed

lemma dispatch_all_sim:
  assumes "requests_ok prog tw0"
  shows "sim tw0 st ast \<Longrightarrow>
    rel_sum (=) (sim tw0) (dispatch_all adr (handle_with prog) evs st) (spec_events adr (spec_handle (granularity tw0) prog) evs ast)"
proof (induction evs arbitrary: st ast)
  case (Cons ev evs)
  from dispatch_sim [OF assms Cons.prems, of adr ev] Cons.IH show ?case
    by (cases rule: rel_sum.cases) auto
qed simp

text \<open>A round of the wheel is a round of the schedule.\<close>

lemma ExecuteTimeout_sched:
  assumes ok: "wheel_ok tw" and safe: "safe_run run tw"
  shows "\<exists>tw' e'. ExecuteTimeout run now tw e = Some (tw', e') \<and> wheel_ok tw' \<and> slots tw' = slots tw \<and>
    granularity tw' = granularity tw \<and> last_trigger tw' = max now (last_trigger tw) \<and>
    (due tw', e') = sched_ticks run (granularity tw) ((now - last_trigger tw) div granularity tw) (due tw) e"
proof (cases "now \<le> last_trigger tw")
  case True
  then show ?thesis using ok by (simp add: ExecuteTimeout_def)
next
  case False
  obtain tw' e' where t: "tick_loop run ((now - last_trigger tw) div granularity tw) tw e = Some (tw', e')" "wheel_ok tw'"
      "slots tw' = slots tw" "granularity tw' = granularity tw"
      "(due tw', e') = sched_ticks run (granularity tw) ((now - last_trigger tw) div granularity tw) (due tw) e"
    using tick_loop_due [OF ok safe] by blast
  have "due (tw'\<lparr>last_trigger := now\<rparr>) = due tw'" by (auto simp: due_def)
  moreover have "wheel_ok (tw'\<lparr>last_trigger := now\<rparr>)" using t(2) by (simp add: wheel_ok_def)
  ultimately show ?thesis
    using t wheel_okD(3) [OF ok] False
    by (intro exI [of _ "tw'\<lparr>last_trigger := now\<rparr>"] exI [of _ e']) (simp add: ExecuteTimeout_def max_def)
qed

lemma safe_run_shape: "slots tw' = slots tw \<Longrightarrow> granularity tw' = granularity tw \<Longrightarrow> safe_run run tw' = safe_run run tw"
  by (simp add: safe_run_def req_ok_def)

lemma requests_ok_shape: "granularity tw' = granularity tw \<Longrightarrow> requests_ok prog tw' = requests_ok prog tw"
  by (simp add: requests_ok_def req_ok_def)

section \<open>Properties of the event loop\<close>

text \<open>
  C4: The event loop implements the abstract loop: from any registry and any wheel of one-shot timers, for any
  rounds, with handlers and timer tasks that may register, cancel, stop the loop, add one-shot timers
  and act on their environment, the loop ends as the abstract loop does, with the same
  registry, environment and schedule, or with the same null dereference when a
  descriptor is reported that is not registered. The tasks of timers add no timer of \<open>slots - 1\<close> ticks
  modulo \<open>slots\<close>, for which the wheel may not return.
\<close>

theorem Eventloop_refines_loop_spec:
  assumes "wheel_ok tw" and "safe_run run tw" and "requests_ok prog tw"
    and "\<forall>(now, evs, now')\<in>set rs. length evs \<le> MAX_EVENT"
  shows "map_sum id (\<lambda>(ended, ep', tw', e'). (ended, ep', due tw', e'))
      (Eventloop adr (handle_with prog) run (map report_input rs) (ep, tw, e)) =
    loop_spec adr prog run (granularity tw) (last_trigger tw) rs (ep, due tw, e)"
  using assms
proof (induction rs arbitrary: ep tw e)
  case (Cons r rs)
  obtain now evs now' where r: "r = (now, evs, now')" by (cases r)
  let ?g = "granularity tw"
  have "sim tw (ep, tw, e) (ep, due tw, e)" using Cons.prems(1) by (simp add: sim_def same_shape_def)
  note evs = dispatch_all_sim [OF Cons.prems(3) this, of adr evs]
  have room: "take MAX_EVENT evs = evs" using Cons.prems(4) by (simp add: r)
  show ?case
  proof (cases "stoped ep \<or> (\<exists>x. dispatch_all adr (handle_with prog) evs (ep, tw, e) = Inl x)")
    case True
    with evs show ?thesis by (auto simp: r report_input_def loop_round_def room elim!: rel_sum.cases)
  next
    case False
    then obtain ep1 tw1 e1 where d: "dispatch_all adr (handle_with prog) evs (ep, tw, e) = Inr (ep1, tw1, e1)"
      by (cases "dispatch_all adr (handle_with prog) evs (ep, tw, e)") auto
    with evs have spec: "spec_events adr (spec_handle ?g prog) evs (ep, due tw, e) = Inr (ep1, due tw1, e1)"
      and ok1: "wheel_ok tw1" "same_shape tw tw1"
      by (auto simp: rel_sum_simps sim_def elim!: rel_sum.cases)
    from ok1(2) have shape: "slots tw1 = slots tw" "granularity tw1 = ?g" "last_trigger tw1 = last_trigger tw"
      by (simp_all add: same_shape_def)
    obtain tw2 ep2 e2 where x: "ExecuteTimeout run now' tw1 (ep1, e1) = Some (tw2, ep2, e2)" "wheel_ok tw2" "slots tw2 = slots tw"
        "granularity tw2 = ?g" "last_trigger tw2 = max now' (last_trigger tw)"
        "(due tw2, ep2, e2) = sched_ticks run ?g ((now' - last_trigger tw) div ?g) (due tw1) (ep1, e1)"
      using ExecuteTimeout_sched [OF ok1(1), of run now' "(ep1, e1)"] Cons.prems(2) safe_run_shape [OF shape(1,2), of run]
      by (auto simp: shape)
    have "safe_run run tw2" "requests_ok prog tw2"
      using Cons.prems(2,3) safe_run_shape [OF x(3,4), of run] requests_ok_shape [OF x(4), of prog] by simp_all
    with Cons.IH [OF x(2), of ep2 e2] Cons.prems(4) False show ?thesis
      by (simp add: r report_input_def loop_round_def room d x(1,4,5) spec x(6) [symmetric])
  qed
qed simp

text \<open>A coroutine waiting to read that adds a timer of one tick when it runs; the timer stops the loop.\<close>

definition demo_registry :: "nat epoll" where
  "demo_registry = Epoll\<lparr>reg_event := [5 \<mapsto> Some 0],
     ctxs := [\<lparr>ev_type = READ, ev_fd = 5, r_callback = None, w_callback = None, r_co = Some 3, w_co = None\<rparr>]\<rparr>"

definition demo_handler ::
  "nat task \<Rightarrow> nat epoll \<times> nat task list \<Rightarrow> nat request list \<times> nat epoll \<times> nat task list" where
  "demo_handler t p = ([\<lparr>req_timeout = 10, req_func = 7, req_co = None, req_times = 1, req_clock = 0\<rparr>], fst p, snd p @ [t])"

definition demo_timer ::
  "nat task \<Rightarrow> nat epoll \<times> nat task list \<Rightarrow> nat request list \<times> nat epoll \<times> nat task list" where
  "demo_timer t p = ([], StopEventLoop True (fst p), snd p @ [t])"

theorem Eventloop_refines_loop_spec_witness:
  "\<exists>tw'. Eventloop (\<lambda>_. 0) (handle_with demo_handler) demo_timer
      (map report_input [(0, [(EPOLLIN, DataFd 5)], 12), (12, [], 25), (25, [(EPOLLIN, DataFd 5)], 40)])
      (demo_registry, TimeWheel 4 10 0, [])
    = Inr (True, StopEventLoop True demo_registry, tw', [task.Resume 3, Func 7])"
proof -
  let ?tw = "TimeWheel 4 10 0 :: nat time_wheel"
  let ?rs = "[(0, [(EPOLLIN, DataFd 5)], 12), (12, [], 25), (25, [(EPOLLIN, DataFd 5)], 40)] :: loop_report list"
  have ok: "wheel_ok ?tw" by (rule wheel_ok_TimeWheel) simp_all
  have none: "due ?tw = (\<lambda>t. [])" by (simp add: due_TimeWheel fun_eq_iff)
  have g: "granularity ?tw = 10" "last_trigger ?tw = 0" by (simp_all add: TimeWheel_def)
  have safe: "safe_run demo_timer ?tw" by (simp add: safe_run_def demo_timer_def)
  have req: "requests_ok demo_handler ?tw" by (simp add: requests_ok_def demo_handler_def req_ok_def g)
  have room: "\<forall>(now, evs, now')\<in>set ?rs. length evs \<le> MAX_EVENT" by (simp add: MAX_EVENT_def)
  have "loop_spec (\<lambda>_. 0) demo_handler demo_timer 10 0 ?rs (demo_registry, \<lambda>t. [], []) =
      Inr (True, StopEventLoop True demo_registry, \<lambda>t. [], [task.Resume 3, Func 7])"
    by (simp add: spec_event_def spec_handle_def reader_tasks_def writer_tasks_def handler_task_def demo_registry_def Epoll_def
        demo_handler_def demo_timer_def StopEventLoop_def event_bits sched_add_def req_task_def Let_def)
  with Eventloop_refines_loop_spec [OF ok safe req room, of "\<lambda>_. 0" demo_registry "[]"] show ?thesis
    unfolding none g
    by (cases "Eventloop (\<lambda>_. 0) (handle_with demo_handler) demo_timer (map report_input ?rs) (demo_registry, ?tw, [])")
      (auto simp del: Eventloop.simps loop_spec.simps)
qed

lemma count_concat_upd:
  "count_list (concat (map (sch(n := sch n @ [x])) [0..<m])) x = count_list (concat (map sch [0..<m])) x + (if n < m then 1 else 0)"
proof (induction m)
  case (Suc m)
  then show ?case by (cases m n rule: linorder_cases) (auto simp del: fun_upd_apply simp: fun_upd_other fun_upd_same)
qed simp

text \<open>
  C19: A sleeping coroutine is resumed by the rounds that follow and only when enough of them are long: a coroutine calls
  the hooked \<^verbatim>\<open>sleep\<close> for \<open>n\<close> ticks and the event loop then runs any rounds, with handlers that may change the
  registry but add no timer and do not stop the loop. Unless the event of an unknown descriptor ends
  the loop, it has resumed the coroutine once more than what was already due, exactly when
  the whole ticks counted round by round exceed \<open>n\<close>. Each round drops its fraction of a tick, so that
  frequent rounds starve the sleeper; \<open>n + 1\<close> ticks and less than a tick for each round are
  enough.
\<close>

theorem sleeper_is_resumed:
  assumes "thread_ok th" and "GetHookEnable th" and "2 \<le> length (co_stack (sched th))" and "wheel_ok (timers th)"
    and "\<not> stoped (registry th)" and quiet: "registry_only handle"
    and n: "n = unat seconds * 1000 mod 2 ^ 32 div granularity (timers th)" and "n < 2 ^ 31"
    and c_def: "c = last (co_stack (sched th))"
    and d_def: "d = loop_ticks (granularity (timers th)) (last_trigger (timers th)) (map round_end inputs)"
  shows "\<exists>th'. sleep seconds clock sp th = Some (Inr th') \<and> co_stack (sched th') = butlast (co_stack (sched th)) \<and>
    (case Eventloop adr handle loop_trace inputs (registry th', timers th', []) of
       Inl err \<Rightarrow> (\<exists>x. err = LoopEpoll x) \<and> (\<exists>i\<in>set inputs. \<not> idle i)
     | Inr (ended, ep, tw, log) \<Rightarrow> \<not> ended \<and>
         count_list log (task.Resume c) = count_list (concat (map (due (timers th)) [0..<d])) (task.Resume c) + (if n < d then 1 else 0)) \<and>
    (inputs \<noteq> [] \<and> sorted (last_trigger (timers th) # map round_end inputs) \<and>
     granularity (timers th) * Suc n + length inputs * (granularity (timers th) - 1) \<le>
       last (map round_end inputs) - last_trigger (timers th) \<longrightarrow> n < d)"
proof -
  let ?g = "granularity (timers th)"
  obtain th' where th': "sleep seconds clock sp th = Some (Inr th')" "wheel_ok (timers th')" "registry th' = registry th"
      "same_shape (timers th) (timers th')" "co_stack (sched th') = butlast (co_stack (sched th))"
      "due (timers th') = (due (timers th))(n := due (timers th) n @ [task.Resume c])"
    using sleep_schedules [OF assms(1-4) n \<open>n < 2 ^ 31\<close>, of clock sp] unfolding c_def by blast
  have shape: "granularity (timers th') = ?g" "last_trigger (timers th') = last_trigger (timers th)"
    using th'(4) by (simp_all add: same_shape_def)
  have run: "\<not> stoped (registry th')" using assms(5) th'(3) by simp
  have long: "n < d" if "inputs \<noteq> []" "sorted (last_trigger (timers th) # map round_end inputs)"
    "?g * Suc n + length inputs * (?g - 1) \<le> last (map round_end inputs) - last_trigger (timers th)"
  proof -
    have g: "0 < ?g" using wheel_okD(3) [OF assms(4)] .
    have "?g * Suc n \<le> ?g * d" using loop_ticks_bound [OF g _ that(2)] that(1,3) unfolding d_def by force
    then have "Suc n \<le> d" using g by (simp only: mult_le_cancel1)
    then show ?thesis by simp
  qed
  from Eventloop_quiet [OF th'(2) quiet run refl, of adr inputs "[]"] th'(1,5,6) long show ?thesis
    unfolding shape d_def [symmetric] by (intro exI [of _ th']) (auto simp: count_concat_upd)
qed

theorem sleeper_is_resumed_witness:
  "\<exists>th' ep tw log. sleep 2 0 0 hook_demo = Some (Inr th') \<and>
    Eventloop (\<lambda>_. 0) (\<lambda>t st. st) loop_trace [(0, \<lambda>_. [], 1000), (1000, \<lambda>_. [], 2100)] (registry th', timers th', []) =
      Inr (False, ep, tw, log) \<and> count_list log (task.Resume 1) = 1"
proof -
  let ?inputs = "[(0, \<lambda>_. [], 1000), (1000, \<lambda>_. [], 2100)] :: loop_input list"
  have stack: "2 \<le> length (co_stack (sched hook_demo))" "1 = last (co_stack (sched hook_demo))" by (simp_all add: hook_demo_stack)
  have wheel: "last_trigger (timers hook_demo) = 0" "\<not> stoped (registry hook_demo)" "GetHookEnable hook_demo"
    by (simp_all add: hook_demo_def TimeWheel_def Epoll_def GetHookEnable_def)
  have quiet: "registry_only (\<lambda>t st. st)" by (simp add: registry_only_def)
  have idle: "\<not> (\<exists>i\<in>set ?inputs. \<not> idle i)" by (simp add: idle_def)
  have n: "200 = unat (2 :: u32) * 1000 mod 2 ^ 32 div granularity (timers hook_demo)" by (simp add: hook_demo_wheel)
  have d: "210 = loop_ticks (granularity (timers hook_demo)) (last_trigger (timers hook_demo)) (map round_end ?inputs)"
    by (simp add: hook_demo_wheel wheel round_end_def)
  have none: "concat (map (due (timers hook_demo)) xs) = []" for xs by (induction xs) (simp_all add: hook_demo_wheel)
  obtain th' where th': "sleep 2 0 0 hook_demo = Some (Inr th')"
    "case Eventloop (\<lambda>_. 0) (\<lambda>t st. st) loop_trace ?inputs (registry th', timers th', []) of
       Inl err \<Rightarrow> (\<exists>x. err = LoopEpoll x) \<and> (\<exists>i\<in>set ?inputs. \<not> idle i)
     | Inr (ended, ep, tw, log) \<Rightarrow> \<not> ended \<and> count_list log (task.Resume 1) =
         count_list (concat (map (due (timers hook_demo)) [0..<210])) (task.Resume 1) + (if (200::nat) < 210 then 1 else 0)"
    using sleeper_is_resumed [OF hook_demo_ok wheel(3) stack(1) hook_demo_wheel(1) wheel(2) quiet n _ stack(2) d, of 0 0 "\<lambda>_. 0"]
    by (auto simp del: Eventloop.simps)
  from th'(2) idle show ?thesis
    unfolding none
    by (cases "Eventloop (\<lambda>_. 0) (\<lambda>t st. st) loop_trace ?inputs (registry th', timers th', [])")
      (use th'(1) in \<open>auto simp del: Eventloop.simps\<close>)
qed

end
