(* ===== verification/Sylar_Strings.thy ===== *)
theory Sylar_Strings
  imports Sylar_Prelude
begin

text \<open>
  What the framework uses of the standard library's strings, streams and ordered maps,
  with the lemmas the components share: searching, words and lines, decimal numbers, and
  maps from strings kept as ordered association lists.
\<close>

named_theorems text_simps "searching and splitting strings"

section \<open>Strings\<close>

text \<open>Characters of the C locale.\<close>

definition CR :: char where "CR = CHR 0x0D"
definition LF :: char where "LF = CHR 0x0A"

definition CRLF :: string where "CRLF = [CR, LF]"

definition isspace :: "char \<Rightarrow> bool" where
  "isspace c \<longleftrightarrow> c \<in> {CHR '' '', CHR 0x09, CHR 0x0A, CHR 0x0B, CHR 0x0C, CHR 0x0D}"

definition toupper :: "char \<Rightarrow> char" where
  "toupper c = (if 97 \<le> (of_char c :: nat) \<and> (of_char c :: nat) \<le> 122 then char_of ((of_char c :: nat) - 32) else c)"

definition tolower :: "char \<Rightarrow> char" where
  "tolower c = (if 65 \<le> (of_char c :: nat) \<and> (of_char c :: nat) \<le> 90 then char_of ((of_char c :: nat) + 32) else c)"

definition isalpha :: "char \<Rightarrow> bool" where
  "isalpha c \<longleftrightarrow> 65 \<le> (of_char c :: nat) \<and> (of_char c :: nat) \<le> 90 \<or> 97 \<le> (of_char c :: nat) \<and> (of_char c :: nat) \<le> 122"

text \<open>\<^verbatim>\<open>substr(pos, n)\<close> of a string, for a position inside it.\<close>

definition substr :: "nat \<Rightarrow> nat \<Rightarrow> string \<Rightarrow> string" where
  "substr pos n s = take n (drop pos s)"

text \<open>The position of the first occurrence of a string; \<open>None\<close> is \<^verbatim>\<open>npos\<close>.\<close>

fun is_prefix :: "'a list \<Rightarrow> 'a list \<Rightarrow> bool" where
  "is_prefix [] ys = True"
| "is_prefix (x # xs) [] = False"
| "is_prefix (x # xs) (y # ys) = (x = y \<and> is_prefix xs ys)"

fun find_str :: "'a list \<Rightarrow> 'a list \<Rightarrow> nat option" where
  "find_str p [] = (if p = [] then Some 0 else None)"
| "find_str p (c # cs) = (if is_prefix p (c # cs) then Some 0 else map_option Suc (find_str p cs))"

text \<open>Extraction with \<^verbatim>\<open>operator>>\<close>: the words between white space.\<close>

fun words_acc :: "string \<Rightarrow> string \<Rightarrow> string list" where
  "words_acc w [] = (if w = [] then [] else [w])"
| "words_acc w (c # cs) =
     (if isspace c then (if w = [] then words_acc [] cs else w # words_acc [] cs)
      else words_acc (w @ [c]) cs)"

definition ws_words :: "string \<Rightarrow> string list" where
  "ws_words s = words_acc [] s"

text \<open>\<^verbatim>\<open>std::getline\<close>: the pieces between newlines; an empty piece at the end is not a line.\<close>

fun getlines_acc :: "string \<Rightarrow> string \<Rightarrow> string list" where
  "getlines_acc l [] = (if l = [] then [] else [l])"
| "getlines_acc l (c # cs) = (if c = LF then l # getlines_acc [] cs else getlines_acc (l @ [c]) cs)"

definition getlines :: "string \<Rightarrow> string list" where
  "getlines s = getlines_acc [] s"

text \<open>\<^verbatim>\<open>std::to_string\<close> of a natural number.\<close>

fun dec_string :: "nat \<Rightarrow> string" where
  "dec_string n =
     (if n < 10 then [char_of (48 + n)] else dec_string (n div 10) @ [char_of (48 + n mod 10)])"

declare dec_string.simps [simp del]

section \<open>Ordered maps\<close>

text \<open>\<^verbatim>\<open>m[key] = val\<close> and \<^verbatim>\<open>m.erase(key)\<close> on a \<^verbatim>\<open>std::map\<close>: the entries in ascending order of the keys.\<close>

fun map_put :: "'k::linorder \<Rightarrow> 'v \<Rightarrow> ('k \<times> 'v) list \<Rightarrow> ('k \<times> 'v) list" where
  "map_put k v [] = [(k, v)]"
| "map_put k v ((k', v') # m) =
     (if k = k' then (k, v) # m else if k < k' then (k, v) # (k', v') # m else (k', v') # map_put k v m)"

definition map_erase :: "'k::linorder \<Rightarrow> ('k \<times> 'v) list \<Rightarrow> ('k \<times> 'v) list" where
  "map_erase k m = filter (\<lambda>kv. fst kv \<noteq> k) m"

lemma map_of_map_put [simp]: "map_of (map_put k v m) = (map_of m)(k \<mapsto> v)"
  by (induction k v m rule: map_put.induct) (auto simp: fun_upd_twist)

lemma map_of_map_erase [simp]: "map_of (map_erase k m) = (map_of m)(k := None)"
  unfolding map_erase_def by (induction m) (auto simp: fun_upd_twist)

text \<open>The representation invariant of \<^verbatim>\<open>std::map\<close>: keys strictly ascending.\<close>

definition ordered_map :: "('k::linorder \<times> 'v) list \<Rightarrow> bool" where
  "ordered_map m \<longleftrightarrow> sorted_wrt (<) (map fst m)"

lemma fst_set_map_put: "fst ` set (map_put k v m) = insert k (fst ` set m)"
  by (induction k v m rule: map_put.induct) auto

lemma ordered_map_put: "ordered_map m \<Longrightarrow> ordered_map (map_put k v m)"
  unfolding ordered_map_def
proof (induction k v m rule: map_put.induct)
  case (1 k v)
  then show ?case by simp
next
  case (2 k v k' v' m)
  have "\<forall>x\<in>fst ` set m. k' < x" and sorted: "sorted_wrt (<) (map fst m)"
    using 2 by auto
  then have "k' < k \<Longrightarrow> \<forall>x\<in>fst ` set (map_put k v m). k' < x" "k < k' \<Longrightarrow> \<forall>x\<in>fst ` set m. k < x"
    unfolding fst_set_map_put by (auto dest: less_trans)
  then show ?case
    using 2 sorted \<open>\<forall>x\<in>fst ` set m. k' < x\<close> by (auto simp: not_less le_less)
qed

lemma ordered_map_erase: "ordered_map m \<Longrightarrow> ordered_map (map_erase k m)"
  unfolding ordered_map_def map_erase_def by (induction m) auto

section \<open>Characters\<close>

lemma not_isspace_code: "isspace c \<longleftrightarrow> (of_char c :: nat) \<in> {32, 9, 10, 11, 12, 13}"
proof -
  have "\<And>d. c = d \<longleftrightarrow> (of_char c :: nat) = of_char d" by simp
  then show ?thesis unfolding isspace_def by (simp add: of_char_def)
qed

lemma toupper_upper: "\<not> (97 \<le> (of_char c :: nat) \<and> (of_char c :: nat) \<le> 122) \<Longrightarrow> toupper c = c"
  unfolding toupper_def by auto

section \<open>Searching and splitting\<close>

lemma CR_LF [simp]: "CR \<noteq> LF" "LF \<noteq> CR" "isspace CR" "isspace LF"
  by (simp_all add: CR_def LF_def isspace_def)

lemma isspace_space [simp]: "isspace (CHR '' '')"
  by (simp add: isspace_def)

lemma colon_simps [simp]: "\<not> isspace (CHR '':'')" "CHR '':'' \<noteq> CR" "CHR '':'' \<noteq> LF"
    "CHR '' '' \<noteq> CR" "CHR '' '' \<noteq> LF" "CR \<noteq> CHR '':''" "LF \<noteq> CHR '':''"
    "CR \<noteq> CHR '' ''" "LF \<noteq> CHR '' ''"
  by (simp_all add: isspace_def CR_def LF_def)

lemma is_prefix_append [simp]: "is_prefix p (p @ s)"
  by (induction p) auto

lemma find_str_here [text_simps]: "find_str p (p @ s) = Some 0"
  by (cases "p @ s") (auto simp flip: append_assoc, metis is_prefix_append)

lemma find_str_skip [text_simps]:
  "a \<notin> set l \<Longrightarrow> find_str (a # p) (l @ s) = map_option ((+) (length l)) (find_str (a # p) s)"
  by (cases "find_str (a # p) s"; induction l) auto

lemma words_acc_word: "\<forall>c\<in>set u. \<not> isspace c \<Longrightarrow> words_acc w (u @ s) = words_acc (w @ u) s"
  by (induction u arbitrary: w) auto

lemma ws_words_space [text_simps]:
  "u \<noteq> [] \<Longrightarrow> \<forall>c\<in>set u. \<not> isspace c \<Longrightarrow> ws_words (u @ CHR '' '' # s) = u # ws_words s"
  unfolding ws_words_def by (simp add: words_acc_word [where w = "[]"])

lemma ws_words_last [text_simps]:
  "u \<noteq> [] \<Longrightarrow> \<forall>c\<in>set u. \<not> isspace c \<Longrightarrow> ws_words u = [u]"
  unfolding ws_words_def using words_acc_word [of u "[]" "[]"] by simp

lemma getlines_acc_plain: "LF \<notin> set u \<Longrightarrow> getlines_acc w (u @ s) = getlines_acc (w @ u) s"
  by (induction u arbitrary: w) auto

lemma getlines_line [text_simps]: "LF \<notin> set u \<Longrightarrow> getlines (u @ LF # s) = u # getlines s"
  unfolding getlines_def by (simp add: getlines_acc_plain [where w = "[]"])

lemma getlines_last [text_simps]: "LF \<notin> set u \<Longrightarrow> u \<noteq> [] \<Longrightarrow> getlines u = [u]"
  unfolding getlines_def using getlines_acc_plain [of u "[]" "[]"] by simp

lemma filter_not_isspace [simp]: "\<forall>c\<in>set u. \<not> isspace c \<Longrightarrow> filter (\<lambda>c. \<not> isspace c) u = u"
  by (induction u) auto

section \<open>Decimal numbers\<close>

text \<open>The number a decimal string denotes.\<close>

definition dec_value :: "string \<Rightarrow> nat" where
  "dec_value s = fold (\<lambda>c n. 10 * n + (of_char c - 48)) s 0"

lemma dec_value_dec_string [simp]: "dec_value (dec_string n) = n"
proof (induction n rule: dec_string.induct)
  case (1 n)
  have digit: "d < 10 \<Longrightarrow> (of_char (char_of (48 + d) :: char) :: nat) = 48 + d" for d :: nat
    by simp
  show ?case
  proof (cases "n < 10")
    case True
    then show ?thesis by (simp add: dec_string.simps [of n] dec_value_def digit)
  next
    case False
    then have "dec_value (dec_string n) = 10 * dec_value (dec_string (n div 10)) + n mod 10"
      by (simp add: dec_string.simps [of n] dec_value_def digit)
    with 1 False show ?thesis by simp
  qed
qed

end
