(* ===== verification/Address.thy ===== *)
theory Address
  imports Byte_Codec Sylar_Strings
begin

text \<open>
  Network addresses: \<^verbatim>\<open>src/src/address.cc\<close> and its header. Socket addresses with their layout in
  memory, the address objects over them, printing, and the lookup of host names. Outside
  are \<^verbatim>\<open>getaddrinfo\<close>, \<^verbatim>\<open>inet_pton\<close> and \<^verbatim>\<open>inet_ntop\<close>, which are parameters; memory that the code does not
  initialise is an argument too.
\<close>

unbundle bit_operations_syntax

section \<open>Bits\<close>

text \<open>
  \<^verbatim>\<open>1 << n\<close> is a shift of an \<^verbatim>\<open>int\<close>: a shift by its width or more is undefined, and so is the subtraction
  after a shift by 31 (\<open>None\<close>). The distance is computed from the size in bytes, in 64 bits.
\<close>

definition CreateMask :: "u32 \<Rightarrow> 'a::len word option" where
  "CreateMask val =
     (let n = (of_nat (LENGTH('a) div 8) - ucast val :: u64) in
      if 31 \<le> n then None
      else Some (scast (NOT (push_bit (unat n) (1 :: 32 word) - 1))))"

lemma and_minus_1_less: "val \<noteq> 0 \<Longrightarrow> unat (val AND (val - 1)) < unat (val :: 'a::len word)"
  using word_and_le1 [of val "val - 1"] by (metis le_less_trans unat_gt_0 unat_minus_one word_le_nat_alt
    diff_less zero_less_one word_and_le1 word_and_le2 and.commute)

function bit_loop :: "'a::len word \<Rightarrow> u32 \<Rightarrow> u32" where
  "bit_loop val res = (if val \<noteq> 0 then bit_loop (val AND (val - 1)) (res + 1) else res)"
  by pat_completeness auto
termination
  by (relation "measure (\<lambda>(val, res). unat val)") (auto simp: and_minus_1_less)

declare bit_loop.simps [simp del]

definition BitCount :: "'a::len word \<Rightarrow> u32" where
  "BitCount val = bit_loop val 0"

section \<open>Socket addresses\<close>

definition AF_UNSPEC :: int where "AF_UNSPEC = 0"
definition AF_INET :: int where "AF_INET = 2"
definition AF_INET6 :: int where "AF_INET6 = 10"
definition AI_NUMERICHOST :: int where "AI_NUMERICHOST = 4"

record sockaddr_in =
  sin_family :: u16
  sin_port :: u16
  sin_addr :: "u8 list"
  sin_zero :: "u8 list"

record sockaddr_in6 =
  sin6_family :: u16
  sin6_port :: u16
  sin6_flowinfo :: u32
  sin6_addr :: "u8 list"
  sin6_scope_id :: u32

text \<open>
  \<^verbatim>\<open>htons\<close>: the value whose bytes in memory are those of the argument with the most significant
  first; \<^verbatim>\<open>ntohs\<close> reads them back.
\<close>

definition htons :: "target \<Rightarrow> u16 \<Rightarrow> u16" where
  "htons tg v = object_value tg (rev (word_bytes v))"

definition ntohs :: "target \<Rightarrow> u16 \<Rightarrow> u16" where
  "ntohs tg v = bytes_word (rev (object_bytes tg v))"

text \<open>The layout of the structures in memory, and the structure at the beginning of some memory.\<close>

definition in_bytes :: "target \<Rightarrow> sockaddr_in \<Rightarrow> u8 list" where
  "in_bytes tg a = object_bytes tg (sin_family a) @ object_bytes tg (sin_port a) @ sin_addr a @ sin_zero a"

definition in_of :: "target \<Rightarrow> u8 list \<Rightarrow> sockaddr_in" where
  "in_of tg m = \<lparr>sin_family = object_value tg (take 2 m), sin_port = object_value tg (take 2 (drop 2 m)),
     sin_addr = take 4 (drop 4 m), sin_zero = take 8 (drop 8 m)\<rparr>"

definition in6_bytes :: "target \<Rightarrow> sockaddr_in6 \<Rightarrow> u8 list" where
  "in6_bytes tg a = object_bytes tg (sin6_family a) @ object_bytes tg (sin6_port a) @
     object_bytes tg (sin6_flowinfo a) @ sin6_addr a @ object_bytes tg (sin6_scope_id a)"

definition in6_of :: "target \<Rightarrow> u8 list \<Rightarrow> sockaddr_in6" where
  "in6_of tg m = \<lparr>sin6_family = object_value tg (take 2 m), sin6_port = object_value tg (take 2 (drop 2 m)),
     sin6_flowinfo = object_value tg (take 4 (drop 4 m)), sin6_addr = take 16 (drop 8 m),
     sin6_scope_id = object_value tg (take 4 (drop 24 m))\<rparr>"

section \<open>Address objects\<close>

datatype address = IPv4Address sockaddr_in | IPv6Address sockaddr_in6

text \<open>
  Exceptions and failures: a family that is not supported, a failed call with the \<^verbatim>\<open>errno\<close> the
  message is made from, and reading outside an object or through a null pointer.
\<close>

datatype addr_error = FamilyNotSupported | AddrRuntimeError int | AddrOutOfBounds | AddrNull

fun GetFamily :: "address \<Rightarrow> int" where
  "GetFamily (IPv4Address a) = uint (sin_family a)"
| "GetFamily (IPv6Address a) = uint (sin6_family a)"

text \<open>\<^verbatim>\<open>GetSockaddr\<close>, the memory it points to; \<^verbatim>\<open>GetSocklen\<close> is the size of the structure.\<close>

fun GetSockaddr :: "target \<Rightarrow> address \<Rightarrow> u8 list" where
  "GetSockaddr tg (IPv4Address a) = in_bytes tg a"
| "GetSockaddr tg (IPv6Address a) = in6_bytes tg a"

fun GetSocklen :: "address \<Rightarrow> nat" where
  "GetSocklen (IPv4Address a) = 16"
| "GetSocklen (IPv6Address a) = 28"

fun GetPort :: "target \<Rightarrow> address \<Rightarrow> u32" where
  "GetPort tg (IPv4Address a) = ucast (ntohs tg (sin_port a))"
| "GetPort tg (IPv6Address a) = ucast (ntohs tg (sin6_port a))"

fun SetPort :: "target \<Rightarrow> u32 \<Rightarrow> address \<Rightarrow> address" where
  "SetPort tg val (IPv4Address a) = IPv4Address (a\<lparr>sin_port := htons tg (ucast val)\<rparr>)"
| "SetPort tg val (IPv6Address a) = IPv6Address (a\<lparr>sin6_port := ntohs tg (ucast val)\<rparr>)"

text \<open>\<^verbatim>\<open>Insert\<close> and \<^verbatim>\<open>ToString\<close>; the parameters are \<^verbatim>\<open>inet_ntop\<close> for the two families.\<close>

definition IPv6Address_Insert :: "target \<Rightarrow> (u8 list \<Rightarrow> string) \<Rightarrow> sockaddr_in6 \<Rightarrow> string" where
  "IPv6Address_Insert tg ntop6 a =
     ''['' @ ntop6 (sin6_addr a) @ '']:'' @ dec_string (unat (GetPort tg (IPv6Address a)))"

fun Insert :: "target \<Rightarrow> (u8 list \<Rightarrow> string) \<Rightarrow> (u8 list \<Rightarrow> string) \<Rightarrow> address \<Rightarrow> string" where
  "Insert tg ntop4 ntop6 (IPv4Address a) =
     ntop4 (sin_addr a) @ '':'' @ dec_string (unat (GetPort tg (IPv4Address a)))"
| "Insert tg ntop4 ntop6 (IPv6Address a) = IPv6Address_Insert tg ntop6 a"

definition AddressToString :: "target \<Rightarrow> (u8 list \<Rightarrow> string) \<Rightarrow> (u8 list \<Rightarrow> string) \<Rightarrow> address \<Rightarrow> string" where
  "AddressToString tg ntop4 ntop6 a = Insert tg ntop4 ntop6 a"

text \<open>
  \<^verbatim>\<open>Address::Create\<close>: the family decides how much of the memory is copied, whatever \<^verbatim>\<open>addrlen\<close> says.
\<close>

definition Create :: "target \<Rightarrow> u8 list option \<Rightarrow> addr_error + address option" where
  "Create tg addr =
     (case addr of
        None \<Rightarrow> Inr None
      | Some m \<Rightarrow>
          if length m < 2 then Inl AddrOutOfBounds
          else let family = uint (object_value tg (take 2 m) :: u16) in
               if family = AF_INET
               then (if length m < 16 then Inl AddrOutOfBounds else Inr (Some (IPv4Address (in_of tg m))))
               else if family = AF_INET6
               then (if length m < 28 then Inl AddrOutOfBounds else Inr (Some (IPv6Address (in6_of tg m))))
               else Inl FamilyNotSupported)"

section \<open>Addresses from text\<close>

text \<open>What \<^verbatim>\<open>inet_pton\<close> reports: the bytes it stored, a text it cannot read (0), or an error (-1).\<close>

datatype pton_result = PtonOk "u8 list" | PtonInvalid | PtonError int

definition c_str :: "string \<Rightarrow> string" where
  "c_str s = takeWhile (\<lambda>c. c \<noteq> CHR 0x00) s"

text \<open>The constructors from text start from indeterminate memory \<open>mem\<close>; an invalid text is only logged.\<close>

definition IPv4Address_from :: "target \<Rightarrow> (string \<Rightarrow> pton_result) \<Rightarrow> sockaddr_in \<Rightarrow> string \<Rightarrow> u16 \<Rightarrow> addr_error + sockaddr_in" where
  "IPv4Address_from tg pton mem address port =
     (let a = mem\<lparr>sin_family := word_of_int AF_INET, sin_port := htons tg port\<rparr> in
      case pton (c_str address) of
        PtonOk bs \<Rightarrow> Inr (a\<lparr>sin_addr := bs\<rparr>)
      | PtonInvalid \<Rightarrow> Inr a
      | PtonError e \<Rightarrow> Inl (AddrRuntimeError e))"

text \<open>\<^verbatim>\<open>IPv4Address::Create\<close> fills an object made with the default arguments.\<close>

definition IPv4Address_Create :: "target \<Rightarrow> (string \<Rightarrow> pton_result) \<Rightarrow> sockaddr_in \<Rightarrow> string \<Rightarrow> u16 \<Rightarrow> addr_error + address" where
  "IPv4Address_Create tg pton mem address port =
     res_bind (IPv4Address_from tg pton mem ''127.0.0.1'' 80) (\<lambda>a0.
     res_bind (IPv4Address_from tg pton a0 address port) (\<lambda>a. Inr (IPv4Address a)))"

definition IPv6Address_default :: sockaddr_in6 where
  "IPv6Address_default = \<lparr>sin6_family = word_of_int AF_INET6, sin6_port = 0, sin6_flowinfo = 0,
     sin6_addr = replicate 16 0, sin6_scope_id = 0\<rparr>"

text \<open>The constructor of an IPv6 address from text does not set the family.\<close>

definition IPv6Address_from :: "target \<Rightarrow> (string \<Rightarrow> pton_result) \<Rightarrow> sockaddr_in6 \<Rightarrow> string \<Rightarrow> u16 \<Rightarrow> addr_error + sockaddr_in6" where
  "IPv6Address_from tg pton mem address port =
     (let a = mem\<lparr>sin6_port := htons tg port\<rparr> in
      case pton (c_str address) of
        PtonOk bs \<Rightarrow> Inr (a\<lparr>sin6_addr := bs\<rparr>)
      | PtonInvalid \<Rightarrow> Inr a
      | PtonError e \<Rightarrow> Inl (AddrRuntimeError e))"

definition IPv6Address_Create :: "target \<Rightarrow> (string \<Rightarrow> pton_result) \<Rightarrow> string \<Rightarrow> u16 \<Rightarrow> addr_error + address" where
  "IPv6Address_Create tg pton address port =
     res_bind (IPv6Address_from tg pton IPv6Address_default address port) (\<lambda>a. Inr (IPv6Address a))"

section \<open>Looking up names\<close>

text \<open>
  \<^verbatim>\<open>getaddrinfo\<close> takes a node, a service, and the hints the code sets; it fails with an \<^verbatim>\<open>errno\<close>, or
  gives the list of socket addresses.
\<close>

record hints =
  ai_flags :: int
  ai_family :: int
  ai_socktype :: int
  ai_protocol :: int

type_synonym getaddrinfo = "string \<Rightarrow> string option \<Rightarrow> hints \<Rightarrow> int + u8 list option list"

text \<open>\<^verbatim>\<open>memchr\<close>: the position of the first such character.\<close>

fun memchr :: "char \<Rightarrow> string \<Rightarrow> nat option" where
  "memchr c [] = None"
| "memchr c (d # s) = (if d = c then Some 0 else map_option Suc (memchr c s))"

text \<open>Splitting \<^verbatim>\<open>host\<close> into node and service.\<close>

definition bracketed :: "string \<Rightarrow> string \<times> string" where
  "bracketed host =
     (if host \<noteq> [] \<and> hd host = CHR ''[''
      then (case memchr (CHR '']'') (tl host) of
              Some p \<Rightarrow> if p + 2 < length host \<and> host ! (p + 2) = CHR '':''
                         then (take (p + 2) host, drop (p + 3) host) else ([], [])
            | None \<Rightarrow> ([], []))
      else ([], []))"

definition split_host :: "string \<Rightarrow> string \<times> string" where
  "split_host host =
     (let (node, service) = bracketed host;
          (node, service) =
            (if node = []
             then case memchr (CHR '':'') host of
                    Some p \<Rightarrow> (take p host, drop (p + 1) host)
                  | None \<Rightarrow> (node, service)
             else (node, service))
      in (if node = [] then host else node, service))"

text \<open>The loop over the results; an exception leaves what was already pushed.\<close>

fun push_all :: "target \<Rightarrow> u8 list option list \<Rightarrow> address option list \<Rightarrow> addr_error option \<times> address option list" where
  "push_all tg [] result = (None, result)"
| "push_all tg (m # ms) result =
     (case Create tg m of Inl e \<Rightarrow> (Some e, result) | Inr a \<Rightarrow> push_all tg ms (result @ [a]))"

definition AddressLookup ::
  "target \<Rightarrow> getaddrinfo \<Rightarrow> address option list \<Rightarrow> string \<Rightarrow> int \<Rightarrow> int \<Rightarrow> int \<Rightarrow> (addr_error + bool) \<times> address option list" where
  "AddressLookup tg gai result host family type protocol =
     (case split_host host of (node, service) \<Rightarrow>
        (case gai (c_str node) (Some (c_str service))
                \<lparr>ai_flags = 0, ai_family = family, ai_socktype = type, ai_protocol = protocol\<rparr> of
           Inl err \<Rightarrow> (Inl (AddrRuntimeError err), result)
         | Inr res \<Rightarrow>
             (case push_all tg res result of
                (Some e, result') \<Rightarrow> (Inl e, result')
              | (None, result') \<Rightarrow> (Inr (result' \<noteq> []), result'))))"

definition LookupAny :: "target \<Rightarrow> getaddrinfo \<Rightarrow> string \<Rightarrow> int \<Rightarrow> int \<Rightarrow> int \<Rightarrow> addr_error + address option" where
  "LookupAny tg gai host family type protocol =
     (case AddressLookup tg gai [] host family type protocol of
        (Inl e, res) \<Rightarrow> Inl e
      | (Inr True, res) \<Rightarrow> Inr (hd res)
      | (Inr False, res) \<Rightarrow> Inr None)"

text \<open>Every address class is an IP address, so the cast keeps the pointer; the loop returns in its first round.\<close>

definition LookupAnyIPAddress :: "target \<Rightarrow> getaddrinfo \<Rightarrow> string \<Rightarrow> int \<Rightarrow> int \<Rightarrow> int \<Rightarrow> addr_error + address option" where
  "LookupAnyIPAddress tg gai host family type protocol =
     (case AddressLookup tg gai [] host family type protocol of
        (Inl e, res) \<Rightarrow> Inl e
      | (Inr True, res) \<Rightarrow> (case res of [] \<Rightarrow> Inr None | a # _ \<Rightarrow> Inr a)
      | (Inr False, res) \<Rightarrow> Inr None)"

text \<open>\<^verbatim>\<open>IPAddress::Create\<close> leaves the type and the protocol of its hints indeterminate (\<open>mem\<close>).\<close>

definition IPAddress_Create :: "target \<Rightarrow> getaddrinfo \<Rightarrow> hints \<Rightarrow> string \<Rightarrow> u32 \<Rightarrow> addr_error + address option" where
  "IPAddress_Create tg gai mem address port =
     (case gai (c_str address) None (mem\<lparr>ai_family := AF_UNSPEC, ai_flags := AI_NUMERICHOST\<rparr>) of
        Inl err \<Rightarrow> Inl (AddrRuntimeError err)
      | Inr [] \<Rightarrow> Inl AddrNull
      | Inr (m # _) \<Rightarrow> res_bind (Create tg m) (\<lambda>a. Inr (map_option (SetPort tg port) a)))"

end
