(* ===== verification/Sockets.thy ===== *)
theory Sockets
  imports Hook Address
begin

text \<open>
  The socket wrapper: \<^verbatim>\<open>src/src/socket.cc\<close> and its header. A socket object owns a descriptor; the calls it
  makes are the hooked ones of the thread where a hook exists (sending, receiving, closing) and
  the kernel's own otherwise. What the kernel answers is an argument of each operation; the
  system state keeps the descriptors the kernel has handed out and \<^verbatim>\<open>errno\<close>. Logging is left out.
\<close>

section \<open>State\<close>

definition EBADF :: int where "EBADF = 9"

definition TCP :: int where "TCP = 1"
definition UDP :: int where "UDP = 2"
definition IPv4 :: int where "IPv4 = AF_INET"
definition IPv6 :: int where "IPv6 = AF_INET6"

record sock =
  sock_fd :: int
  sock_family :: int
  sock_type :: int
  sock_protocol :: int
  sock_connected :: bool
  sock_addr :: "address option"
  sock_buf :: "u8 list"
  sock_buf_size :: u64

record 'k sys =
  thr :: "'k thread"
  opened :: "int list"
  errno :: int

datatype sock_error = SockRuntimeError int | SockAddrError addr_error | SockHookError hook_error

text \<open>
  A call that returns a new descriptor, and one that works on a descriptor: with -1 in its place
  such a call fails with \<^verbatim>\<open>EBADF\<close>.
\<close>

definition new_fd :: "sys_result \<Rightarrow> 'k sys \<Rightarrow> int \<times> 'k sys" where
  "new_fd r s = (if fst r = -1 then (-1, s\<lparr>errno := snd r\<rparr>) else (fst r, s\<lparr>opened := opened s @ [fst r]\<rparr>))"

definition on_fd :: "int \<Rightarrow> sys_result \<Rightarrow> 'k sys \<Rightarrow> int \<times> 'k sys" where
  "on_fd fd r s =
     (if fd = -1 then (-1, s\<lparr>errno := EBADF\<rparr>)
      else if fst r = -1 then (-1, s\<lparr>errno := snd r\<rparr>)
      else (fst r, s))"

definition GetSockOpt :: "sock \<Rightarrow> sys_result \<Rightarrow> 'k sys \<Rightarrow> bool \<times> 'k sys" where
  "GetSockOpt so r s = (case on_fd (sock_fd so) r s of (ret, s1) \<Rightarrow> (ret \<noteq> -1, s1))"

definition SetSockOpt :: "sock \<Rightarrow> sys_result \<Rightarrow> 'k sys \<Rightarrow> bool \<times> 'k sys" where
  "SetSockOpt so r s = (case on_fd (sock_fd so) r s of (ret, s1) \<Rightarrow> (ret \<noteq> -1, s1))"

section \<open>Construction and destruction\<close>

text \<open>The answers to the five calls of the constructor.\<close>

record sock_script =
  r_socket :: sys_result
  r_reuseaddr :: sys_result
  r_nodelay :: sys_result
  r_getfl :: sys_result
  r_setfl :: sys_result

definition set_nonblock :: "int \<Rightarrow> sys_result \<Rightarrow> 'k sys \<Rightarrow> 'k sys" where
  "set_nonblock fd r s =
     (case on_fd fd r s of (ret, s1) \<Rightarrow>
        if ret = -1 then s1
        else s1\<lparr>thr := (thr s1)\<lparr>registry := (registry (thr s1))\<lparr>nonblocking := insert fd (nonblocking (registry (thr s1)))\<rparr>\<rparr>\<rparr>)"

text \<open>The member \<^verbatim>\<open>buf_size_\<close> is not initialised: its value is an argument.\<close>

definition Socket :: "sock_script \<Rightarrow> u64 \<Rightarrow> int \<Rightarrow> int \<Rightarrow> int \<Rightarrow> 'k sys \<Rightarrow> (sock_error + sock) \<times> 'k sys" where
  "Socket scr mem family type protocol s =
     (let (fd, s1) = new_fd (r_socket scr) s;
          so = \<lparr>sock_fd = fd, sock_family = family, sock_type = type, sock_protocol = protocol,
                 sock_connected = (type = UDP), sock_addr = None, sock_buf = [], sock_buf_size = mem\<rparr>;
          s2 = snd (SetSockOpt so (r_reuseaddr scr) s1);
          s3 = (if type = TCP then snd (SetSockOpt so (r_nodelay scr) s2) else s2);
          s4 = snd (on_fd fd (r_getfl scr) s3);
          s5 = set_nonblock fd (r_setfl scr) s4
      in if fd = -1 then (Inl (SockRuntimeError (errno s5)), s5) else (Inr so, s5))"

definition CreateTCPSocket :: "sock_script \<Rightarrow> u64 \<Rightarrow> address \<Rightarrow> 'k sys \<Rightarrow> (sock_error + sock option) \<times> 'k sys" where
  "CreateTCPSocket scr mem addr s =
     (if GetFamily addr = IPv4 then apfst (map_sum id Some) (Socket scr mem IPv4 TCP 0 s)
      else if GetFamily addr = IPv6 then apfst (map_sum id Some) (Socket scr mem IPv6 TCP 0 s)
      else (Inr None, s))"

definition CreateUDPSocket :: "sock_script \<Rightarrow> u64 \<Rightarrow> address \<Rightarrow> 'k sys \<Rightarrow> (sock_error + sock option) \<times> 'k sys" where
  "CreateUDPSocket scr mem addr s =
     (if GetFamily addr = IPv4 then apfst (map_sum id Some) (Socket scr mem IPv4 UDP 0 s)
      else if GetFamily addr = IPv6 then apfst (map_sum id Some) (Socket scr mem IPv6 UDP 0 s)
      else (Inr None, s))"

definition CreateTCPIPv4Socket :: "sock_script \<Rightarrow> u64 \<Rightarrow> 'k sys \<Rightarrow> (sock_error + sock) \<times> 'k sys" where
  "CreateTCPIPv4Socket scr mem = Socket scr mem IPv4 TCP 0"

definition CreateTCPIPv6Socket :: "sock_script \<Rightarrow> u64 \<Rightarrow> 'k sys \<Rightarrow> (sock_error + sock) \<times> 'k sys" where
  "CreateTCPIPv6Socket scr mem = Socket scr mem IPv6 TCP 0"

definition CreateUDPIPv4Socket :: "sock_script \<Rightarrow> u64 \<Rightarrow> 'k sys \<Rightarrow> (sock_error + sock) \<times> 'k sys" where
  "CreateUDPIPv4Socket scr mem = Socket scr mem IPv4 UDP 0"

definition CreateUDPIPv6Socket :: "sock_script \<Rightarrow> u64 \<Rightarrow> 'k sys \<Rightarrow> (sock_error + sock) \<times> 'k sys" where
  "CreateUDPIPv6Socket scr mem = Socket scr mem IPv6 UDP 0"

text \<open>\<^verbatim>\<open>close\<close> is the hooked one of the thread.\<close>

definition close_socket :: "sock \<Rightarrow> 'k sys \<Rightarrow> sock_error + sock \<times> 'k sys" where
  "close_socket so s =
     (let so1 = so\<lparr>sock_connected := False\<rparr> in
      if sock_fd so1 \<noteq> -1
      then case close (sock_fd so1) (thr s) of
             Inl e \<Rightarrow> Inl (SockHookError e)
           | Inr th \<Rightarrow> Inr (so1\<lparr>sock_fd := -1\<rparr>, s\<lparr>thr := th\<rparr>)
      else Inr (so1, s))"

definition Destructor :: "sock \<Rightarrow> 'k sys \<Rightarrow> sock_error + 'k sys" where
  "Destructor so s = res_bind (close_socket so s) (\<lambda>(so', s'). Inr s')"

definition Close :: "sock \<Rightarrow> 'k sys \<Rightarrow> sock_error + bool \<times> sock \<times> 'k sys" where
  "Close so s = res_bind (close_socket so s) (\<lambda>(so', s'). Inr (True, so', s'))"

section \<open>Connections\<close>

definition Bind :: "address \<Rightarrow> sys_result \<Rightarrow> sock \<Rightarrow> 'k sys \<Rightarrow> bool \<times> sock \<times> 'k sys" where
  "Bind addr r so s =
     (if GetFamily addr \<noteq> sock_family so then (False, so, s)
      else case on_fd (sock_fd so) r s of (ret, s1) \<Rightarrow>
             if ret \<noteq> 0 then (False, so, s1) else (True, so\<lparr>sock_addr := Some addr\<rparr>, s1))"

definition Listen :: "sys_result \<Rightarrow> sock \<Rightarrow> 'k sys \<Rightarrow> bool \<times> 'k sys" where
  "Listen r so s = (case on_fd (sock_fd so) r s of (ret, s1) \<Rightarrow> (ret = 0, s1))"

definition Connect :: "address \<Rightarrow> sys_result \<Rightarrow> sock \<Rightarrow> 'k sys \<Rightarrow> bool \<times> sock \<times> 'k sys" where
  "Connect addr r so s =
     (case on_fd (sock_fd so) r s of (ret, s1) \<Rightarrow>
        if ret \<noteq> 0 then (False, so, s1) else (True, so\<lparr>sock_connected := True\<rparr>, s1))"

text \<open>
  \<^verbatim>\<open>Accept\<close>: \<open>storage\<close> is what the kernel left in the address buffer. The new object is built like any
  socket, with a descriptor of its own, before it is given the accepted one; an exception of
  \<^verbatim>\<open>Create\<close> destroys it.
\<close>

definition Accept ::
  "target \<Rightarrow> sys_result \<Rightarrow> u8 list \<Rightarrow> sock_script \<Rightarrow> u64 \<Rightarrow> sock \<Rightarrow> 'k sys \<Rightarrow> (sock_error + sock option) \<times> 'k sys" where
  "Accept tg r storage scr mem so s =
     (case (if sock_fd so = -1 then (-1, s\<lparr>errno := EBADF\<rparr>) else new_fd r s) of (fd, s1) \<Rightarrow>
        if fd = -1 then (Inr None, s1)
        else (case Socket scr mem (sock_family so) (sock_type so) (sock_protocol so) s1 of
                (Inl e, s2) \<Rightarrow> (Inl e, s2)
              | (Inr ret, s2) \<Rightarrow>
                  (let ret1 = ret\<lparr>sock_fd := fd\<rparr> in
                   case Create tg (Some storage) of
                     Inl e \<Rightarrow>
                       (case Destructor ret1 s2 of
                          Inl e' \<Rightarrow> (Inl e', s2)
                        | Inr s3 \<Rightarrow> (Inl (SockAddrError e), s3))
                   | Inr a \<Rightarrow> (Inr (Some (ret1\<lparr>sock_addr := a\<rparr>)), s2))))"

section \<open>Sending and receiving\<close>

text \<open>Conversion of a result to \<^verbatim>\<open>int\<close>.\<close>

definition as_int :: "int \<Rightarrow> int" where
  "as_int r = sint (word_of_int r :: 32 word)"

text \<open>
  A hooked call on the socket's descriptor; \<open>None\<close> while the coroutine is waiting. The data and
  its destination are passed through.
\<close>

definition hooked ::
  "sys_call \<Rightarrow> nat \<Rightarrow> (sys_result \<times> sys_result \<times> ('k thread \<Rightarrow> 'k thread)) list \<Rightarrow> sock \<Rightarrow> 'k sys \<Rightarrow>
   sock_error + int option \<times> 'k sys" where
  "hooked call sp script so s =
     (case do_io (sock_fd so) (snd (wrapper call)) sp script (thr s) of
        Inl e \<Rightarrow> Inl (SockHookError e)
      | Inr (None, th) \<Rightarrow> Inr (None, s\<lparr>thr := th\<rparr>)
      | Inr (Some (r, e), th) \<Rightarrow> Inr (Some r, s\<lparr>thr := th, errno := (if r = -1 then e else errno s)\<rparr>))"

definition send_call :: "sys_call \<Rightarrow> nat \<Rightarrow> (sys_result \<times> sys_result \<times> ('k thread \<Rightarrow> 'k thread)) list \<Rightarrow> sock \<Rightarrow> 'k sys \<Rightarrow>
   sock_error + int option \<times> 'k sys" where
  "send_call call sp script so s = res_bind (hooked call sp script so s) (\<lambda>(r, s1). Inr (map_option as_int r, s1))"

definition Send where "Send = send_call sys_send"
definition SendTo where "SendTo = send_call sys_sendto"
definition SendMsg where "SendMsg = send_call sys_sendmsg"

text \<open>The overload with an array of buffers returns the result of \<^verbatim>\<open>sendmsg\<close> as it is.\<close>

definition SendTo_iov where "SendTo_iov = hooked sys_sendmsg"

definition recv_call :: "sys_call \<Rightarrow> nat \<Rightarrow> (sys_result \<times> sys_result \<times> ('k thread \<Rightarrow> 'k thread)) list \<Rightarrow> sock \<Rightarrow> 'k sys \<Rightarrow>
   sock_error + int option \<times> sock \<times> 'k sys" where
  "recv_call call sp script so s =
     res_bind (hooked call sp script so s) (\<lambda>(r, s1).
       Inr (case r of
              None \<Rightarrow> (None, so, s1)
            | Some n \<Rightarrow> (Some (as_int n), so\<lparr>sock_buf_size := word_of_int (as_int n)\<rparr>, s1)))"

definition Recv where "Recv = recv_call sys_recv"
definition RecvFrom where "RecvFrom = recv_call sys_recvfrom"
definition RecvMsg where "RecvMsg = recv_call sys_recvmsg"

text \<open>The overload with an array of buffers leaves the object's size alone.\<close>

definition RecvFrom_iov where "RecvFrom_iov = hooked sys_recvmsg"

section \<open>Events and text\<close>

definition cancel :: "u32 \<Rightarrow> sock \<Rightarrow> 'k sys \<Rightarrow> sock_error + 'k sys" where
  "cancel type so s =
     (case lift_ep (thr s) (CancelEvent type (sock_fd so) (registry (thr s))) of
        Inl e \<Rightarrow> Inl (SockHookError e) | Inr th \<Rightarrow> Inr (s\<lparr>thr := th\<rparr>))"

definition CancelReadEvent :: "sock \<Rightarrow> 'k sys \<Rightarrow> sock_error + 'k sys" where
  "CancelReadEvent = cancel READ"

definition CancelWriteEvent :: "sock \<Rightarrow> 'k sys \<Rightarrow> sock_error + 'k sys" where
  "CancelWriteEvent = cancel WRITE"

definition CancelAllEvent :: "sock \<Rightarrow> 'k sys \<Rightarrow> sock_error + 'k sys" where
  "CancelAllEvent so s = res_bind (cancel READ so s) (cancel WRITE so)"

definition int_string :: "int \<Rightarrow> string" where
  "int_string n = (if n < 0 then ''-'' @ dec_string (nat (- n)) else dec_string (nat n))"

definition SocketToString :: "sock \<Rightarrow> string" where
  "SocketToString so =
     ''[socket = '' @ int_string (sock_fd so) @ '', connect = '' @ (if sock_connected so then ''1'' else ''0'') @
     '', family = '' @ int_string (sock_family so) @ '', type = '' @ int_string (sock_type so) @
     '', protocol = '' @ int_string (sock_protocol so) @ '']'' @ [LF]"

end
