(* ===== verification/Address_Laws.thy ===== *)
theory Address_Laws
  imports Address Codec_Laws
begin

text \<open>
  Laws of the network addresses: the bit count equals the number of one bits, socket
  addresses and ports survive their representation in memory, what the factories make of
  good and bad text, and how printed addresses are split again by the lookup.
\<close>

unbundle bit_operations_syntax

section \<open>Counting bits\<close>

text \<open>The number of ones, read off a natural number's digits.\<close>

definition ones :: "nat \<Rightarrow> nat" where
  "ones n = card {i. bit n i}"

lemma finite_bits_nat: "finite {i. bit (n :: nat) i}"
proof (rule finite_subset)
  show "{i. bit n i} \<subseteq> {..<n}"
  proof
    fix i assume "i \<in> {i. bit n i}"
    then have "n div 2 ^ i \<noteq> 0" using odd_pos by (auto simp: bit_nat_def)
    then have "2 ^ i \<le> n" by (simp add: div_eq_0_iff)
    with less_exp [of i] have "i < n" by (rule less_le_trans)
    then show "i \<in> {..<n}" by simp
  qed
qed simp

lemma ones_rec: "ones n = of_bool (odd n) + ones (n div 2)"
proof -
  have "{i. bit n i} = (if odd n then {0} else {}) \<union> Suc ` {i. bit (n div 2) i}"
    by (auto simp: bit_0 image_iff) (metis bit_Suc not0_implies_Suc bit_0)+
  then have "card {i. bit n i} = card (if odd n then {0 :: nat} else {}) + card (Suc ` {i. bit (n div 2) i})"
    using finite_bits_nat by (simp add: card_Un_disjoint disjoint_iff)
  then show ?thesis by (simp add: ones_def card_image)
qed

lemma ones_and_pred: "0 < n \<Longrightarrow> ones n = Suc (ones (n AND (n - 1)))"
proof (induction n rule: less_induct)
  case (less n)
  show ?case
  proof (cases "odd n")
    case True
    then obtain m where n: "n = 2 * m + 1" by (elim oddE)
    have "n AND (n - 1) = 2 * m" by (subst and_nat_rec) (simp add: n)
    then show ?thesis using ones_rec [of n] ones_rec [of "2 * m"] by (simp add: n)
  next
    case False
    then have "even n" by simp
    then obtain m where n: "n = 2 * m" by (elim evenE)
    with less.prems have "0 < m" by simp
    from \<open>0 < m\<close> have "(2 * m - 1) div 2 = m - 1" by presburger
    then have "n AND (n - 1) = 2 * (m AND (m - 1))" by (subst and_nat_rec) (simp add: n)
    then show ?thesis
      using less.IH [of m] ones_rec [of n] ones_rec [of "2 * (m AND (m - 1))"] n \<open>0 < m\<close> by simp
  qed
qed

lemma bit_loop_ones: "bit_loop val res = res + of_nat (ones (unat val))"
proof (induction val res rule: bit_loop.induct)
  case (1 val res)
  show ?case
  proof (cases "val = 0")
    case True
    then show ?thesis using bit_loop.simps [of val res] by (simp add: ones_def)
  next
    case False
    have "unat (val AND (val - 1)) = unat val AND (unat val - 1)"
      using False by (simp add: unsigned_and_eq unat_minus_one)
    then have "ones (unat val) = Suc (ones (unat (val AND (val - 1))))"
      using ones_and_pred [of "unat val"] False by (simp add: unat_gt_0)
    with 1 False show ?thesis by (simp add: bit_loop.simps [of val])
  qed
qed

section \<open>Memory\<close>

lemma ntohs_htons [simp]: "ntohs tg (htons tg v) = v"
  by (simp add: ntohs_def htons_def object_value_def object_bytes_def word_bytes_inverse bytes_word_inverse)

text \<open>Both conversions swap the bytes on a little-endian host and do nothing on another.\<close>

lemma ntohs_eq_htons: "ntohs tg v = htons tg v"
proof (cases "host_order tg")
  case SYLAR_LITTLE_ENDIAN
  then show ?thesis by (simp add: ntohs_def htons_def object_value_def object_bytes_def)
next
  case SYLAR_BIG_ENDIAN
  then show ?thesis by (simp add: ntohs_def htons_def object_value_def object_bytes_def)
qed

lemma ntohs_twice: "ntohs tg (ntohs tg v) = v"
  using ntohs_htons [of tg v] by (simp add: ntohs_eq_htons)

text \<open>Addresses with fields of the right length, and the family of their class.\<close>

fun address_ok :: "address \<Rightarrow> bool" where
  "address_ok (IPv4Address a) \<longleftrightarrow>
     uint (sin_family a) = AF_INET \<and> length (sin_addr a) = 4 \<and> length (sin_zero a) = 8"
| "address_ok (IPv6Address a) \<longleftrightarrow> uint (sin6_family a) = AF_INET6 \<and> length (sin6_addr a) = 16"

lemma in_of_in_bytes:
  "length (sin_addr a) = 4 \<Longrightarrow> length (sin_zero a) = 8 \<Longrightarrow> in_of tg (in_bytes tg a @ rest) = a"
  by (cases a) (simp add: in_of_def in_bytes_def object_value_inverse)

lemma in6_of_in6_bytes: "length (sin6_addr a) = 16 \<Longrightarrow> in6_of tg (in6_bytes tg a @ rest) = a"
  by (cases a) (simp add: in6_of_def in6_bytes_def object_value_inverse)

lemma length_GetSockaddr: "address_ok a \<Longrightarrow> length (GetSockaddr tg a) = GetSocklen a"
  by (cases a) (simp_all add: in_bytes_def in6_bytes_def)

lemma family_GetSockaddr: "address_ok a \<Longrightarrow> uint (object_value tg (take 2 (GetSockaddr tg a @ rest)) :: u16) = GetFamily a"
  by (cases a) (simp_all add: in_bytes_def in6_bytes_def object_value_inverse)

lemma Create_GetSockaddr: "address_ok a \<Longrightarrow> Create tg (Some (GetSockaddr tg a @ rest)) = Inr (Some a)"
  using length_GetSockaddr [of a tg] family_GetSockaddr [of a tg rest]
  by (cases a) (auto simp: Create_def Let_def in_of_in_bytes in6_of_in6_bytes AF_INET_def AF_INET6_def)

section \<open>Splitting\<close>

lemma memchr_skip: "c \<notin> set u \<Longrightarrow> memchr c (u @ c # s) = Some (length u)"
  by (induction u) auto

lemma memchr_None: "c \<notin> set u \<Longrightarrow> memchr c u = None"
  by (induction u) auto

text \<open>What the printers of addresses write: digits and dots, or hexadecimal digits, colons and dots.\<close>

definition ntop_documented :: "(u8 list \<Rightarrow> string) \<Rightarrow> (u8 list \<Rightarrow> string) \<Rightarrow> bool" where
  "ntop_documented ntop4 ntop6 \<longleftrightarrow>
     (\<forall>b. ntop4 b \<noteq> [] \<and> set (ntop4 b) \<subseteq> set ''0123456789.'') \<and>
     (\<forall>b. ntop6 b \<noteq> [] \<and> set (ntop6 b) \<subseteq> set ''0123456789abcdef:.'')"

lemma split_host_plain:
  assumes "u \<noteq> []" "CHR '':'' \<notin> set u" "hd u \<noteq> CHR ''[''"
  shows "split_host (u @ '':'' @ s) = (u, s)"
proof -
  have "bracketed (u @ '':'' @ s) = ([], [])" using assms(1,3) by (simp add: bracketed_def)
  then show ?thesis using assms(1) memchr_skip [OF assms(2), of s] by (simp add: split_host_def)
qed

lemma split_host_bracketed:
  assumes "CHR '']'' \<notin> set u"
  shows "split_host (''['' @ u @ '']:'' @ s) = (''['' @ u @ '']'', s)"
proof -
  have "memchr (CHR '']'') (tl (''['' @ u @ '']:'' @ s)) = Some (length u)"
    using memchr_skip [OF assms, of "CHR '':'' # s"] by simp
  then have "bracketed (''['' @ u @ '']:'' @ s) = (''['' @ u @ '']'', s)"
    by (simp add: bracketed_def nth_append eval_nat_numeral)
  then show ?thesis by (simp add: split_host_def)
qed

lemma split_host_name: "CHR '':'' \<notin> set u \<Longrightarrow> split_host u = (u, [])"
proof -
  assume u: "CHR '':'' \<notin> set u"
  have "bracketed u = ([], [])"
    using u by (auto simp: bracketed_def split: option.split dest: nth_mem)
  then show ?thesis using memchr_None [OF u] by (simp add: split_host_def)
qed

section \<open>Properties of the network addresses\<close>

text \<open>
  The loop that clears the lowest bit counts exactly the one bits of a word of any width, and
  ends after that many rounds.
\<close>

theorem BitCount_counts_ones: "BitCount (val :: 'a::len word) = of_nat (card {i. bit val i})"
proof -
  have "{i. bit (unat val) i} = {i. bit val i}"
    by (auto simp: bit_unsigned_iff)
  then show ?thesis by (simp add: BitCount_def bit_loop_ones ones_def)
qed

text \<open>
  C34: An address survives its representation in memory: \<^verbatim>\<open>Create\<close> on the memory \<^verbatim>\<open>GetSockaddr\<close> points to
  gives the address back, whatever follows it, as when the kernel fills a larger buffer;
  and a port reads back as it was set, modulo 65536.
\<close>

theorem sockaddr_round_trip:
  assumes "address_ok a"
  shows "Create tg (Some (GetSockaddr tg a @ rest)) = Inr (Some a) \<and>
    Create tg (Some (GetSockaddr tg (SetPort tg port a) @ rest)) = Inr (Some (SetPort tg port a)) \<and>
    unat (GetPort tg (SetPort tg port a)) = unat port mod 65536"
proof -
  have "address_ok (SetPort tg port a)" using assms by (cases a) simp_all
  moreover have "unat (GetPort tg (SetPort tg port a)) = unat port mod 65536"
  proof (cases a)
    case (IPv4Address x)
    then show ?thesis by (simp add: unsigned_ucast_eq unsigned_take_bit_eq take_bit_eq_mod unat_mod_distrib)
  next
    case (IPv6Address x)
    then show ?thesis by (simp add: ntohs_twice unsigned_ucast_eq unsigned_take_bit_eq take_bit_eq_mod unat_mod_distrib)
  qed
  ultimately show ?thesis using assms by (simp add: Create_GetSockaddr)
qed

theorem sockaddr_round_trip_witness:
  "unat (GetPort \<lparr>host_order = SYLAR_LITTLE_ENDIAN, sylar_order = SYLAR_BIG_ENDIAN\<rparr>
     (SetPort \<lparr>host_order = SYLAR_LITTLE_ENDIAN, sylar_order = SYLAR_BIG_ENDIAN\<rparr> 65616
       (IPv4Address \<lparr>sin_family = 2, sin_port = 0, sin_addr = [127, 0, 0, 1], sin_zero = replicate 8 0\<rparr>))) = 80"
  using sockaddr_round_trip [of "IPv4Address \<lparr>sin_family = 2, sin_port = 0, sin_addr = [127, 0, 0, 1], sin_zero = replicate 8 0\<rparr>"
      "\<lparr>host_order = SYLAR_LITTLE_ENDIAN, sylar_order = SYLAR_BIG_ENDIAN\<rparr>" "[]" 65616]
  by (simp add: AF_INET_def)

text \<open>
  What \<^verbatim>\<open>IPv4Address::Create\<close> returns: the address of a text that can be read, with the port; a text
  that cannot be read is no error but gives the loopback address; and an error throws.
\<close>

theorem IPv4Address_Create_outcome:
  assumes "pton ''127.0.0.1'' = PtonOk [127, 0, 0, 1]" and "length (sin_zero mem) = 8"
    and "\<forall>t bs. pton t = PtonOk bs \<longrightarrow> length bs = 4"
  shows "case pton (c_str txt) of
      PtonOk bs \<Rightarrow> (\<exists>a. IPv4Address_Create tg pton mem txt port = Inr (IPv4Address a) \<and> address_ok (IPv4Address a) \<and>
        sin_addr a = bs \<and> GetPort tg (IPv4Address a) = ucast port)
    | PtonInvalid \<Rightarrow> (\<exists>a. IPv4Address_Create tg pton mem txt port = Inr (IPv4Address a) \<and> address_ok (IPv4Address a) \<and>
        sin_addr a = [127, 0, 0, 1] \<and> GetPort tg (IPv4Address a) = ucast port)
    | PtonError e \<Rightarrow> IPv4Address_Create tg pton mem txt port = Inl (AddrRuntimeError e)"
proof -
  have "c_str ''127.0.0.1'' = ''127.0.0.1''" by (simp add: c_str_def)
  then show ?thesis
    using assms(1,2) assms(3) [rule_format, of "c_str txt"]
    by (auto simp: IPv4Address_Create_def IPv4Address_from_def Let_def AF_INET_def split: pton_result.split)
qed

theorem IPv4Address_Create_outcome_witness:
  "\<exists>a. IPv4Address_Create \<lparr>host_order = SYLAR_LITTLE_ENDIAN, sylar_order = SYLAR_BIG_ENDIAN\<rparr>
      (\<lambda>t. if t = ''127.0.0.1'' then PtonOk [127, 0, 0, 1] else PtonInvalid)
      \<lparr>sin_family = 0, sin_port = 0, sin_addr = [9, 9, 9, 9], sin_zero = replicate 8 0\<rparr> ''localhost'' 80 = Inr (IPv4Address a) \<and>
    sin_addr a = [127, 0, 0, 1]"
proof -
  have "\<forall>t bs. (if t = ''127.0.0.1'' then PtonOk [127, 0, 0, 1] else PtonInvalid) = PtonOk bs \<longrightarrow> length bs = 4"
    by (auto split: if_splits)
  moreover have "c_str ''localhost'' = ''localhost''" by (simp add: c_str_def)
  ultimately show ?thesis
    using IPv4Address_Create_outcome [of "\<lambda>t. if t = ''127.0.0.1'' then PtonOk [127, 0, 0, 1] else PtonInvalid"
        "\<lparr>sin_family = 0, sin_port = 0, sin_addr = [9, 9, 9, 9], sin_zero = replicate 8 0\<rparr>"
        "\<lparr>host_order = SYLAR_LITTLE_ENDIAN, sylar_order = SYLAR_BIG_ENDIAN\<rparr>" "''localhost''" 80]
    by auto
qed

text \<open>
  How the lookup takes printed addresses apart: node and service of an IPv4 address are its
  dotted text and its port. The node of an IPv6 address keeps the brackets, so that the
  resolver is not asked for the address itself.
\<close>

theorem lookup_splits_printed:
  assumes "ntop_documented ntop4 ntop6"
  shows "split_host (AddressToString tg ntop4 ntop6 (IPv4Address a)) =
      (ntop4 (sin_addr a), dec_string (unat (GetPort tg (IPv4Address a)))) \<and>
    split_host (AddressToString tg ntop4 ntop6 (IPv6Address b)) =
      (''['' @ ntop6 (sin6_addr b) @ '']'', dec_string (unat (GetPort tg (IPv6Address b))))"
proof -
  have four: "ntop4 (sin_addr a) \<noteq> []" "set (ntop4 (sin_addr a)) \<subseteq> set ''0123456789.''"
    and six: "set (ntop6 (sin6_addr b)) \<subseteq> set ''0123456789abcdef:.''"
    using assms by (auto simp: ntop_documented_def)
  have "CHR '':'' \<notin> set ''0123456789.''" "CHR ''['' \<notin> set ''0123456789.''" "CHR '']'' \<notin> set ''0123456789abcdef:.''"
    by simp_all
  with four six have "CHR '':'' \<notin> set (ntop4 (sin_addr a))" "CHR ''['' \<notin> set (ntop4 (sin_addr a))"
    "CHR '']'' \<notin> set (ntop6 (sin6_addr b))" by (meson subsetD)+
  moreover from this have "hd (ntop4 (sin_addr a)) \<noteq> CHR ''[''" using hd_in_set [OF four(1)] by metis
  ultimately show ?thesis using four(1)
    by (simp add: AddressToString_def IPv6Address_Insert_def split_host_plain [simplified] split_host_bracketed [simplified])
qed

theorem lookup_splits_printed_witness:
  "split_host (AddressToString \<lparr>host_order = SYLAR_LITTLE_ENDIAN, sylar_order = SYLAR_BIG_ENDIAN\<rparr>
     (\<lambda>b. ''127.0.0.1'') (\<lambda>b. ''::1'') (IPv6Address IPv6Address_default)) =
   (''[::1]'', dec_string (unat (GetPort \<lparr>host_order = SYLAR_LITTLE_ENDIAN, sylar_order = SYLAR_BIG_ENDIAN\<rparr> (IPv6Address IPv6Address_default))))"
  using lookup_splits_printed [of "\<lambda>b. ''127.0.0.1''" "\<lambda>b. ''::1''"
      "\<lparr>host_order = SYLAR_LITTLE_ENDIAN, sylar_order = SYLAR_BIG_ENDIAN\<rparr>" undefined IPv6Address_default]
  by (simp add: ntop_documented_def)

end
