(* ===== verification/Socket_Laws.thy ===== *)
theory Socket_Laws
  imports Sockets Hook_Laws Address_Laws
begin

text \<open>
  Laws of the socket wrapper: who owns a descriptor and how often it is closed, what
  constructing and accepting leave open, and which error a failed construction reports.
\<close>

section \<open>Calls\<close>

lemma on_fd_simps [simp]:
  "thr (snd (on_fd fd r s)) = thr s" "opened (snd (on_fd fd r s)) = opened s"
  "on_fd (-1) r s = (-1, s\<lparr>errno := EBADF\<rparr>)"
  by (simp_all add: on_fd_def)

lemma SetSockOpt_simps [simp]:
  "thr (snd (SetSockOpt so r s)) = thr s" "opened (snd (SetSockOpt so r s)) = opened s"
  "sock_fd so = -1 \<Longrightarrow> errno (snd (SetSockOpt so r s)) = EBADF"
  by (simp_all add: SetSockOpt_def case_prod_beta)

lemma GetSockOpt_simps [simp]:
  "thr (snd (GetSockOpt so r s)) = thr s" "opened (snd (GetSockOpt so r s)) = opened s"
  by (simp_all add: GetSockOpt_def case_prod_beta)

lemma set_nonblock_simps [simp]:
  "opened (set_nonblock fd r s) = opened s" "closed_fds (thr (set_nonblock fd r s)) = closed_fds (thr s)"
  "is_hook_enable (thr (set_nonblock fd r s)) = is_hook_enable (thr s)"
  "errno (set_nonblock (-1) r s) = EBADF"
  by (auto simp: set_nonblock_def case_prod_beta)

text \<open>Making a descriptor non-blocking does not touch the registrations.\<close>

lemma epoll_inv_nonblocking [simp]: "epoll_inv (ep\<lparr>nonblocking := X\<rparr>) = epoll_inv ep"
  by (simp add: epoll_inv_def)

lemma thread_ok_nonblocking [simp]: "thread_ok (th\<lparr>registry := (registry th)\<lparr>nonblocking := X\<rparr>\<rparr>) = thread_ok th"
  by (simp add: thread_ok_def)

lemma thread_ok_set_nonblock [simp]: "thread_ok (thr (set_nonblock fd r s)) = thread_ok (thr s)"
  by (auto simp: set_nonblock_def case_prod_beta)

text \<open>The constructor opens one descriptor and otherwise leaves the thread in order.\<close>

lemma Socket_ok:
  assumes "r_socket scr = (fd, e)" and "fd \<noteq> -1" and "thread_ok (thr s)"
  shows "\<exists>so s'. Socket scr mem family type protocol s = (Inr so, s') \<and>
    sock_fd so = fd \<and> sock_family so = family \<and> sock_type so = type \<and> sock_protocol so = protocol \<and>
    sock_connected so = (type = UDP) \<and> sock_addr so = None \<and>
    opened s' = opened s @ [fd] \<and> closed_fds (thr s') = closed_fds (thr s) \<and> thread_ok (thr s')"
  using assms by (simp add: Socket_def new_fd_def Let_def)

lemma CancelEvent_thread_ok:
  assumes "thread_ok th" "some_type type"
  shows "\<exists>ep. CancelEvent type fd (registry th) = Inr ep \<and> thread_ok (th\<lparr>registry := ep\<rparr>)"
  using CancelEvent_inv [of "registry th" type fd] assms by (auto simp: thread_ok_def)

lemma both_types: "some_type READ" "some_type WRITE"
  by (simp_all add: some_type_def)

lemma close_ok:
  assumes "thread_ok th"
  shows "\<exists>th'. close fd th = Inr th' \<and> thread_ok th' \<and> closed_fds th' = closed_fds th @ [fd]"
proof (cases "GetHookEnable th")
  case True
  obtain ep1 where ep1: "CancelEvent READ fd (registry th) = Inr ep1" "thread_ok (th\<lparr>registry := ep1\<rparr>)"
    using CancelEvent_thread_ok [OF assms both_types(1)] by blast
  obtain ep2 where "CancelEvent WRITE fd ep1 = Inr ep2" "thread_ok (th\<lparr>registry := ep2\<rparr>)"
    using CancelEvent_thread_ok [OF ep1(2) both_types(2)] by fastforce
  with True ep1 show ?thesis by (simp add: close_def lift_ep_def thread_ok_def)
qed (use assms in \<open>simp add: close_def thread_ok_def\<close>)

text \<open>
  A hooked call on a script in which some answer is not a refusal returns, never fails, and closes nothing
  itself. While it waits other code runs on the thread, which is well-formed and does not close the
  descriptor \<open>fd\<close> either.
\<close>

definition script_ok :: "int \<Rightarrow> (sys_result \<times> sys_result \<times> ('k thread \<Rightarrow> 'k thread)) list \<Rightarrow> bool" where
  "script_ok fd script \<longleftrightarrow> (\<forall>x\<in>set script. \<forall>t. thread_ok t \<longrightarrow>
     thread_ok (snd (snd x) t) \<and> count_list (closed_fds (snd (snd x) t)) fd = count_list (closed_fds t) fd)"

definition answered :: "(sys_result \<times> sys_result \<times> ('k thread \<Rightarrow> 'k thread)) list \<Rightarrow> bool" where
  "answered script \<longleftrightarrow> (\<exists>x\<in>set script. round_result x \<noteq> (-1, EAGAIN))"

lemma io_loop_total:
  assumes "thread_ok th" and "event = READ \<or> event = WRITE" and "script_ok fd script" and "answered script"
  shows "\<exists>r th'. io_loop d event sp script th = Inr (Some r, th') \<and> thread_ok th' \<and>
    count_list (closed_fds th') fd = count_list (closed_fds th) fd"
  using assms(1,3,4)
proof (induction script arbitrary: th)
  case (Cons x script)
  obtain r1 r2 mw where x: "x = (r1, r2, mw)" by (cases x)
  show ?case
  proof (cases "round_result x = (-1, EAGAIN)")
    case True
    have inv: "epoll_inv (registry th)" using Cons.prems(1) by (simp add: thread_ok_def)
    obtain ep where ep: "wait_reg event d (last (co_stack (sched th))) (registry th) = Inr ep"
      using wait_reg_inv [OF inv assms(2)] by blast
    obtain y th1 where w: "wait_for d event sp th = Inr (y, th1)" "thread_ok th1" "closed_fds th1 = closed_fds th"
      using wait_for_ok [OF Cons.prems(1) assms(2) ep, of sp] by fastforce
    let ?th = "if y then mw th1 else th1"
    have th: "thread_ok ?th" "count_list (closed_fds ?th) fd = count_list (closed_fds th) fd"
      using w Cons.prems(2) by (auto simp: script_ok_def x)
    have "script_ok fd script" "answered script" using Cons.prems(2,3) True by (simp_all add: script_ok_def answered_def)
    from Cons.IH [OF th(1) this] w(1) th(2) True show ?thesis by (auto simp: x round_result_def Let_def)
  next
    case False
    with Cons.prems(1) show ?thesis by (auto simp: x round_result_def Let_def split: if_splits)
  qed
qed (simp add: answered_def)

lemma wrapper_event: "snd (wrapper call) = READ \<or> snd (wrapper call) = WRITE"
  by (cases call) simp_all

lemma hooked_total:
  assumes "thread_ok (thr s)" and "script_ok fd script" and "answered script"
  shows "\<exists>r s'. hooked call sp script so s = Inr (Some r, s') \<and> thread_ok (thr s') \<and> opened s' = opened s \<and>
    count_list (closed_fds (thr s')) fd = count_list (closed_fds (thr s)) fd"
proof -
  let ?th = "(thr s)\<lparr>registry := (registry (thr s))\<lparr>nonblocking := insert (sock_fd so) (nonblocking (registry (thr s)))\<rparr>\<rparr>"
  obtain r1 r2 mw rest where "script = (r1, r2, mw) # rest" using assms(3) by (cases script) (auto simp: answered_def)
  then obtain r th where "do_io (sock_fd so) (snd (wrapper call)) sp script (thr s) = Inr (Some r, th)" "thread_ok th"
      "count_list (closed_fds th) fd = count_list (closed_fds (thr s)) fd"
    using io_loop_total [OF _ wrapper_event assms(2,3), of ?th "sock_fd so" call sp] assms(1)
    by (cases "GetHookEnable (thr s)") (auto simp: do_io_def simp del: io_loop.simps)
  then show ?thesis by (cases r) (auto simp: hooked_def)
qed

section \<open>The life of a socket\<close>

datatype 'k sock_op =
    OpBind address sys_result | OpListen sys_result | OpAccept target sys_result "u8 list" sock_script u64
  | OpConnect address sys_result | OpClose
  | OpSetSockOpt sys_result | OpGetSockOpt sys_result | OpCancelRead | OpCancelWrite | OpCancelAll
  | OpSend sys_call nat "(sys_result \<times> sys_result \<times> ('k thread \<Rightarrow> 'k thread)) list"
  | OpRecv sys_call nat "(sys_result \<times> sys_result \<times> ('k thread \<Rightarrow> 'k thread)) list"

text \<open>
  How an operation may fail to return normally: it throws, or its call is still waiting. \<^verbatim>\<open>Accept\<close> is different:
  it may throw when the new object cannot be made, and its caller goes on with the listening socket then.
\<close>

datatype not_returned = Throws sock_error | StillWaiting

definition returned :: "sock_error + 'a \<Rightarrow> not_returned + 'a" where
  "returned r = (case r of Inl e \<Rightarrow> Inl (Throws e) | Inr x \<Rightarrow> Inr x)"

lemma returned_Inr [simp]: "returned (Inr x) = Inr x"
  by (simp add: returned_def)

fun sock_step :: "'k sock_op \<Rightarrow> sock \<times> 'k sys \<Rightarrow> not_returned + sock \<times> 'k sys" where
  "sock_step (OpBind a r) (so, s) = Inr (snd (Bind a r so s))"
| "sock_step (OpListen r) (so, s) = Inr (so, snd (Listen r so s))"
| "sock_step (OpAccept tg r storage scr mem) (so, s) = Inr (so, snd (Accept tg r storage scr mem so s))"
| "sock_step (OpConnect a r) (so, s) = Inr (snd (Connect a r so s))"
| "sock_step OpClose (so, s) = res_bind (returned (Close so s)) (\<lambda>(b, so', s'). Inr (so', s'))"
| "sock_step (OpSetSockOpt r) (so, s) = Inr (so, snd (SetSockOpt so r s))"
| "sock_step (OpGetSockOpt r) (so, s) = Inr (so, snd (GetSockOpt so r s))"
| "sock_step OpCancelRead (so, s) = res_bind (returned (CancelReadEvent so s)) (\<lambda>s'. Inr (so, s'))"
| "sock_step OpCancelWrite (so, s) = res_bind (returned (CancelWriteEvent so s)) (\<lambda>s'. Inr (so, s'))"
| "sock_step OpCancelAll (so, s) = res_bind (returned (CancelAllEvent so s)) (\<lambda>s'. Inr (so, s'))"
| "sock_step (OpSend call sp script) (so, s) =
     res_bind (returned (send_call call sp script so s)) (\<lambda>(r, s'). if r = None then Inl StillWaiting else Inr (so, s'))"
| "sock_step (OpRecv call sp script) (so, s) =
     res_bind (returned (recv_call call sp script so s)) (\<lambda>(r, so', s'). if r = None then Inl StillWaiting else Inr (so', s'))"

abbreviation sock_run :: "'k sock_op list \<Rightarrow> sock \<times> 'k sys \<Rightarrow> not_returned + sock \<times> 'k sys" where
  "sock_run \<equiv> res_run sock_step"

text \<open>
  What the rest of the program and the kernel have to do with descriptor \<open>fd\<close>: a waiting call is answered at some time,
  the code that runs meanwhile does not close the descriptor, and the kernel does not hand it out
  for an accepted connection while it is open.
\<close>

fun sock_op_ok :: "int \<Rightarrow> 'k sock_op \<Rightarrow> bool" where
  "sock_op_ok fd (OpSend call sp script) \<longleftrightarrow> script_ok fd script \<and> answered script"
| "sock_op_ok fd (OpRecv call sp script) \<longleftrightarrow> script_ok fd script \<and> answered script"
| "sock_op_ok fd (OpAccept tg r storage scr mem) \<longleftrightarrow> fst r \<noteq> fd \<and> fst (r_socket scr) \<noteq> fd"
| "sock_op_ok fd _ = True"

text \<open>
  The invariant of an object that was given \<open>fd\<close>, which had been closed \<open>k\<close> times before: it has the
  descriptor and has not closed it, or it has closed it once and is no longer connected.
\<close>

definition sock_inv :: "int \<Rightarrow> nat \<Rightarrow> nat \<Rightarrow> sock \<times> 'k sys \<Rightarrow> bool" where
  "sock_inv fd op k p \<longleftrightarrow>
     fd \<noteq> -1 \<and>
     (case p of (so, s) \<Rightarrow>
        count_list (opened s) fd = op \<and> thread_ok (thr s) \<and>
        (sock_fd so = fd \<and> count_list (closed_fds (thr s)) fd = k \<or>
         sock_fd so = -1 \<and> \<not> sock_connected so \<and> count_list (closed_fds (thr s)) fd = Suc k))"

lemma cancel_inv:
  assumes "sock_inv fd op k (so, s)" and "some_type type"
  shows "\<exists>s'. cancel type so s = Inr s' \<and> sock_inv fd op k (so, s')"
proof -
  obtain ep where "CancelEvent type (sock_fd so) (registry (thr s)) = Inr ep" "thread_ok ((thr s)\<lparr>registry := ep\<rparr>)"
    using CancelEvent_thread_ok [of "thr s" type "sock_fd so"] assms by (auto simp: sock_inv_def)
  with assms(1) show ?thesis by (auto simp: cancel_def lift_ep_def sock_inv_def)
qed

text \<open>Whatever \<^verbatim>\<open>Accept\<close> does with other descriptors, an exception included, leaves \<open>fd\<close> alone.\<close>

definition same_fd :: "int \<Rightarrow> 'k sys \<Rightarrow> 'k sys \<Rightarrow> bool" where
  "same_fd fd s s' \<longleftrightarrow> count_list (opened s') fd = count_list (opened s) fd \<and> (thread_ok (thr s) \<longrightarrow> thread_ok (thr s')) \<and>
     count_list (closed_fds (thr s')) fd = count_list (closed_fds (thr s)) fd"

lemma Socket_same_fd:
  assumes "fst (r_socket scr) \<noteq> fd"
  shows "same_fd fd s (snd (Socket scr mem family type protocol s))"
  using assms by (auto simp: same_fd_def Socket_def new_fd_def Let_def)

lemma Destructor_same_fd:
  assumes "sock_fd so \<noteq> fd" and "thread_ok (thr s)" and "Destructor so s = Inr s'"
  shows "same_fd fd s s'"
proof (cases "sock_fd so = -1")
  case False
  obtain th where "close (sock_fd so) (thr s) = Inr th" "thread_ok th" "closed_fds th = closed_fds (thr s) @ [sock_fd so]"
    using close_ok [OF assms(2)] by blast
  with False assms(1,3) show ?thesis by (auto simp: Destructor_def close_socket_def same_fd_def)
qed (use assms in \<open>auto simp: Destructor_def close_socket_def same_fd_def\<close>)

lemma Accept_same_fd:
  assumes ok: "thread_ok (thr s)" and fds: "fst r \<noteq> fd" "fst (r_socket scr) \<noteq> fd"
  shows "same_fd fd s (snd (Accept tg r storage scr mem so s))"
proof (cases "sock_fd so = -1 \<or> fst r = -1")
  case True
  then show ?thesis by (auto simp: Accept_def new_fd_def same_fd_def)
next
  case False
  let ?s1 = "s\<lparr>opened := opened s @ [fst r]\<rparr>"
  obtain x s2 where sk: "Socket scr mem (sock_family so) (sock_type so) (sock_protocol so) ?s1 = (x, s2)" by fastforce
  have 2: "same_fd fd s s2" using Socket_same_fd [OF fds(2), of ?s1 mem "sock_family so" "sock_type so" "sock_protocol so"] fds(1)
    by (simp add: sk same_fd_def)
  show ?thesis
  proof (cases x)
    case (Inl e)
    with False 2 sk show ?thesis by (simp add: Accept_def new_fd_def)
  next
    case (Inr ret)
    have "thread_ok (thr s2)" using 2 ok by (simp add: same_fd_def)
    from Destructor_same_fd [OF _ this, of "ret\<lparr>sock_fd := fst r\<rparr>" fd] fds(1) 2
    have "same_fd fd s s3" if "Destructor (ret\<lparr>sock_fd := fst r\<rparr>) s2 = Inr s3" for s3
      using that by (auto simp: same_fd_def)
    with False 2 sk Inr show ?thesis by (simp add: Accept_def new_fd_def Let_def split: sum.split)
  qed
qed

lemma close_socket_inv:
  assumes "sock_inv fd op k (so, s)"
  shows "\<exists>so' s'. close_socket so s = Inr (so', s') \<and> sock_inv fd op k (so', s') \<and>
    sock_fd so' = -1 \<and> count_list (closed_fds (thr s')) fd = Suc k"
proof (cases "sock_fd so = -1")
  case False
  then obtain th where "close fd (thr s) = Inr th" "thread_ok th" "closed_fds th = closed_fds (thr s) @ [fd]" "sock_fd so = fd"
    using close_ok [of "thr s" fd] assms by (auto simp: sock_inv_def)
  with assms False show ?thesis by (auto simp: close_socket_def Let_def sock_inv_def)
qed (use assms in \<open>auto simp: close_socket_def Let_def sock_inv_def\<close>)

lemma call_inv:
  assumes "sock_inv fd op k (so, s)" and "script_ok fd script" and "answered script"
  shows "\<exists>s'. sock_step (OpSend call sp script) (so, s) = Inr (so, s') \<and> sock_inv fd op k (so, s')"
    and "\<exists>p'. sock_step (OpRecv call sp script) (so, s) = Inr p' \<and> sock_inv fd op k p'"
proof -
  obtain r s' where "hooked call sp script so s = Inr (Some r, s')" "thread_ok (thr s')" "opened s' = opened s"
      "count_list (closed_fds (thr s')) fd = count_list (closed_fds (thr s)) fd"
    using hooked_total [OF _ assms(2,3), of s call sp so] assms(1) by (auto simp: sock_inv_def)
  with assms(1) show "\<exists>s'. sock_step (OpSend call sp script) (so, s) = Inr (so, s') \<and> sock_inv fd op k (so, s')"
    and "\<exists>p'. sock_step (OpRecv call sp script) (so, s) = Inr p' \<and> sock_inv fd op k p'"
    by (auto simp: send_call_def recv_call_def sock_inv_def split: option.split)
qed

lemma sock_step_inv:
  assumes "sock_inv fd op k p" and "sock_op_ok fd x"
  shows "\<exists>p'. sock_step x p = Inr p' \<and> sock_inv fd op k p'"
proof -
  obtain so s where p: "p = (so, s)" by (cases p)
  have keep: "sock_inv fd op k (so, s')" if "thr s' = thr s" "opened s' = opened s" for s'
    using assms that by (simp add: sock_inv_def p)
  show ?thesis
  proof (cases x)
    case (OpBind a r)
    then show ?thesis using assms by (auto simp: p Bind_def on_fd_def sock_inv_def)
  next
    case (OpAccept tg r storage scr mem)
    then show ?thesis using assms Accept_same_fd [of s r fd scr tg storage mem so] by (auto simp: p same_fd_def sock_inv_def)
  next
    case (OpConnect a r)
    then show ?thesis using assms by (auto simp: p Connect_def on_fd_def sock_inv_def)
  next
    case OpClose
    then show ?thesis using close_socket_inv [of fd op k so s] assms by (auto simp: p Close_def)
  next
    case (OpSend call sp script)
    then show ?thesis using call_inv(1) [of fd op k so s script call sp] assms by (auto simp: p simp del: sock_step.simps)
  next
    case (OpRecv call sp script)
    then show ?thesis using call_inv(2) [of fd op k so s script call sp] assms by (auto simp: p simp del: sock_step.simps)
  next
    case OpCancelAll
    obtain s1 where s1: "cancel READ so s = Inr s1" "sock_inv fd op k (so, s1)"
      using cancel_inv both_types(1) assms(1) by (metis p)
    with cancel_inv [OF s1(2) both_types(2)] OpCancelAll show ?thesis by (auto simp: p CancelAllEvent_def)
  qed (use cancel_inv [of fd op k so s READ] cancel_inv [of fd op k so s WRITE] both_types assms keep in
      \<open>auto simp: p CancelReadEvent_def CancelWriteEvent_def Listen_def case_prod_beta\<close>)
qed

interpretation sock: total_steps sock_step "sock_op_ok fd" "sock_inv fd op k" for fd op k
  by unfold_locales (rule sock_step_inv)

section \<open>Properties of the socket wrapper\<close>

text \<open>
  C20: A socket owns its descriptor: the constructor opens one, and after any sequence of operations on the object,
  accepting, sending, receiving, closing it any number of times and using it after it is closed
  included, the destructor succeeds and the descriptor has been closed exactly once more. Every
  operation but \<^verbatim>\<open>Accept\<close> returns without an exception, and \<^verbatim>\<open>Accept\<close> leaves the descriptor alone even when it
  throws. This needs of the rest that a call that waits is answered at some time, that the code that
  runs meanwhile does not close the descriptor, and that the kernel does not hand the descriptor
  out for an accepted connection.
\<close>

theorem socket_closes_once:
  assumes "r_socket scr = (fd, e)" and "fd \<noteq> -1" and "thread_ok (thr s)" and "\<forall>x\<in>set ops. sock_op_ok fd x"
  shows "\<exists>so s1 so2 s2 s3. Socket scr mem family type protocol s = (Inr so, s1) \<and>
    sock_run ops (so, s1) = Inr (so2, s2) \<and> Destructor so2 s2 = Inr s3 \<and>
    count_list (opened s3) fd = Suc (count_list (opened s) fd) \<and>
    count_list (closed_fds (thr s3)) fd = Suc (count_list (closed_fds (thr s)) fd)"
proof -
  let ?k = "count_list (closed_fds (thr s)) fd" and ?op = "Suc (count_list (opened s) fd)"
  obtain so s1 where new: "Socket scr mem family type protocol s = (Inr so, s1)"
    and inv1: "sock_inv fd ?op ?k (so, s1)"
    using Socket_ok [OF assms(1-3)] assms(2) by (fastforce simp: sock_inv_def)
  obtain so2 s2 where run: "sock_run ops (so, s1) = Inr (so2, s2)"
    and inv2: "sock_inv fd ?op ?k (so2, s2)"
    using sock.run_inv [OF inv1 assms(4)] by fastforce
  obtain so3 s3 where "close_socket so2 s2 = Inr (so3, s3)" "count_list (closed_fds (thr s3)) fd = Suc ?k"
    "count_list (opened s3) fd = ?op"
    using close_socket_inv [OF inv2] by (auto simp: sock_inv_def)
  with new run show ?thesis by (auto simp: Destructor_def)
qed

definition sys_demo :: "unit sys" where
  "sys_demo = \<lparr>thr = hook_demo, opened = [], errno = 0\<rparr>"

definition script_demo :: "int \<Rightarrow> sock_script" where
  "script_demo fd = \<lparr>r_socket = (fd, 0), r_reuseaddr = (0, 0), r_nodelay = (0, 0), r_getfl = (2, 0), r_setfl = (0, 0)\<rparr>"

lemma sys_demo_ok: "thread_ok (thr sys_demo)" "closed_fds (thr sys_demo) = []" "opened sys_demo = []"
  using hook_demo_ok by (simp_all add: sys_demo_def thread_ok_def hook_demo_def)

definition ops_demo :: "unit sock_op list" where
  "ops_demo = [OpListen (0, 0), OpAccept \<lparr>host_order = SYLAR_LITTLE_ENDIAN, sylar_order = SYLAR_BIG_ENDIAN\<rparr> (6, 0) [] (script_demo (-1)) 0,
     OpSend sys_send 0 [((-1, EAGAIN), (0, 0), id), ((7, 0), (0, 0), id)], OpClose, OpClose, OpListen (0, 0)]"

theorem socket_closes_once_witness:
  "\<exists>so s1 so2 s2 s3. Socket (script_demo 5) 0 IPv4 TCP 0 sys_demo = (Inr so, s1) \<and> sock_run ops_demo (so, s1) = Inr (so2, s2) \<and>
    Destructor so2 s2 = Inr s3 \<and> count_list (opened s3) 5 = 1 \<and> count_list (closed_fds (thr s3)) 5 = 1"
proof -
  have "\<forall>x\<in>set ops_demo. sock_op_ok 5 x"
    by (simp add: ops_demo_def script_demo_def script_ok_def answered_def round_result_def EINTR_def EAGAIN_def)
  then show ?thesis
    using socket_closes_once [of "script_demo 5" 5 0 sys_demo ops_demo 0 IPv4 TCP 0]
    by (simp add: sys_demo_ok script_demo_def del: sock_step.simps res_run.simps)
qed

text \<open>
  Accepting a connection leaks a descriptor: the object for it is constructed with a socket of
  its own, which is then overwritten by the accepted descriptor. Two descriptors are open
  afterwards, and destroying the object closes only the accepted one. A TCP socket that
  was accepted does not count as connected; the peer's address is right.
\<close>

theorem Accept_leaks_descriptor:
  assumes "thread_ok (thr s)" and "sock_fd so \<noteq> -1" and "sock_type so = TCP"
    and "fd \<noteq> -1" and "r_socket scr = (extra, e)" and "extra \<noteq> -1" and "address_ok peer"
  shows "\<exists>so' s' s''. Accept tg (fd, e') (GetSockaddr tg peer @ rest) scr mem so s = (Inr (Some so'), s') \<and>
    sock_fd so' = fd \<and> sock_addr so' = Some peer \<and> \<not> sock_connected so' \<and>
    Destructor so' s' = Inr s'' \<and>
    opened s'' = opened s @ [fd, extra] \<and> closed_fds (thr s'') = closed_fds (thr s) @ [fd]"
proof -
  define s1 where "s1 = s\<lparr>opened := opened s @ [fd]\<rparr>"
  have "thread_ok (thr s1)" using assms(1) by (simp add: s1_def)
  from Socket_ok [OF assms(5,6) this, of mem "sock_family so" "sock_type so" "sock_protocol so"]
  obtain ret s2 where ret: "Socket scr mem (sock_family so) (sock_type so) (sock_protocol so) s1 = (Inr ret, s2)"
    "\<not> sock_connected ret" "opened s2 = opened s @ [fd, extra]" "closed_fds (thr s2) = closed_fds (thr s)"
    "thread_ok (thr s2)"
    using assms(3) by (auto simp: s1_def TCP_def UDP_def)
  let ?so = "ret\<lparr>sock_fd := fd, sock_addr := Some peer\<rparr>"
  have acc: "Accept tg (fd, e') (GetSockaddr tg peer @ rest) scr mem so s = (Inr (Some ?so), s2)"
    using assms(2,4,7) ret(1) by (simp add: Accept_def new_fd_def s1_def [symmetric] Create_GetSockaddr)
  obtain th where "close fd (thr s2) = Inr th" "closed_fds th = closed_fds (thr s) @ [fd]"
    using close_ok [OF ret(5), of fd] ret(4) by auto
  with assms(4) have "Destructor ?so s2 = Inr (s2\<lparr>thr := th\<rparr>)" "closed_fds th = closed_fds (thr s) @ [fd]"
    by (simp_all add: Destructor_def close_socket_def)
  with acc ret show ?thesis by simp
qed

theorem Accept_leaks_descriptor_witness:
  "\<exists>so' s' s''. Accept \<lparr>host_order = SYLAR_LITTLE_ENDIAN, sylar_order = SYLAR_BIG_ENDIAN\<rparr> (6, 0)
      (GetSockaddr \<lparr>host_order = SYLAR_LITTLE_ENDIAN, sylar_order = SYLAR_BIG_ENDIAN\<rparr>
        (IPv4Address \<lparr>sin_family = 2, sin_port = 0, sin_addr = [127, 0, 0, 1], sin_zero = replicate 8 0\<rparr>) @ []) (script_demo 7) 0
      \<lparr>sock_fd = 5, sock_family = IPv4, sock_type = TCP, sock_protocol = 0, sock_connected = False, sock_addr = None,
       sock_buf = [], sock_buf_size = 0\<rparr> sys_demo = (Inr (Some so'), s') \<and>
    Destructor so' s' = Inr s'' \<and> opened s'' = [6, 7] \<and> closed_fds (thr s'') = [6]"
  using Accept_leaks_descriptor [of sys_demo "\<lparr>sock_fd = 5, sock_family = IPv4, sock_type = TCP, sock_protocol = 0,
      sock_connected = False, sock_addr = None, sock_buf = [], sock_buf_size = 0\<rparr>" 6 "script_demo 7" 7 0
      "IPv4Address \<lparr>sin_family = 2, sin_port = 0, sin_addr = [127, 0, 0, 1], sin_zero = replicate 8 0\<rparr>"
      "\<lparr>host_order = SYLAR_LITTLE_ENDIAN, sylar_order = SYLAR_BIG_ENDIAN\<rparr>" 0 "[]" 0]
  by (auto simp: sys_demo_ok script_demo_def AF_INET_def)

text \<open>
  The exception of a failed construction never says why the socket could not be created:
  the constructor goes on to set options on descriptor -1, and the error it reports at the
  end is always that of a bad descriptor.
\<close>

theorem Socket_masks_error:
  assumes "r_socket scr = (-1, e)"
  shows "\<exists>s'. Socket scr mem family type protocol s = (Inl (SockRuntimeError EBADF), s') \<and> opened s' = opened s"
  using assms by (simp add: Socket_def new_fd_def Let_def)

theorem Socket_masks_error_witness:
  "\<exists>s'. Socket (script_demo (-1)) 0 IPv4 TCP 0 sys_demo = (Inl (SockRuntimeError EBADF), s') \<and> opened s' = opened sys_demo"
  by (rule Socket_masks_error) (simp add: script_demo_def)

text \<open>The factories by address and by family agree; other families give no socket.\<close>

lemma CreateTCPSocket_family:
  "GetFamily a = IPv4 \<Longrightarrow> CreateTCPSocket scr mem a s = apfst (map_sum id Some) (CreateTCPIPv4Socket scr mem s)"
  "GetFamily a = IPv6 \<Longrightarrow> CreateTCPSocket scr mem a s = apfst (map_sum id Some) (CreateTCPIPv6Socket scr mem s)"
  "GetFamily a = IPv4 \<Longrightarrow> CreateUDPSocket scr mem a s = apfst (map_sum id Some) (CreateUDPIPv4Socket scr mem s)"
  "GetFamily a = IPv6 \<Longrightarrow> CreateUDPSocket scr mem a s = apfst (map_sum id Some) (CreateUDPIPv6Socket scr mem s)"
  "GetFamily a \<notin> {IPv4, IPv6} \<Longrightarrow> CreateTCPSocket scr mem a s = (Inr None, s) \<and> CreateUDPSocket scr mem a s = (Inr None, s)"
  by (simp_all add: CreateTCPSocket_def CreateUDPSocket_def CreateTCPIPv4Socket_def CreateTCPIPv6Socket_def
      CreateUDPIPv4Socket_def CreateUDPIPv6Socket_def IPv4_def IPv6_def AF_INET_def AF_INET6_def)

text \<open>A failed receive leaves the largest size in the buffer size of the object.\<close>

lemma recv_error_size:
  assumes "hooked call sp script so s = Inr (Some (-1), s1)"
  shows "recv_call call sp script so s = Inr (Some (-1), so\<lparr>sock_buf_size := - 1\<rparr>, s1)"
  using assms by (simp add: recv_call_def as_int_def)

end
