(* ===== verification/Blocking_Io.thy ===== *)
theory Blocking_Io
  imports Socket_Laws
begin

text \<open>
  A blocking call from end to end. The call of the socket wrapper goes through the hooked system call; when
  the kernel would block, the coroutine is registered with the event registry and the scheduler switches
  back to the event loop; the loop dispatches the event of the descriptor, whose handler resumes the
  coroutine, and the call is repeated. These laws compose \<^verbatim>\<open>socket.cc\<close>, \<^verbatim>\<open>hook.cc\<close>, \<^verbatim>\<open>epoll.cc\<close> and
  \<^verbatim>\<open>coroutine.cc\<close>.
\<close>

section \<open>Switching back\<close>

text \<open>Coroutines with stacks of their own can be resumed; the parts of the state a caller relies on.\<close>

lemma Resume_private:
  assumes inv: "sched_inv s" "initialised s" "private_stacks s" and c: "c < length (cos s)" "c \<noteq> p"
    and st: "co_st (cos s ! c) = CO_READY" "running_co s = Some p" "co_st (cos s ! p) = CO_RUNNING"
  obtains s' where "Coroutine.Resume c sp s = Inr s'" "sched_inv s'" "initialised s'" "private_stacks s'"
    "co_stack s' = co_stack s @ [c]" "co_st (cos s' ! c) = CO_RUNNING"
proof -
  define s1 where "s1 = (if length (co_stack s) > 1 then set_co p (\<lambda>co. co\<lparr>co_st := CO_READY\<rparr>) s else s)"
  define s3 where "s3 = (set_co c (\<lambda>co. co\<lparr>co_st := CO_RUNNING\<rparr>) s1)
    \<lparr>co_stack := co_stack s @ [c], stack_top := stack_top s + 1, running_co := Some c\<rparr>"
  define s' where "s' = set_co p (\<lambda>co. co\<lparr>dummy := Some sp\<rparr>) s3"
  have shared: "use_shared_stk (cos s' ! d) = use_shared_stk (cos s ! d)" "use_shared_stk (cos s3 ! d) = use_shared_stk (cos s ! d)" for d
    by (simp_all add: s'_def s3_def s1_def cos_set_co)
  have "SwapContext p c sp s3 = Inr s'"
    unfolding s'_def by (rule SwapContext_private) (use c inv(3) shared(2) in \<open>simp_all add: private_stacks_def s3_def s1_def\<close>)
  then have r: "Coroutine.Resume c sp s = Inr s'"
    using st inv(2) by (cases "length (co_stack s) > 1") (simp_all add: Coroutine.Resume_def Let_def GetThreadSchedule_def s1_def s3_def)
  note R = Resume_control [OF inv(1,2) c(1) st r]
  show thesis
  proof (rule that [OF r])
    show "sched_inv s'" by (rule sched_inv_Resume [OF inv(1) _ r]) (simp add: GetThreadSchedule_def inv(2) c(1))
    show "private_stacks s'" using inv(3) shared R(5) by (simp add: private_stacks_def)
  qed (use R c in simp_all)
qed

section \<open>Waking a coroutine\<close>

text \<open>The entry of the registry for a descriptor resumes coroutine \<open>c\<close> on the event.\<close>

definition registered :: "nat \<Rightarrow> u32 \<Rightarrow> int \<Rightarrow> 'k epoll \<Rightarrow> bool" where
  "registered c event fd ep \<longleftrightarrow>
     (\<exists>p. reg_event ep fd = Some (Some p) \<and> ev_type (ctxs ep ! p) AND event \<noteq> 0 \<and>
        (if event = READ then r_callback (ctxs ep ! p) = None \<and> r_co (ctxs ep ! p) = Some c
         else w_callback (ctxs ep ! p) = None \<and> w_co (ctxs ep ! p) = Some c))"

text \<open>A second registration of the same coroutine changes nothing.\<close>

lemma wait_reg_registered:
  assumes "wait_reg event fd c ep = Inr ep'" and "event = READ \<or> event = WRITE"
    and "reg_event ep fd = None \<or> registered c event fd ep"
  shows "registered c event fd ep'"
  using assms
  by (auto simp: wait_reg_def RegisterEvent_def registered_def Let_def read_write_bits split: if_splits)

text \<open>
  What the event loop does between the yield of a coroutine and its next turn: \<open>before\<close> is what other
  events and timers do on the thread, and then the event of the descriptor is dispatched. Its
  handler resumes a coroutine.
\<close>

definition resume_task :: "nat \<Rightarrow> 'k task \<Rightarrow> 'k epoll \<times> (co_error + Coroutine.schedule) \<Rightarrow> 'k epoll \<times> (co_error + Coroutine.schedule)" where
  "resume_task sp t st =
     (fst st, res_bind (snd st) (\<lambda>s. case t of task.Resume c \<Rightarrow> Coroutine.Resume c sp s | _ \<Rightarrow> Inr s))"

definition wake :: "(nat \<Rightarrow> int) \<Rightarrow> nat \<Rightarrow> u32 \<Rightarrow> int \<Rightarrow> ('k thread \<Rightarrow> 'k thread) \<Rightarrow> 'k thread \<Rightarrow> 'k thread" where
  "wake adr sp event fd before th0 =
     (let th = before th0 in
      case dispatch adr (resume_task sp) (event, DataFd fd) (registry th, Inr (sched th)) of
        Inr (ep, Inr s) \<Rightarrow> th\<lparr>registry := ep, sched := s\<rparr>
      | _ \<Rightarrow> th)"

text \<open>Other activity hands the scheduler back as it was and leaves the registration alone.\<close>

definition undisturbed :: "nat \<Rightarrow> u32 \<Rightarrow> int \<Rightarrow> ('k thread \<Rightarrow> 'k thread) \<Rightarrow> bool" where
  "undisturbed c event fd before \<longleftrightarrow>
     (\<forall>th. thread_ok th \<and> registered c event fd (registry th) \<longrightarrow>
        thread_ok (before th) \<and> registered c event fd (registry (before th)) \<and>
        control (sched (before th)) = control (sched th))"

lemma dispatch_registered:
  assumes "registered c event fd ep" and "event = READ \<or> event = WRITE"
  shows "dispatch adr run (event, DataFd fd) (ep, e) = Inr (run (task.Resume c) (ep, e))"
  using assms by (auto simp: registered_def dispatch_def run_handler_def Let_def event_bits split: if_splits)

lemma wake_resumes:
  assumes ok: "thread_ok th" and ev: "event = READ \<or> event = WRITE" and reg: "registered c event fd (registry th)"
    and undist: "undisturbed c event fd before"
    and c: "c < length (cos (sched th))" "co_st (cos (sched th) ! c) = CO_READY"
    and p: "running_co (sched th) = Some p" "co_st (cos (sched th) ! p) = CO_RUNNING" "c \<noteq> p" "p < length (cos (sched th))"
  shows "thread_ok (wake adr sp event fd before th) \<and> registered c event fd (registry (wake adr sp event fd before th)) \<and>
    co_stack (sched (wake adr sp event fd before th)) = co_stack (sched th) @ [c]"
proof -
  let ?th = "before th"
  have B: "thread_ok ?th" "registered c event fd (registry ?th)" "control (sched ?th) = control (sched th)"
    using undist ok reg by (simp_all add: undisturbed_def)
  note C = controlD [OF B(3)]
  have inv: "sched_inv (sched ?th)" "initialised (sched ?th)" "private_stacks (sched ?th)"
    using B(1) by (simp_all add: thread_ok_def)
  obtain s where s: "Coroutine.Resume c sp (sched ?th) = Inr s" "sched_inv s" "initialised s" "private_stacks s"
    "co_stack s = co_stack (sched ?th) @ [c]"
    by (rule Resume_private [OF inv, of c p sp]) (use c p C in simp_all)
  have "wake adr sp event fd before th = ?th\<lparr>registry := registry ?th, sched := s\<rparr>"
    by (simp add: wake_def Let_def dispatch_registered [OF B(2) ev] resume_task_def s(1))
  with s B C(2) show ?thesis by (simp add: thread_ok_def)
qed

section \<open>The hooked call\<close>

text \<open>A coroutine in the middle of a call, and one round of it that is refused.\<close>

definition caller_ok :: "nat \<Rightarrow> u32 \<Rightarrow> int \<Rightarrow> 'k thread \<Rightarrow> bool" where
  "caller_ok c event fd th \<longleftrightarrow> thread_ok th \<and> 2 \<le> length (co_stack (sched th)) \<and> distinct (co_stack (sched th)) \<and>
     last (co_stack (sched th)) = c \<and> (reg_event (registry th) fd = None \<or> registered c event fd (registry th))"

lemma wait_and_wake:
  assumes ok: "caller_ok c event fd th" and ev: "event = READ \<or> event = WRITE" and undist: "undisturbed c event fd before"
  shows "\<exists>th1. wait_for fd event sp th = Inr (True, th1) \<and> caller_ok c event fd (wake adr sp' event fd before th1) \<and>
    co_stack (sched (wake adr sp' event fd before th1)) = co_stack (sched th)"
proof -
  let ?s = "sched th"
  have T: "thread_ok th" "2 \<le> length (co_stack ?s)" "distinct (co_stack ?s)" "last (co_stack ?s) = c"
    "reg_event (registry th) fd = None \<or> registered c event fd (registry th)"
    using ok by (simp_all add: caller_ok_def)
  have inv: "sched_inv ?s" "private_stacks ?s" "epoll_inv (registry th)" "initialised ?s" using T(1) by (simp_all add: thread_ok_def)
  obtain ep where ep: "wait_reg event fd c (registry th) = Inr ep" using wait_reg_inv [OF inv(3) ev] by blast
  have reg: "registered c event fd ep" by (rule wait_reg_registered [OF ep ev T(5)])
  obtain s where s: "wait_for fd event sp th = Inr (True, th\<lparr>registry := ep, sched := s\<rparr>)"
      "thread_ok (th\<lparr>registry := ep, sched := s\<rparr>)" "Yield sp ?s = Inr s"
    using wait_for_ok [OF T(1) ev, of fd ep sp] ep T(2,4) by auto
  let ?p = "last (butlast (co_stack ?s))"
  have st: "co_stack ?s = butlast (co_stack ?s) @ [c]" using T(2,4) by (metis append_butlast_last_id list.size(3) not_numeral_le_zero)
  have ne: "butlast (co_stack ?s) \<noteq> []" using T(2) by (cases "co_stack ?s" rule: rev_cases) auto
  then have "?p \<in> set (butlast (co_stack ?s))" by (rule last_in_set)
  then have "?p \<noteq> c" using T(3) st by (metis disjoint_iff distinct_append list.set_intros(1))
  obtain s' where "Yield sp ?s = Inr s'" "running_co s' = Some ?p" "co_st (cos s' ! ?p) = CO_RUNNING"
      "co_st (cos s' ! c) = CO_READY" "length (cos s') = length (cos ?s)" "co_stack s' = butlast (co_stack ?s)"
    by (rule Yield_private [OF inv(1,2) T(2), of sp]) (use T(4) \<open>?p \<noteq> c\<close> in auto)
  with s(3) have Y: "running_co s = Some ?p" "co_st (cos s ! ?p) = CO_RUNNING"
      "co_st (cos s ! c) = CO_READY" "length (cos s) = length (cos ?s)" "co_stack s = butlast (co_stack ?s)" by auto
  have mem: "c \<in> set (co_stack ?s)" "?p \<in> set (co_stack ?s)"
    using st \<open>?p \<in> set (butlast (co_stack ?s))\<close> by (metis in_set_conv_decomp, metis in_set_butlastD)
  then have bound: "c < length (cos ?s)" "?p < length (cos ?s)" using inv(1,4) by (simp_all add: sched_inv_def)
  let ?th1 = "th\<lparr>registry := ep, sched := s\<rparr>"
  have w: "thread_ok (wake adr sp' event fd before ?th1) \<and> registered c event fd (registry (wake adr sp' event fd before ?th1)) \<and>
      co_stack (sched (wake adr sp' event fd before ?th1)) = co_stack (sched ?th1) @ [c]"
    by (rule wake_resumes [OF s(2) ev, where p = ?p]) (use reg undist Y bound \<open>?p \<noteq> c\<close> in auto)
  then have stack: "co_stack (sched (wake adr sp' event fd before ?th1)) = co_stack ?s" using Y(5) st by simp
  with w T have "caller_ok c event fd (wake adr sp' event fd before ?th1)" by (simp add: caller_ok_def)
  with s(1) stack show ?thesis by blast
qed

lemma io_loop_wakes:
  assumes "caller_ok c event fd th" and ev: "event = READ \<or> event = WRITE"
    and "\<forall>x\<in>set blocked. round_result x = (-1, EAGAIN) \<and>
      (\<exists>sp' before. snd (snd x) = wake adr sp' event fd before \<and> undisturbed c event fd before)"
    and "round_result final \<noteq> (-1, EAGAIN)"
  shows "\<exists>th'. io_loop fd event sp (blocked @ final # unused) th = Inr (Some (round_result final), th') \<and>
    caller_ok c event fd th' \<and> co_stack (sched th') = co_stack (sched th)"
  using assms(1,3)
proof (induction blocked arbitrary: th)
  case Nil
  with assms(4) show ?case by (auto simp: round_result_def Let_def split: prod.splits if_splits)
next
  case (Cons x blocked)
  obtain r1 r2 mw where x: "x = (r1, r2, mw)" by (cases x)
  from Cons.prems(2) obtain sp' before where mw: "mw = wake adr sp' event fd before" "undisturbed c event fd before"
    by (auto simp: x)
  obtain th1 where w: "wait_for fd event sp th = Inr (True, th1)" "caller_ok c event fd (mw th1)"
      "co_stack (sched (mw th1)) = co_stack (sched th)"
    using wait_and_wake [OF Cons.prems(1) ev mw(2), of sp adr sp'] by (auto simp: mw(1))
  with Cons.IH [OF w(2)] Cons.prems(2) show ?case by (auto simp: x round_result_def Let_def)
qed

section \<open>The blocking call\<close>

lemma hooked_waits:
  fixes s :: "'k sys"
  assumes "thread_ok (thr s)" and "GetHookEnable (thr s)" and "2 \<le> length (co_stack (sched (thr s)))"
    and "distinct (co_stack (sched (thr s)))" and c: "c = last (co_stack (sched (thr s)))"
    and "reg_event (registry (thr s)) (sock_fd so) = None" and ev: "event = snd (wrapper call)"
    and "\<forall>x\<in>set blocked. round_result x = (-1, EAGAIN) \<and>
      (\<exists>sp' before. snd (snd x) = wake adr sp' event (sock_fd so) before \<and> undisturbed c event (sock_fd so) before)"
    and "round_result final = (n, e)" and "(n, e) \<noteq> (-1, EAGAIN)"
  shows "\<exists>s'. hooked call sp (blocked @ final # unused) so s = Inr (Some n, s') \<and>
    co_stack (sched (thr s')) = co_stack (sched (thr s)) \<and> running_co (sched (thr s')) = Some c \<and> thread_ok (thr s')"
proof -
  let ?fd = "sock_fd so"
  let ?th = "(thr s)\<lparr>registry := (registry (thr s))\<lparr>nonblocking := insert ?fd (nonblocking (registry (thr s)))\<rparr>\<rparr>"
  have "caller_ok c event ?fd ?th" using assms(1,3,4,6) by (auto simp: caller_ok_def c)
  from io_loop_wakes [OF this _ assms(8), of final sp unused] assms(9,10) wrapper_event [of call]
  obtain th' where th': "io_loop ?fd event sp (blocked @ final # unused) ?th = Inr (Some (n, e), th')"
      "caller_ok c event ?fd th'" "co_stack (sched th') = co_stack (sched (thr s))" by (auto simp: ev)
  have "running_co (sched th') = Some c" using th'(2) by (auto simp: caller_ok_def thread_ok_def sched_inv_def)
  moreover have "thread_ok th'" using th'(2) by (simp add: caller_ok_def)
  moreover have "do_io ?fd event sp (blocked @ final # unused) (thr s) = Inr (Some (n, e), th')"
    using th'(1) assms(2) by (simp add: do_io_def)
  ultimately show ?thesis using th'(3) by (simp add: hooked_def ev)
qed

text \<open>A send returns what the kernel took, in the same way.\<close>

lemma Send_waits_for_space:
  assumes "thread_ok (thr s)" and "GetHookEnable (thr s)" and "2 \<le> length (co_stack (sched (thr s)))"
    and "distinct (co_stack (sched (thr s)))" and c: "c = last (co_stack (sched (thr s)))"
    and "reg_event (registry (thr s)) (sock_fd so) = None"
    and "\<forall>x\<in>set blocked. round_result x = (-1, EAGAIN) \<and>
      (\<exists>sp' before. snd (snd x) = wake adr sp' WRITE (sock_fd so) before \<and> undisturbed c WRITE (sock_fd so) before)"
    and "round_result final = (n, e)" and "(n, e) \<noteq> (-1, EAGAIN)"
  shows "\<exists>s'. Send sp (blocked @ final # unused) so s = Inr (Some (as_int n), s') \<and>
    co_stack (sched (thr s')) = co_stack (sched (thr s)) \<and> running_co (sched (thr s')) = Some c \<and> thread_ok (thr s')"
  using hooked_waits [where call = sys_send and event = WRITE and sp = sp and unused = unused, OF assms(1-4) c assms(6) _ assms(7-9)]
  by (auto simp: Send_def send_call_def)

text \<open>
  C18: A receive on a socket, made by a coroutine, returns the data that arrives: when the kernel refuses the
  call any number of times and the event loop dispatches an event of the descriptor after each refusal,
  with any well-formed activity in between that leaves the coroutine's registration alone, the call
  returns the kernel's first other answer, the object has stored the size, and the coroutine
  runs again on the same stack of coroutines.
\<close>

theorem Recv_waits_for_data:
  assumes "thread_ok (thr s)" and "GetHookEnable (thr s)" and "2 \<le> length (co_stack (sched (thr s)))"
    and "distinct (co_stack (sched (thr s)))" and c: "c = last (co_stack (sched (thr s)))"
    and "reg_event (registry (thr s)) (sock_fd so) = None"
    and "\<forall>x\<in>set blocked. round_result x = (-1, EAGAIN) \<and>
      (\<exists>sp' before. snd (snd x) = wake adr sp' READ (sock_fd so) before \<and> undisturbed c READ (sock_fd so) before)"
    and "round_result final = (n, e)" and "(n, e) \<noteq> (-1, EAGAIN)"
  shows "\<exists>s'. Recv sp (blocked @ final # unused) so s =
      Inr (Some (as_int n), so\<lparr>sock_buf_size := word_of_int (as_int n)\<rparr>, s') \<and>
    co_stack (sched (thr s')) = co_stack (sched (thr s)) \<and> running_co (sched (thr s')) = Some c \<and> thread_ok (thr s')"
  using hooked_waits [where call = sys_recv and event = READ and sp = sp and unused = unused, OF assms(1-4) c assms(6) _ assms(7-9)]
  by (auto simp: Recv_def recv_call_def)

theorem Recv_waits_for_data_witness:
  "\<exists>s'. Recv 0 [((-1, EAGAIN), (0, 0), wake (\<lambda>_. 0) 0 READ 5 id), ((-1, EAGAIN), (0, 0), wake (\<lambda>_. 0) 0 READ 5 id), ((12, 0), (0, 0), id)]
      \<lparr>sock_fd = 5, sock_family = IPv4, sock_type = TCP, sock_protocol = 0, sock_connected = True, sock_addr = None,
       sock_buf = [], sock_buf_size = 0\<rparr> sys_demo =
      Inr (Some 12, \<lparr>sock_fd = 5, sock_family = IPv4, sock_type = TCP, sock_protocol = 0, sock_connected = True, sock_addr = None,
       sock_buf = [], sock_buf_size = 12\<rparr>, s') \<and> co_stack (sched (thr s')) = [0, 1] \<and> running_co (sched (thr s')) = Some 1"
proof -
  let ?so = "\<lparr>sock_fd = 5, sock_family = IPv4, sock_type = TCP, sock_protocol = 0, sock_connected = True, sock_addr = None,
       sock_buf = [], sock_buf_size = 0\<rparr>"
  have demo: "thr sys_demo = hook_demo" "thread_ok hook_demo" "GetHookEnable hook_demo"
    by (simp_all add: sys_demo_def hook_demo_ok GetHookEnable_def) (simp add: hook_demo_def)
  have und: "undisturbed 1 READ 5 id" by (simp add: undisturbed_def)
  have blocked: "\<forall>x\<in>set [((-1, EAGAIN), (0, 0), wake (\<lambda>_. 0) 0 READ 5 id), ((-1, EAGAIN), (0, 0), wake (\<lambda>_. 0) 0 READ 5 id)].
      round_result x = (-1, EAGAIN) \<and>
      (\<exists>sp' before. snd (snd x) = wake (\<lambda>_. 0) sp' READ (sock_fd ?so) before \<and> undisturbed 1 READ (sock_fd ?so) before)"
    using und by (auto simp: round_result_def EAGAIN_def EINTR_def)
  have final: "round_result ((12, 0), (0, 0), id :: unit thread \<Rightarrow> unit thread) = (12, 0)" by (simp add: round_result_def)
  show ?thesis
    using Recv_waits_for_data [of sys_demo 1 ?so, OF _ _ _ _ _ _ blocked final, of 0 "[]"]
    by (auto simp: demo hook_demo_stack as_int_def)
qed

end
