(* ===== verification/Http_Date.thy ===== *)
theory Http_Date
  imports Sylar_Strings
begin

text \<open>
  The date of a response, \<^verbatim>\<open>GetCurrentTime\<close> of \<^verbatim>\<open>src/src/http_message.cc\<close>, with what it uses of the C
  library: the calendar of \<^verbatim>\<open>gmtime\<close> and the conversions of \<^verbatim>\<open>strftime\<close>. The clock is an argument,
  in seconds since the Epoch. The date is read back with the formula that POSIX gives for
  these seconds.
\<close>

section \<open>The calendar\<close>

record tm =
  tm_sec :: nat
  tm_min :: nat
  tm_hour :: nat
  tm_mday :: nat
  tm_mon :: nat
  tm_year :: nat
  tm_wday :: nat
  tm_yday :: nat

definition is_leap :: "nat \<Rightarrow> bool" where
  "is_leap y \<longleftrightarrow> y mod 4 = 0 \<and> (y mod 100 \<noteq> 0 \<or> y mod 400 = 0)"

definition year_days :: "nat \<Rightarrow> nat" where
  "year_days y = (if is_leap y then 366 else 365)"

definition months :: "nat \<Rightarrow> nat list" where
  "months y = [31, if is_leap y then 29 else 28, 31, 30, 31, 30, 31, 31, 30, 31, 30, 31]"

text \<open>The year of a day counted from the first of January of \<open>y\<close>, and the day in that year.\<close>

function year_loop :: "nat \<Rightarrow> nat \<Rightarrow> nat \<times> nat" where
  "year_loop y d = (if d < year_days y then (y, d) else year_loop (y + 1) (d - year_days y))"
  by pat_completeness auto
termination
  by (relation "measure snd") (auto simp: year_days_def)

declare year_loop.simps [simp del]

fun month_loop :: "nat list \<Rightarrow> nat \<Rightarrow> nat \<times> nat" where
  "month_loop [] d = (0, d)"
| "month_loop (n # ns) d = (if d < n then (0, d) else case month_loop ns (d - n) of (m, e) \<Rightarrow> (Suc m, e))"

text \<open>\<^verbatim>\<open>gmtime\<close>; the first of January 1970 was a Thursday.\<close>

definition gmtime :: "nat \<Rightarrow> tm" where
  "gmtime t =
     (let days = t div 86400; s = t mod 86400;
          (y, yday) = year_loop 1970 days;
          (m, d) = month_loop (months y) yday
      in \<lparr>tm_sec = s mod 60, tm_min = s div 60 mod 60, tm_hour = s div 3600, tm_mday = d + 1, tm_mon = m,
          tm_year = y - 1900, tm_wday = (days + 4) mod 7, tm_yday = yday\<rparr>)"

section \<open>Printing\<close>

definition day_names :: "string list" where
  "day_names = [''Sun'', ''Mon'', ''Tue'', ''Wed'', ''Thu'', ''Fri'', ''Sat'']"

definition month_names :: "string list" where
  "month_names = [''Jan'', ''Feb'', ''Mar'', ''Apr'', ''May'', ''Jun'', ''Jul'', ''Aug'', ''Sep'', ''Oct'', ''Nov'', ''Dec'']"

definition two_digits :: "nat \<Rightarrow> string" where
  "two_digits n = [char_of (48 + n div 10), char_of (48 + n mod 10)]"

text \<open>The conversions that the sources use, in the C locale; other text stands for itself.\<close>

definition conversion :: "char \<Rightarrow> tm \<Rightarrow> string" where
  "conversion c x =
     (if c = CHR ''a'' then day_names ! tm_wday x else if c = CHR ''b'' then month_names ! tm_mon x
      else if c = CHR ''d'' then two_digits (tm_mday x) else if c = CHR ''m'' then two_digits (tm_mon x + 1)
      else if c = CHR ''Y'' then dec_string (tm_year x + 1900) else if c = CHR ''H'' then two_digits (tm_hour x)
      else if c = CHR ''M'' then two_digits (tm_min x) else if c = CHR ''S'' then two_digits (tm_sec x)
      else [CHR ''%'', c])"

fun strftime_text :: "string \<Rightarrow> tm \<Rightarrow> string" where
  "strftime_text [] x = []"
| "strftime_text [c] x = [c]"
| "strftime_text (c # c' # fmt) x =
     (if c = CHR ''%'' then conversion c' x @ strftime_text fmt x else c # strftime_text (c' # fmt) x)"

text \<open>A text that does not fit the buffer with its terminator leaves the contents indeterminate.\<close>

definition strftime_into :: "nat \<Rightarrow> string \<Rightarrow> tm \<Rightarrow> string option" where
  "strftime_into sz fmt x = (let s = strftime_text fmt x in if length s < sz then Some s else None)"

definition GetCurrentTime :: "nat \<Rightarrow> string option" where
  "GetCurrentTime now = strftime_into 80 ''%a, %d %b %Y %H:%M:%S GMT'' (gmtime now)"

section \<open>Reading a date back\<close>

text \<open>
  The formula of POSIX for the seconds since the Epoch, from the year, the day of the year and the time.
\<close>

definition posix_seconds :: "nat \<Rightarrow> nat \<Rightarrow> nat \<Rightarrow> nat \<Rightarrow> nat \<Rightarrow> nat" where
  "posix_seconds y yday h m s =
     s + m * 60 + h * 3600 + yday * 86400 + (y - 1970) * 31536000 + ((y - 1969) div 4) * 86400 +
     ((y - 1601) div 400) * 86400 - ((y - 1901) div 100) * 86400"

definition month_number :: "string \<Rightarrow> nat" where
  "month_number s = length (takeWhile (\<lambda>n. n \<noteq> s) month_names)"

text \<open>A date of the form \<open>Sun, 06 Nov 1994 08:49:37 GMT\<close>, by columns.\<close>

definition date_seconds :: "string \<Rightarrow> nat option" where
  "date_seconds s =
     (let y = dec_value (substr 12 4 s); m = month_number (substr 8 3 s); d = dec_value (substr 5 2 s);
          t = posix_seconds y (sum_list (take m (months y)) + d - 1)
                (dec_value (substr 17 2 s)) (dec_value (substr 20 2 s)) (dec_value (substr 23 2 s))
      in if length s = 29 \<and> take 3 s = day_names ! ((t div 86400 + 4) mod 7) \<and> substr 3 2 s = '', '' \<and>
            substr 25 4 s = '' GMT'' then Some t else None)"

text \<open>
  The form that HTTP prescribes for a date (\<open>IMF-fixdate\<close>), every one of its 29 columns: names, digits and the
  separators between them.
\<close>

definition digits :: "string \<Rightarrow> bool" where
  "digits s \<longleftrightarrow> (\<forall>c\<in>set s. 48 \<le> (of_char c :: nat) \<and> (of_char c :: nat) \<le> 57)"

definition imf_fixdate :: "string \<Rightarrow> bool" where
  "imf_fixdate s \<longleftrightarrow> length s = 29 \<and>
     take 3 s \<in> set day_names \<and> substr 3 2 s = '', '' \<and> digits (substr 5 2 s) \<and> substr 7 1 s = '' '' \<and>
     substr 8 3 s \<in> set month_names \<and> substr 11 1 s = '' '' \<and> digits (substr 12 4 s) \<and> substr 16 1 s = '' '' \<and>
     digits (substr 17 2 s) \<and> substr 19 1 s = '':'' \<and> digits (substr 20 2 s) \<and> substr 22 1 s = '':'' \<and>
     digits (substr 23 2 s) \<and> substr 25 4 s = '' GMT''"

section \<open>The laws of the calendar\<close>

definition days_before :: "nat \<Rightarrow> nat" where
  "days_before y = (y - 1970) * 365 + (y - 1969) div 4 + (y - 1601) div 400 - (y - 1901) div 100"

lemma century_bound: "(k + 69) div 100 \<le> (k :: nat)"
proof -
  have "(k + 69) div 100 \<le> (100 * k) div 100 \<or> k = 0" by (cases k) (auto intro: div_le_mono)
  then show ?thesis by auto
qed

lemma days_before_Suc:
  assumes "1970 \<le> y"
  shows "days_before (Suc y) = days_before y + year_days y"
proof -
  obtain k where y: "y = k + 1970" using assms by (metis add.commute le_Suc_ex)
  have "(k + 1970) mod 4 = 0 \<longleftrightarrow> Suc (k + 1) mod 4 = 0" by presburger
  then have a: "Suc (k + 1) div 4 = (k + 1) div 4 + (if y mod 4 = 0 then 1 else 0)"
    using div_Suc [of "k + 1" 4] by (simp only: y) (simp split: if_splits)
  have "(k + 1970) mod 100 = 0 \<longleftrightarrow> Suc (k + 69) mod 100 = 0" by presburger
  then have b: "Suc (k + 69) div 100 = (k + 69) div 100 + (if y mod 100 = 0 then 1 else 0)"
    using div_Suc [of "k + 69" 100] by (simp only: y) (simp split: if_splits)
  have "(k + 1970) mod 400 = (k + 370 + 4 * 400) mod 400" by (simp add: add.commute)
  also have "\<dots> = Suc (k + 369) mod 400" by (simp only: mod_mult_self1) (simp add: add.commute)
  finally have c: "Suc (k + 369) div 400 = (k + 369) div 400 + (if y mod 400 = 0 then 1 else 0)"
    using div_Suc [of "k + 369" 400] by (simp only: y) (simp split: if_splits)
  have multiples: "y mod 400 = 0 \<Longrightarrow> y mod 100 = 0" "y mod 100 = 0 \<Longrightarrow> y mod 4 = 0"
    by (auto simp: mod_eq_0_iff_dvd intro: dvd_trans)
  have "days_before (Suc y) = Suc k * 365 + Suc (k + 1) div 4 + Suc (k + 369) div 400 - Suc (k + 69) div 100"
    "days_before y = k * 365 + (k + 1) div 4 + (k + 369) div 400 - (k + 69) div 100"
    by (simp_all only: days_before_def y) (simp_all del: div_Suc add: add.commute)
  note days = this [unfolded a b c]
  consider "y mod 4 \<noteq> 0" "y mod 100 \<noteq> 0" "y mod 400 \<noteq> 0" | "y mod 4 = 0" "y mod 100 \<noteq> 0" "y mod 400 \<noteq> 0"
    | "y mod 4 = 0" "y mod 100 = 0" "y mod 400 \<noteq> 0" | "y mod 4 = 0" "y mod 100 = 0" "y mod 400 = 0"
    using multiples by metis
  then show ?thesis
    using century_bound [of k] by cases (simp_all only: days year_days_def is_leap_def, simp_all add: add_ac)
qed

lemma year_loop_correct:
  assumes "1970 \<le> y" and "year_loop y d = (y', e)"
  shows "y \<le> y' \<and> e < year_days y' \<and> days_before y + d = days_before y' + e"
  using assms
proof (induction y d rule: year_loop.induct)
  case (1 y d)
  show ?case
  proof (cases "d < year_days y")
    case True
    with 1 show ?thesis by (simp add: year_loop.simps [of y])
  next
    case False
    with 1 have "y + 1 \<le> y' \<and> e < year_days y' \<and> days_before (y + 1) + (d - year_days y) = days_before y' + e"
      by (simp add: year_loop.simps [of y])
    with False days_before_Suc [OF 1(2)] show ?thesis by simp
  qed
qed

lemma month_loop_correct:
  assumes "d < sum_list ns" and "month_loop ns d = (m, e)"
  shows "m < length ns \<and> e < ns ! m \<and> d = sum_list (take m ns) + e"
  using assms
proof (induction ns arbitrary: d m)
  case (Cons n ns)
  show ?case
  proof (cases "d < n")
    case False
    then obtain m' where "month_loop ns (d - n) = (m', e)" "m = Suc m'" using Cons.prems(2) by (auto split: prod.splits)
    moreover from Cons.prems(1) False have "d - n < sum_list ns" by simp
    ultimately have "m' < length ns" "e < ns ! m'" "d - n = sum_list (take m' ns) + e" using Cons.IH [of "d - n" m'] by blast+
    moreover from this(3) False have "d = n + sum_list (take m' ns) + e" by linarith
    ultimately show ?thesis using \<open>m = Suc m'\<close> by simp
  qed (use Cons.prems in simp)
qed simp

lemma days_before_mono: "1970 \<le> y \<Longrightarrow> days_before y \<le> days_before (y + n)"
  by (induction n) (simp_all add: days_before_Suc)

lemma seconds_of_days:
  assumes "c \<le> k"
  shows "s + m * 60 + h * 3600 + yday * 86400 + k * 31536000 + a * 86400 + b * 86400 - c * 86400 =
    (k * 365 + a + b - c + yday) * 86400 + h * 3600 + m * 60 + (s :: nat)"
proof -
  obtain j where "k = c + j" using assms le_Suc_ex by blast
  then show ?thesis by (simp add: add_mult_distrib)
qed

lemma posix_seconds_days:
  assumes "1970 \<le> y"
  shows "posix_seconds y yday h m s = (days_before y + yday) * 86400 + h * 3600 + m * 60 + s"
proof -
  obtain k where y: "y = k + 1970" using assms by (metis add.commute le_Suc_ex)
  have k: "y - 1970 = k" "(y - 1901) div 100 \<le> k" using century_bound [of k] by (simp_all add: y add.commute)
  show ?thesis unfolding posix_seconds_def days_before_def k(1) by (rule seconds_of_days [OF k(2)])
qed

text \<open>The fields of a time before the year 10000.\<close>

lemma sum_months: "sum_list (months y) = year_days y"
  by (simp add: months_def year_days_def)

lemma month_days_bound: "m < 12 \<Longrightarrow> months y ! m \<le> 31"
  by (auto simp: months_def less_Suc_eq numeral_eq_Suc)

lemma gmtime_fields:
  assumes "t < 253402300800"
  obtains y yday where "1970 \<le> y" "y < 10000" "tm_year (gmtime t) + 1900 = y" "tm_mon (gmtime t) < 12"
    "1 \<le> tm_mday (gmtime t)" "tm_mday (gmtime t) \<le> 31" "yday = sum_list (take (tm_mon (gmtime t)) (months y)) + tm_mday (gmtime t) - 1"
    "posix_seconds y yday (tm_hour (gmtime t)) (tm_min (gmtime t)) (tm_sec (gmtime t)) = t"
    "tm_hour (gmtime t) < 24" "tm_min (gmtime t) < 60" "tm_sec (gmtime t) < 60" "tm_wday (gmtime t) = (t div 86400 + 4) mod 7"
proof -
  obtain y yday where yl: "year_loop 1970 (t div 86400) = (y, yday)" by (cases "year_loop 1970 (t div 86400)")
  obtain m d where ml: "month_loop (months y) yday = (m, d)" by (cases "month_loop (months y) yday")
  have tm: "gmtime t = \<lparr>tm_sec = t mod 86400 mod 60, tm_min = t mod 86400 div 60 mod 60, tm_hour = t mod 86400 div 3600,
      tm_mday = d + 1, tm_mon = m, tm_year = y - 1900, tm_wday = (t div 86400 + 4) mod 7, tm_yday = yday\<rparr>"
    by (simp add: gmtime_def yl ml Let_def)
  have yr: "1970 \<le> y" "yday < year_days y" "t div 86400 = days_before y + yday"
    using year_loop_correct [OF _ yl] by (simp_all add: days_before_def)
  have mo: "m < 12" "d < months y ! m" "yday = sum_list (take m (months y)) + d"
    using month_loop_correct [OF _ ml] yr(2) by (simp_all add: sum_months) (simp_all add: months_def)
  have "t div 86400 < 2932897" using assms by simp
  then have "days_before y < days_before 10000" using yr(3) by (simp add: days_before_def [of 10000])
  then have "y < 10000" using days_before_mono [of 10000 "y - 10000"] by (cases "y < 10000") simp_all
  moreover have "t mod 86400 div 3600 * 3600 + t mod 86400 div 60 mod 60 * 60 + t mod 86400 mod 60 = t mod 86400"
  proof -
    have "t mod 86400 div 3600 = t mod 86400 div 60 div 60" by (simp add: div_mult2_eq [symmetric])
    then show ?thesis using div_mult_mod_eq [of "t mod 86400" 60] div_mult_mod_eq [of "t mod 86400 div 60" 60] by linarith
  qed
  then have "posix_seconds y yday (t mod 86400 div 3600) (t mod 86400 div 60 mod 60) (t mod 86400 mod 60) = t"
    using posix_seconds_days [OF yr(1)] yr(3) div_mult_mod_eq [of t 86400] by (simp add: add.assoc)
  moreover have "t mod 86400 div 3600 < 24" by (simp add: less_mult_imp_div_less)
  moreover have "d < 31" using mo(2) month_days_bound [OF mo(1), of y] by simp
  ultimately show thesis
    using yr(1) mo by (intro that [of y yday]) (simp_all add: tm)
qed

section \<open>Printed fields\<close>

lemma two_digits_value: "n < 100 \<Longrightarrow> dec_value (two_digits n) = n"
  by (simp add: two_digits_def dec_value_def)

lemma dec_string_snoc: "10 \<le> n \<Longrightarrow> dec_string n = dec_string (n div 10) @ [char_of (48 + n mod 10)]"
  by (simp add: dec_string.simps [of n])

lemma dec_string_four:
  assumes "1000 \<le> y" "y < 10000"
  obtains a b c d where "dec_string y = [a, b, c, d]"
proof -
  have "100 \<le> y div 10" "10 \<le> y div 10 div 10" "y div 10 div 10 div 10 < 10" using assms by linarith+
  then have "length (dec_string y) = 4"
    using assms by (simp add: dec_string_snoc [of y] dec_string_snoc [of "y div 10"] dec_string_snoc [of "y div 10 div 10"]
        dec_string.simps [of "y div 10 div 10 div 10"])
  then show thesis using that by (auto simp: numeral_eq_Suc length_Suc_conv)
qed

lemma day_name_letters:
  assumes "w < 7"
  obtains a b c where "day_names ! w = [a, b, c]"
  using assms that by (auto simp: day_names_def less_Suc_eq numeral_eq_Suc)

lemma month_name_letters:
  assumes "m < 12"
  obtains a b c where "month_names ! m = [a, b, c]"
  using assms that by (auto simp: month_names_def less_Suc_eq numeral_eq_Suc)

lemma month_number_name: "m < 12 \<Longrightarrow> month_number (month_names ! m) = m"
  by (auto simp: month_number_def month_names_def less_Suc_eq numeral_eq_Suc)

lemma date_text:
  "strftime_text ''%a, %d %b %Y %H:%M:%S GMT'' x =
     day_names ! tm_wday x @ '', '' @ two_digits (tm_mday x) @ '' '' @ month_names ! tm_mon x @ '' '' @
     dec_string (tm_year x + 1900) @ '' '' @ two_digits (tm_hour x) @ '':'' @ two_digits (tm_min x) @ '':'' @
     two_digits (tm_sec x) @ '' GMT''"
  by (simp add: conversion_def)

lemma digits_two_digits: "n < 100 \<Longrightarrow> digits (two_digits n)"
  by (auto simp: digits_def two_digits_def)

lemma digits_dec_string: "digits (dec_string n)"
proof (induction n rule: dec_string.induct)
  case (1 n)
  then show ?case by (cases "n < 10") (auto simp: dec_string.simps [of n] digits_def)
qed

lemma GetCurrentTime_ok:
  assumes "t < 253402300800"
  shows "\<exists>s. GetCurrentTime t = Some s \<and> imf_fixdate s \<and> date_seconds s = Some t"
proof -
  let ?x = "gmtime t"
  obtain y yday where f: "1970 \<le> y" "y < 10000" "tm_year ?x + 1900 = y" "tm_mon ?x < 12" "1 \<le> tm_mday ?x" "tm_mday ?x \<le> 31"
    "yday = sum_list (take (tm_mon ?x) (months y)) + tm_mday ?x - 1"
    "posix_seconds y yday (tm_hour ?x) (tm_min ?x) (tm_sec ?x) = t"
    "tm_hour ?x < 24" "tm_min ?x < 60" "tm_sec ?x < 60" "tm_wday ?x = (t div 86400 + 4) mod 7"
    by (rule gmtime_fields [OF assms])
  obtain a b c where day: "day_names ! tm_wday ?x = [a, b, c]" by (rule day_name_letters [of "tm_wday ?x"]) (simp add: f(12))
  obtain a' b' c' where mon: "month_names ! tm_mon ?x = [a', b', c']" by (rule month_name_letters [OF f(4)])
  obtain y1 y2 y3 y4 where yr: "dec_string y = [y1, y2, y3, y4]" by (rule dec_string_four [of y]) (use f(1,2) in simp_all)
  define s where "s = strftime_text ''%a, %d %b %Y %H:%M:%S GMT'' ?x"
  have s: "s = [a, b, c] @ '', '' @ two_digits (tm_mday ?x) @ '' '' @ [a', b', c'] @ '' '' @ [y1, y2, y3, y4] @ '' '' @
      two_digits (tm_hour ?x) @ '':'' @ two_digits (tm_min ?x) @ '':'' @ two_digits (tm_sec ?x) @ '' GMT''"
    unfolding s_def date_text f(3) day mon yr by simp
  then have cols: "length s = 29" "take 3 s = [a, b, c]" "substr 3 2 s = '', ''" "substr 25 4 s = '' GMT''"
    "substr 5 2 s = two_digits (tm_mday ?x)" "substr 8 3 s = [a', b', c']" "substr 12 4 s = [y1, y2, y3, y4]"
    "substr 17 2 s = two_digits (tm_hour ?x)" "substr 20 2 s = two_digits (tm_min ?x)" "substr 23 2 s = two_digits (tm_sec ?x)"
    "substr 7 1 s = '' ''" "substr 11 1 s = '' ''" "substr 16 1 s = '' ''" "substr 19 1 s = '':''" "substr 22 1 s = '':''"
    by (simp_all add: two_digits_def substr_def)
  have "[a, b, c] \<in> set day_names" "[a', b', c'] \<in> set month_names"
    using nth_mem [of "tm_wday ?x" day_names] nth_mem [of "tm_mon ?x" month_names] day mon f(4,12)
    by (simp_all add: day_names_def month_names_def)
  then have "imf_fixdate s"
    using f digits_dec_string [of y] by (simp add: imf_fixdate_def cols digits_two_digits yr del: One_nat_def)
  have "dec_value [y1, y2, y3, y4] = y" "month_number [a', b', c'] = tm_mon ?x"
    using dec_value_dec_string [of y] month_number_name [OF f(4)] by (simp_all add: yr mon)
  then have "date_seconds s = Some t"
    using f day by (simp add: date_seconds_def cols two_digits_value)
  with cols(1) \<open>imf_fixdate s\<close> show ?thesis unfolding GetCurrentTime_def strftime_into_def Let_def s_def [symmetric] by simp
qed

text \<open>
  C35: The date of a response is a faithful text of the clock: for every time before the year 10000
  \<^verbatim>\<open>GetCurrentTime\<close> fits its buffer, has the form that HTTP prescribes in each of its 29 columns, and reading the
  date with the POSIX formula gives the time back, with the day of the week that the formula gives.
\<close>

theorem GetCurrentTime_round_trip:
  assumes "t < 253402300800"
  shows "\<exists>s. GetCurrentTime t = Some s \<and> imf_fixdate s \<and> date_seconds s = Some t"
  using assms by (rule GetCurrentTime_ok)

lemma date_demo: "GetCurrentTime 784111777 = Some ''Sun, 06 Nov 1994 08:49:37 GMT''"
proof -
  have "year_loop 1970 9075 = (1994, 309)" by (simp add: year_loop.simps year_days_def is_leap_def)
  then show ?thesis
    by (simp add: GetCurrentTime_def strftime_into_def gmtime_def months_def is_leap_def conversion_def day_names_def
        month_names_def two_digits_def dec_string.simps) (simp add: char_of_def bit_0)
qed

theorem GetCurrentTime_round_trip_witness:
  "imf_fixdate ''Sun, 06 Nov 1994 08:49:37 GMT'' \<and> date_seconds ''Sun, 06 Nov 1994 08:49:37 GMT'' = Some 784111777"
  using GetCurrentTime_round_trip [of 784111777] by (simp add: date_demo)

end
