(* ===== verification/Http_Message.thy ===== *)
theory Http_Message
  imports Http_Date
begin

text \<open>
  HTTP messages: \<^verbatim>\<open>src/src/http_message.cc\<close> and its header. Headers are a \<^verbatim>\<open>std::map\<close>, here
  an association list kept in ascending order of the keys, since printing iterates over it.
  Parsing updates the request before it may throw, so it returns the request together
  with the exception. The clock that dates a response is an argument.
\<close>

section \<open>Enumerations\<close>

datatype HttpMethod = GET | HEAD | POST | PUT | DELETE | CONNECT | OPTIONS | TRACE | PATCH

datatype HttpVersion = HTTP_0_9 | HTTP_1_0 | HTTP_1_1 | HTTP_2_0

datatype HttpStatusCode =
    Continue | SwitchingProtocols | EarlyHints | Ok | Created | Accepted | NonAuthoritativeInformation
  | NoContent | ResetContent | ParticalContent | MultipleChoices | MovedPermanently | Found | NotModified
  | BadRequest | UnAuthorized | Forbidden | NotFound | MethodNotAllowed | RequestTimeout | ImATeapot
  | InternalServerError | NotImplemented | BadGateway | ServiceUnavailable | GatewayTimeout
  | HttpVersionNotSupported

fun status_number :: "HttpStatusCode \<Rightarrow> nat" where
  "status_number Continue = 100" | "status_number SwitchingProtocols = 101"
| "status_number EarlyHints = 103" | "status_number Ok = 200" | "status_number Created = 201"
| "status_number Accepted = 202" | "status_number NonAuthoritativeInformation = 203"
| "status_number NoContent = 204" | "status_number ResetContent = 205" | "status_number ParticalContent = 206"
| "status_number MultipleChoices = 300" | "status_number MovedPermanently = 301" | "status_number Found = 302"
| "status_number NotModified = 304" | "status_number BadRequest = 400" | "status_number UnAuthorized = 401"
| "status_number Forbidden = 403" | "status_number NotFound = 404" | "status_number MethodNotAllowed = 405"
| "status_number RequestTimeout = 408" | "status_number ImATeapot = 418"
| "status_number InternalServerError = 500" | "status_number NotImplemented = 501"
| "status_number BadGateway = 502" | "status_number ServiceUnavailable = 503"
| "status_number GatewayTimeout = 504" | "status_number HttpVersionNotSupported = 505"

fun MethodToString :: "HttpMethod \<Rightarrow> string" where
  "MethodToString GET = ''GET''" | "MethodToString HEAD = ''HEAD''" | "MethodToString POST = ''POST''"
| "MethodToString PUT = ''PUT''" | "MethodToString DELETE = ''DELETE''"
| "MethodToString CONNECT = ''CONNECT''" | "MethodToString OPTIONS = ''OPTIONS''"
| "MethodToString TRACE = ''TRACE''" | "MethodToString PATCH = ''PATCH''"

fun VersionToString :: "HttpVersion \<Rightarrow> string" where
  "VersionToString HTTP_0_9 = ''HTTP/0.9''" | "VersionToString HTTP_1_0 = ''HTTP/1.0''"
| "VersionToString HTTP_1_1 = ''HTTP/1.1''" | "VersionToString HTTP_2_0 = ''HTTP/2.0''"

definition StatusCodeToString :: "HttpStatusCode \<Rightarrow> string" where
  "StatusCodeToString status = (case status of
       Continue \<Rightarrow> ''Continue'' | Ok \<Rightarrow> ''OK'' | Accepted \<Rightarrow> ''Accepted''
     | MovedPermanently \<Rightarrow> ''Moved Permanently'' | Found \<Rightarrow> ''Found'' | BadRequest \<Rightarrow> ''Bad Request''
     | Forbidden \<Rightarrow> ''Forbidden'' | NotFound \<Rightarrow> ''Not Found'' | MethodNotAllowed \<Rightarrow> ''Method Not Allowed''
     | ImATeapot \<Rightarrow> ''I'' @ [CHR 0x27] @ ''m a Teapot'' | InternalServerError \<Rightarrow> ''Internal Server Error''
     | NotImplemented \<Rightarrow> ''Not Implemented'' | BadGateway \<Rightarrow> ''Bad Gateway'' | _ \<Rightarrow> [])"

section \<open>Messages\<close>

record http_message =
  version :: HttpVersion
  headers :: "(string \<times> string) list"
  content :: string

record http_request = http_message +
  req_method :: HttpMethod
  path :: string

record http_response = http_message +
  status_code :: HttpStatusCode

definition HttpRequest :: http_request where
  "HttpRequest = \<lparr>version = HTTP_1_0, headers = [], content = [], req_method = GET, path = []\<rparr>"

definition HttpResponse :: "HttpStatusCode \<Rightarrow> http_response" where
  "HttpResponse code = \<lparr>version = HTTP_1_0, headers = [], content = [], status_code = code\<rparr>"

definition SetContentLength :: "'a http_message_scheme \<Rightarrow> 'a http_message_scheme" where
  "SetContentLength m = m\<lparr>headers := map_put ''Content-Length'' (dec_string (length (content m))) (headers m)\<rparr>"

definition SetContent :: "string \<Rightarrow> 'a http_message_scheme \<Rightarrow> 'a http_message_scheme" where
  "SetContent c m = SetContentLength (m\<lparr>content := c\<rparr>)"

definition SetHeaders :: "string \<Rightarrow> string \<Rightarrow> 'a http_message_scheme \<Rightarrow> 'a http_message_scheme" where
  "SetHeaders key val m = SetContentLength (m\<lparr>headers := map_put key val (headers m)\<rparr>)"

definition RemoveHeader :: "string \<Rightarrow> 'a http_message_scheme \<Rightarrow> 'a http_message_scheme" where
  "RemoveHeader key m = m\<lparr>headers := map_erase key (headers m)\<rparr>"

definition GetHeader :: "string \<Rightarrow> 'a http_message_scheme \<Rightarrow> string" where
  "GetHeader key m = (case map_of (headers m) key of None \<Rightarrow> [] | Some v \<Rightarrow> v)"

section \<open>Printing\<close>

definition RequestToString :: "http_request \<Rightarrow> string" where
  "RequestToString r =
     MethodToString (req_method r) @ '' '' @ path r @ '' '' @ VersionToString (version r) @ CRLF @
     concat (map (\<lambda>(k, v). k @ '' '' @ v @ CRLF) (headers r)) @ CRLF @ content r"

definition ResponseToString :: "bool \<Rightarrow> http_response \<Rightarrow> string" where
  "ResponseToString send_content r =
     VersionToString (version r) @ '' '' @ dec_string (status_number (status_code r)) @ '' '' @
     StatusCodeToString (status_code r) @ CRLF @
     concat (map (\<lambda>(k, v). k @ '': '' @ v @ CRLF) (headers r)) @ CRLF @
     (if send_content then content r @ CRLF else [])"

section \<open>Parsing\<close>

datatype http_exn = InvalidArgument string | LogicError string | OtherException string

definition MethodFromString :: "string \<Rightarrow> http_exn + HttpMethod" where
  "MethodFromString m =
     (let u = map toupper m in
      if u = ''GET'' then Inr GET else if u = ''HEAD'' then Inr HEAD else if u = ''POST'' then Inr POST
      else if u = ''PUT'' then Inr PUT else if u = ''DELETE'' then Inr DELETE
      else if u = ''CONNECT'' then Inr CONNECT else if u = ''OPTIONS'' then Inr OPTIONS
      else if u = ''TRACE'' then Inr TRACE else if u = ''PATCH'' then Inr PATCH
      else Inl (InvalidArgument ''[MethodFromString] invalid method''))"

definition VersionFromString :: "string \<Rightarrow> http_exn + HttpVersion" where
  "VersionFromString v =
     (let u = map toupper v in
      if u = ''HTTP/0.9'' then Inr HTTP_0_9 else if u = ''HTTP/1.0'' then Inr HTTP_1_0
      else if u = ''HTTP/1.1'' then Inr HTTP_1_1 else if u = ''HTTP/2.0'' then Inr HTTP_2_0
      else Inl (InvalidArgument ''[VersionFromString] invalid version''))"

text \<open>
  One header line. Without a colon \<^verbatim>\<open>pos\<close> is \<^verbatim>\<open>npos\<close>: the key is the line, and
  \<^verbatim>\<open>pos + 1\<close> wraps to 0, so the value is the line too.
\<close>

definition parse_header :: "string \<Rightarrow> string \<times> string" where
  "parse_header line =
     (let (key, val) = (case find_str '':'' line of
            None \<Rightarrow> (line, line)
          | Some pos \<Rightarrow> (take pos line, drop (Suc pos) line))
      in (filter (\<lambda>c. \<not> isspace c) key, filter (\<lambda>c. \<not> isspace c) val))"

text \<open>The split of the message text into start line, header lines and body.\<close>

definition split_request :: "string \<Rightarrow> (string \<times> string \<times> string) option" where
  "split_request request =
     (case find_str CRLF request of
        None \<Rightarrow> None
      | Some pos \<Rightarrow>
          (let start_line = take pos request;
               rest = drop (pos + 2) request
           in case find_str (CRLF @ CRLF) rest of
                None \<Rightarrow> Some (start_line, [], [])
              | Some pos' \<Rightarrow> Some (start_line, take pos' rest, drop (pos' + 4) rest)))"

definition FromString :: "string \<Rightarrow> http_request \<Rightarrow> http_exn option \<times> http_request" where
  "FromString request r0 =
     (case split_request request of
        None \<Rightarrow> (Some (InvalidArgument
           ''[HttpRequest::FromString] cannot find start line in request message''), r0)
      | Some (start_line, header_lines, message_body) \<Rightarrow>
          (let ws = ws_words start_line;
               meth = (if 0 < length ws then ws ! 0 else []);
               r1 = (if 1 < length ws then r0\<lparr>path := ws ! 1\<rparr> else r0);
               ver = (if 2 < length ws then ws ! 2 else [])
           in case MethodFromString meth of
                Inl e \<Rightarrow> (Some e, r1)
              | Inr m \<Rightarrow>
                  (let r2 = r1\<lparr>req_method := m\<rparr> in
                   case VersionFromString ver of
                     Inl e \<Rightarrow> (Some e, r2)
                   | Inr v \<Rightarrow>
                       (let r3 = r2\<lparr>version := v\<rparr> in
                        if v \<noteq> HTTP_0_9 \<and> v \<noteq> HTTP_1_0 \<and> v \<noteq> HTTP_1_1
                        then (Some (LogicError ''[HttpRequest::FromString] http version not support''), r3)
                        else (None, SetContent message_body
                               (fold (\<lambda>line r. case parse_header line of (k, val) \<Rightarrow> SetHeaders k val r)
                                 (getlines header_lines) r3))))))"

section \<open>The 404 page\<close>

definition Create404Response :: "nat \<Rightarrow> http_response option" where
  "Create404Response now =
     (let nl = [LF] in
      map_option (\<lambda>date. SetContent
        (''<html>'' @ nl @ ''<head><title>404 Not Found</title></head>'' @ nl @ ''<body>'' @ nl @
         ''<h1>Not Found</h1>'' @ nl @ ''<p>The requested URL was not found on this server.</p>'' @ nl @
         ''<hr>'' @ nl @ ''<address>CustomServer/1.0 Server</address>'' @ nl @ ''</body>'' @ nl @ ''</html>'')
        (SetHeaders ''Connection'' ''close''
          (SetHeaders ''Content-Type'' ''text/html; charset=UTF-8''
            (SetHeaders ''Server'' ''CustomServer/1.0''
              (SetHeaders ''Data'' date (HttpResponse Ok))))))
       (GetCurrentTime now))"

end
