(* ===== verification/Http_Laws.thy ===== *)
theory Http_Laws
  imports Http_Message
begin

text \<open>
  Laws of the HTTP messages: the header map, the tokens of the start line (a locale
  interpreted for methods and for versions), searching and splitting the text of a request,
  and the parser on every request that is written the way the protocol asks for.
\<close>

section \<open>Tokens\<close>

text \<open>
  What methods and versions share: a printed value is one word, parsing reads it back, and
  parsing does not distinguish upper and lower case.
\<close>

locale token =
  fixes print :: "'a \<Rightarrow> string" and parse :: "string \<Rightarrow> http_exn + 'a"
  assumes parse_print: "parse (print x) = Inr x"
    and print_word: "print x \<noteq> [] \<and> (\<forall>c\<in>set (print x). \<not> isspace c)"
    and parse_case: "map toupper s = map toupper t \<Longrightarrow> parse s = parse t"
begin

lemma print_inject: "print x = print y \<longleftrightarrow> x = y"
  by (metis parse_print sum.inject(2))

lemma parse_any_case: "map toupper s = map toupper (print x) \<Longrightarrow> parse s = Inr x"
  using parse_case [of s "print x"] parse_print by simp

end

lemma MethodFromString_MethodToString: "MethodFromString (MethodToString m) = Inr m"
  unfolding MethodFromString_def by (cases m) (simp_all add: toupper_upper of_char_def)

lemma VersionFromString_VersionToString: "VersionFromString (VersionToString v) = Inr v"
  unfolding VersionFromString_def by (cases v) (simp_all add: toupper_upper of_char_def)

interpretation meth: token MethodToString MethodFromString
proof
  show "MethodFromString (MethodToString m) = Inr m" for m
    by (rule MethodFromString_MethodToString)
  show "MethodToString m \<noteq> [] \<and> (\<forall>c\<in>set (MethodToString m). \<not> isspace c)" for m
    by (cases m) (simp_all add: isspace_def)
  show "map toupper s = map toupper t \<Longrightarrow> MethodFromString s = MethodFromString t" for s t
    by (simp add: MethodFromString_def)
qed

interpretation ver: token VersionToString VersionFromString
proof
  show "VersionFromString (VersionToString v) = Inr v" for v
    by (rule VersionFromString_VersionToString)
  show "VersionToString v \<noteq> [] \<and> (\<forall>c\<in>set (VersionToString v). \<not> isspace c)" for v
    by (cases v) (simp_all add: isspace_def)
  show "map toupper s = map toupper t \<Longrightarrow> VersionFromString s = VersionFromString t" for s t
    by (simp add: VersionFromString_def)
qed

section \<open>Requests on the wire\<close>

text \<open>
  The text of a request as the protocol writes it: start line, header lines with a colon,
  an empty line, the body.
\<close>

fun header_line :: "string \<times> string \<Rightarrow> string" where
  "header_line (k, v) = k @ '': '' @ v"

fun header_block :: "(string \<times> string) list \<Rightarrow> string" where
  "header_block [] = []"
| "header_block [h] = header_line h"
| "header_block (h # hs) = header_line h @ CRLF @ header_block hs"

definition wire_request ::
  "HttpMethod \<Rightarrow> string \<Rightarrow> HttpVersion \<Rightarrow> (string \<times> string) list \<Rightarrow> string \<Rightarrow> string" where
  "wire_request m p v hs body =
     MethodToString m @ '' '' @ p @ '' '' @ VersionToString v @ CRLF @
     concat (map (\<lambda>h. header_line h @ CRLF) hs) @ CRLF @ body"

text \<open>
  The path is a word; the name of a header is a token without white space and colon, and its value is
  any text on one line, blanks included.
\<close>

definition word_ok :: "string \<Rightarrow> bool" where
  "word_ok s \<longleftrightarrow> s \<noteq> [] \<and> (\<forall>c\<in>set s. \<not> isspace c)"

definition header_ok :: "string \<times> string \<Rightarrow> bool" where
  "header_ok h \<longleftrightarrow> (\<forall>c\<in>set (fst h). \<not> isspace c \<and> c \<noteq> CHR '':'') \<and> (\<forall>c\<in>set (snd h). c \<noteq> CR \<and> c \<noteq> LF)"

text \<open>What the parser makes of a value: it removes every blank, not only those around the value.\<close>

definition squeeze :: "string \<Rightarrow> string" where
  "squeeze s = filter (\<lambda>c. \<not> isspace c) s"

lemma squeeze_word: "\<forall>c\<in>set s. \<not> isspace c \<Longrightarrow> squeeze s = s"
  by (simp add: squeeze_def)

lemma header_line_ok:
  assumes "header_ok h"
  shows "CR \<notin> set (header_line h)" "LF \<notin> set (header_line h)"
    "header_line h \<noteq> []" "hd (header_line h @ s) \<noteq> CR"
proof -
  obtain k v where "h = (k, v)" by (cases h)
  with assms have space: "isspace c \<Longrightarrow> c \<notin> set k" and v: "CR \<notin> set v" "LF \<notin> set v" for c
    by (auto simp: header_ok_def)
  then have k: "CR \<notin> set k" "LF \<notin> set k" by simp_all
  show "CR \<notin> set (header_line h)" "LF \<notin> set (header_line h)" "header_line h \<noteq> []"
    using k v \<open>h = (k, v)\<close> by simp_all
  show "hd (header_line h @ s) \<noteq> CR"
    using k \<open>h = (k, v)\<close> by (cases k) auto
qed

lemma parse_header_line:
  assumes "header_ok h" and "\<forall>c\<in>set e. isspace c"
  shows "parse_header (header_line h @ e) = (fst h, squeeze (snd h))"
proof -
  obtain k v where h: "h = (k, v)" by (cases h)
  have "find_str '':'' (k @ '':'' @ ('' '' @ v @ e)) = Some (length k)"
    using assms h find_str_skip [of "CHR '':''" k "[]"] find_str_here [of "'':''"]
    by (auto simp: header_ok_def)
  moreover have "filter (\<lambda>c. \<not> isspace c) e = []"
    using assms(2) by (simp add: filter_empty_conv)
  ultimately show ?thesis
    using assms(1) unfolding parse_header_def h header_ok_def by (simp add: squeeze_def)
qed

lemma header_lines_block: "hs \<noteq> [] \<Longrightarrow> concat (map (\<lambda>h. header_line h @ CRLF) hs) = header_block hs @ CRLF"
  by (induction hs rule: header_block.induct) simp_all

lemma header_block_Cons:
  "hs \<noteq> [] \<Longrightarrow> header_block (h # hs) = header_line h @ CRLF @ header_block hs"
  by (cases hs) auto

lemma header_block_hd:
  "hs \<noteq> [] \<Longrightarrow> list_all header_ok hs \<Longrightarrow> \<exists>c s. header_block hs = c # s \<and> c \<noteq> CR"
proof (cases hs)
  case (Cons h t)
  assume "list_all header_ok hs"
  with Cons have ok: "header_ok h" by simp
  obtain e where "header_block hs = header_line h @ e"
    unfolding Cons by (cases t) auto
  then show ?thesis
    using header_line_ok [OF ok] by (cases "header_line h") auto
qed simp

lemma find_blank_line:
  "hs \<noteq> [] \<Longrightarrow> list_all header_ok hs \<Longrightarrow>
   find_str (CRLF @ CRLF) (header_block hs @ CRLF @ CRLF @ body) = Some (length (header_block hs))"
proof (induction hs)
  case Nil
  then show ?case by simp
next
  case (Cons h hs)
  then have ok: "header_ok h" by simp
  have skip: "find_str (CRLF @ CRLF) (header_line h @ s) =
      map_option ((+) (length (header_line h))) (find_str (CRLF @ CRLF) s)" for s
    using find_str_skip [OF header_line_ok(1) [OF ok], of "LF # CRLF"] by (simp add: CRLF_def)
  show ?case
  proof (cases "hs = []")
    case True
    with skip find_str_here [of "CRLF @ CRLF" body] show ?thesis by simp
  next
    case False
    from Cons.prems have "list_all header_ok hs" by simp
    from header_block_hd [OF False this] obtain c s where c: "header_block hs = c # s" "c \<noteq> CR"
      by blast
    have "find_str (CRLF @ CRLF) (CRLF @ header_block hs @ t) =
        map_option ((+) 2) (find_str (CRLF @ CRLF) (header_block hs @ t))" for t
      using c by (cases "find_str (CRLF @ CRLF) (header_block hs @ t)") (auto simp: CRLF_def)
    with skip Cons False show ?thesis
      by (simp add: header_block_Cons CRLF_def)
  qed
qed

text \<open>The lines of a header block: every line but the last keeps its carriage return.\<close>

fun wire_lines :: "(string \<times> string) list \<Rightarrow> string list" where
  "wire_lines [] = []"
| "wire_lines [h] = [header_line h]"
| "wire_lines (h # hs) = (header_line h @ [CR]) # wire_lines hs"

lemma getlines_header_block: "list_all header_ok hs \<Longrightarrow> getlines (header_block hs) = wire_lines hs"
proof (induction hs rule: wire_lines.induct)
  case 1
  then show ?case by (simp add: getlines_def)
next
  case (2 h)
  then show ?case using header_line_ok by (simp add: text_simps)
next
  case (3 h h' hs)
  then have "LF \<notin> set (header_line h @ [CR])"
    using header_line_ok(2) [of h] by auto
  from getlines_line [OF this] 3 show ?case by (simp add: CRLF_def)
qed

lemma parse_wire_lines: "list_all header_ok hs \<Longrightarrow> map parse_header (wire_lines hs) = map (apsnd squeeze) hs"
proof (induction hs rule: wire_lines.induct)
  case (2 h)
  then show ?case using parse_header_line [of h "[]"] by (simp add: apsnd_def map_prod_def split: prod.split)
next
  case (3 h h' hs)
  then show ?case using parse_header_line [of h "[CR]"] by (simp add: apsnd_def map_prod_def split: prod.split)
qed simp

lemma split_wire_request:
  assumes "CR \<notin> set start" and "list_all header_ok hs"
    and "hs = [] \<longrightarrow> find_str (CRLF @ CRLF) (CRLF @ body) = None"
  shows "split_request (start @ CRLF @ concat (map (\<lambda>h. header_line h @ CRLF) hs) @ CRLF @ body) =
     Some (start, header_block hs, if hs = [] then [] else body)"
proof -
  have start: "find_str CRLF (start @ CRLF @ s) = Some (length start)" for s
    using find_str_skip [OF assms(1), of "[LF]" "CRLF @ s"] find_str_here [of CRLF s]
    by (simp add: CRLF_def)
  show ?thesis
  proof (cases "hs = []")
    case True
    with start [of "CRLF @ body"] assms(3) show ?thesis by (simp add: split_request_def CRLF_def)
  next
    case False
    then have "concat (map (\<lambda>h. header_line h @ CRLF) hs) @ CRLF @ body = header_block hs @ CRLF @ CRLF @ body"
      by (simp add: header_lines_block)
    with False start find_blank_line [OF False assms(2), of body] show ?thesis
      unfolding split_request_def by (simp add: CRLF_def)
  qed
qed

lemma fold_parse_header:
  "fold (\<lambda>line r. case parse_header line of (k, val) \<Rightarrow> SetHeaders k val r) ls r =
   fold (\<lambda>(k, val). SetHeaders k val) (map parse_header ls) r"
  by (induction ls arbitrary: r) (auto split: prod.splits)

lemma start_line_words:
  assumes "word_ok p"
  shows "ws_words (MethodToString m @ '' '' @ p @ '' '' @ VersionToString v) =
      [MethodToString m, p, VersionToString v]"
    and "CR \<notin> set (MethodToString m @ '' '' @ p @ '' '' @ VersionToString v)"
proof -
  show "ws_words (MethodToString m @ '' '' @ p @ '' '' @ VersionToString v) =
      [MethodToString m, p, VersionToString v]"
    using assms meth.print_word [of m] ver.print_word [of v] by (simp add: text_simps word_ok_def)
  have "isspace c \<Longrightarrow> c \<notin> set p \<and> c \<notin> set (MethodToString m) \<and> c \<notin> set (VersionToString v)" for c
    using assms meth.print_word [of m] ver.print_word [of v] by (auto simp: word_ok_def)
  then show "CR \<notin> set (MethodToString m @ '' '' @ p @ '' '' @ VersionToString v)"
    by simp
qed

lemma FromString_wire_request:
  assumes "word_ok p" and "v \<noteq> HTTP_2_0" and "list_all header_ok hs"
    and "hs = [] \<longrightarrow> find_str (CRLF @ CRLF) (CRLF @ body) = None"
  shows "FromString (wire_request m p v hs body) r0 =
     (None, SetContent (if hs = [] then [] else body) (fold (\<lambda>(k, val). SetHeaders k val) (map (apsnd squeeze) hs)
        (r0\<lparr>path := p, req_method := m, version := v\<rparr>)))"
proof -
  define start where "start = MethodToString m @ '' '' @ p @ '' '' @ VersionToString v"
  note words = start_line_words [OF assms(1), of m v, folded start_def]
  have "wire_request m p v hs body = start @ CRLF @ concat (map (\<lambda>h. header_line h @ CRLF) hs) @ CRLF @ body"
    by (simp add: wire_request_def start_def)
  with split_wire_request [OF words(2) assms(3,4)] have
    "split_request (wire_request m p v hs body) = Some (start, header_block hs, if hs = [] then [] else body)" by simp
  moreover from assms(2) have "\<not> (v \<noteq> HTTP_0_9 \<and> v \<noteq> HTTP_1_0 \<and> v \<noteq> HTTP_1_1)"
    by (cases v) auto
  ultimately show ?thesis
    unfolding FromString_def
    using parse_wire_lines [OF assms(3)] getlines_header_block [OF assms(3)]
    by (simp add: words(1) meth.parse_print ver.parse_print fold_parse_header Let_def)
qed

lemma fold_SetHeaders:
  "version (fold (\<lambda>(k, val). SetHeaders k val) hs r) = version r"
  "req_method (fold (\<lambda>(k, val). SetHeaders k val) hs r) = req_method r"
  "path (fold (\<lambda>(k, val). SetHeaders k val) hs r) = path r"
  "content (fold (\<lambda>(k, val). SetHeaders k val) hs r) = content r"
  for r :: http_request
  by (induction hs arbitrary: r) (auto simp: SetHeaders_def SetContentLength_def)

lemma fold_SetHeaders_lookup:
  "k \<noteq> ''Content-Length'' \<Longrightarrow>
   map_of (headers (fold (\<lambda>(k, val). SetHeaders k val) hs r)) k =
   (case map_of (rev hs) k of None \<Rightarrow> map_of (headers r) k | Some v \<Rightarrow> Some v)"
proof (induction hs arbitrary: r)
  case (Cons h hs)
  then show ?case
    by (cases h) (auto simp: SetHeaders_def SetContentLength_def map_add_def split: option.splits)
qed simp

section \<open>Content-Length\<close>

definition content_length_ok :: "'a http_message_scheme \<Rightarrow> bool" where
  "content_length_ok m \<longleftrightarrow>
     map_option dec_value (map_of (headers m) ''Content-Length'') = Some (length (content m))"

lemma SetContentLength_ok:
  "content_length_ok (SetContentLength m)" "content (SetContentLength m) = content m"
  by (simp_all add: content_length_ok_def SetContentLength_def)

lemma Set_ok: "content_length_ok (SetContent c m)" "content_length_ok (SetHeaders k v m)"
    "content (SetContent c m) = c" "content (SetHeaders k v m) = content m"
  by (simp_all add: SetContent_def SetHeaders_def SetContentLength_ok)

lemma RemoveHeader_ok:
  "content_length_ok m \<Longrightarrow> k \<noteq> ''Content-Length'' \<Longrightarrow> content_length_ok (RemoveHeader k m)"
  by (simp add: content_length_ok_def RemoveHeader_def)

lemma headers_ordered:
  "ordered_map (headers m) \<Longrightarrow> ordered_map (headers (SetContentLength m))"
  "ordered_map (headers m) \<Longrightarrow> ordered_map (headers (SetContent c m))"
  "ordered_map (headers m) \<Longrightarrow> ordered_map (headers (SetHeaders k v m))"
  "ordered_map (headers m) \<Longrightarrow> ordered_map (headers (RemoveHeader k m))"
  by (simp_all add: SetContent_def SetHeaders_def SetContentLength_def RemoveHeader_def
      ordered_map_put ordered_map_erase)

text \<open>
  The messages a program builds with the public operations that change headers or content, each with
  whether Content-Length was removed after the last operation that sets it.
\<close>

datatype message_op = SetContentOp string | SetHeadersOp string string | RemoveHeaderOp string

fun message_step :: "message_op \<Rightarrow> 'a http_message_scheme \<Rightarrow> 'a http_message_scheme" where
  "message_step (SetContentOp c) m = SetContent c m"
| "message_step (SetHeadersOp k v) m = SetHeaders k v m"
| "message_step (RemoveHeaderOp k) m = RemoveHeader k m"

fun announces :: "message_op \<Rightarrow> bool \<Rightarrow> bool" where
  "announces (SetContentOp c) b = True"
| "announces (SetHeadersOp k v) b = True"
| "announces (RemoveHeaderOp k) b = (b \<and> k \<noteq> ''Content-Length'')"

definition length_header_ok :: "bool \<Rightarrow> 'a http_message_scheme \<Rightarrow> bool" where
  "length_header_ok b m \<longleftrightarrow> ordered_map (headers m) \<and>
     map_of (headers m) ''Content-Length'' = (if b then Some (dec_string (length (content m))) else None)"

lemma message_step_ok: "length_header_ok b m \<Longrightarrow> length_header_ok (announces op b) (message_step op m)"
  by (cases op) (auto simp: length_header_ok_def headers_ordered, simp_all add: SetContent_def SetHeaders_def SetContentLength_def RemoveHeader_def)

lemma message_run_ok: "length_header_ok b m \<Longrightarrow> length_header_ok (fold announces ops b) (fold message_step ops m)"
  by (induction ops arbitrary: b m) (simp_all add: message_step_ok)

lemma FromString_cases:
  "FromString request r0 = (err, r) \<Longrightarrow>
   case err of
     Some e \<Rightarrow> headers r = headers r0 \<and> content r = content r0
   | None \<Rightarrow> version r \<noteq> HTTP_2_0 \<and> content_length_ok r"
  unfolding FromString_def
  by (auto simp: Let_def Set_ok fold_parse_header fold_SetHeaders split: option.splits sum.splits if_splits;
      simp add: SetContent_def SetContentLength_def fold_SetHeaders)

section \<open>Properties of the messages\<close>

text \<open>
  C8: a request in the form of the protocol (a method, a path without white space, a version up to 1.1, any
  number of header lines \<open>key: value\<close> whose key has no white space and no colon, the empty line, the body)
  is parsed without an exception into that method, path and version. Every header other than
  Content-Length has the last value written for its key, with all its white space removed, or the one the
  request object had before. With header lines the content is the body; without any, an ordinary body
  (one that does not itself have an empty line) is lost. Content-Length is the length of the content.
\<close>

theorem FromString_reads_wire_request:
  assumes "word_ok p" and "v \<noteq> HTTP_2_0" and "list_all header_ok hs"
    and "hs = [] \<longrightarrow> find_str (CRLF @ CRLF) (CRLF @ body) = None"
  shows "\<exists>r. FromString (wire_request m p v hs body) r0 = (None, r) \<and>
     req_method r = m \<and> path r = p \<and> version r = v \<and> content r = (if hs = [] then [] else body) \<and>
     dec_value (GetHeader ''Content-Length'' r) = length (content r) \<and>
     (\<forall>k. k \<noteq> ''Content-Length'' \<longrightarrow>
        GetHeader k r = (case map_of (rev hs) k of None \<Rightarrow> GetHeader k r0 | Some val \<Rightarrow> filter (\<lambda>c. \<not> isspace c) val))"
proof -
  have look: "map_of (rev (map (apsnd squeeze) hs)) k = map_option squeeze (map_of (rev hs) k)" for k
    using map_of_map [of squeeze "rev hs"] by (simp add: rev_map apsnd_def map_prod_def case_prod_unfold)
  show ?thesis
    unfolding FromString_wire_request [OF assms]
    by (auto simp: SetContent_def SetContentLength_def fold_SetHeaders fold_SetHeaders_lookup GetHeader_def look squeeze_def
        simp del: rev_map split: option.splits)
qed

text \<open>Witness of the parser property: a request with two headers, one with blanks in its value, and a body.\<close>

theorem FromString_reads_wire_request_witness:
  "\<exists>r. FromString (wire_request POST ''/login'' HTTP_1_1 [(''Host'', ''a.b:80''), (''Accept'', ''text/html, text/plain'')] ''x=1'') HttpRequest = (None, r) \<and>
     req_method r = POST \<and> path r = ''/login'' \<and> GetHeader ''Host'' r = ''a.b:80'' \<and> GetHeader ''Accept'' r = ''text/html,text/plain'' \<and> content r = ''x=1''"
  using FromString_reads_wire_request
    [of "''/login''" HTTP_1_1 "[(''Host'', ''a.b:80''), (''Accept'', ''text/html, text/plain'')]" "''x=1''" POST HttpRequest]
  by (simp add: word_ok_def header_ok_def isspace_def CR_def LF_def) (elim exE conjE, intro exI conjI, assumption, auto simp: isspace_def)

text \<open>
  C28: A message is built from a fresh request or response by any sequence of setting the content, setting
  headers and removing headers. It has exactly one entry for each header, in order, and Content-Length
  tells the truth: when the message has the header, its value is the decimal length of the content, and it
  has it exactly when the content or some header was set and Content-Length not removed since.
\<close>

theorem Content_Length_kept:
  assumes "headers m0 = []" and "m = fold message_step ops m0"
  shows "ordered_map (headers m) \<and>
    map_of (headers m) ''Content-Length'' =
      (if fold announces ops False then Some (dec_string (length (content m))) else None)"
proof -
  have "length_header_ok False m0" by (simp add: length_header_ok_def assms(1) ordered_map_def)
  from message_run_ok [OF this, of ops] show ?thesis by (simp add: length_header_ok_def assms(2))
qed

theorem Content_Length_kept_witness:
  "map_of (headers (fold message_step [SetContentOp ''hello'', RemoveHeaderOp ''Content-Length'', SetHeadersOp ''Server'' ''s''] (HttpResponse Ok)))
     ''Content-Length'' = Some ''5'' \<and>
   map_of (headers (fold message_step [SetContentOp ''hello'', RemoveHeaderOp ''Content-Length''] (HttpResponse Ok))) ''Content-Length'' = None"
proof -
  have "content (fold message_step [SetContentOp ''hello'', RemoveHeaderOp ''Content-Length'', SetHeadersOp ''Server'' ''s''] (HttpResponse Ok)) = ''hello''"
    by (simp add: SetContent_def SetContentLength_def RemoveHeader_def SetHeaders_def)
  moreover have "dec_string (length ''hello'') = ''5''" by (simp add: dec_string.simps) (simp add: char_of_def bit_0)
  ultimately show ?thesis
    using Content_Length_kept [of "HttpResponse Ok" _ "[SetContentOp ''hello'', RemoveHeaderOp ''Content-Length'', SetHeadersOp ''Server'' ''s'']", OF _ refl]
      Content_Length_kept [of "HttpResponse Ok" _ "[SetContentOp ''hello'', RemoveHeaderOp ''Content-Length'']", OF _ refl]
    by (simp add: HttpResponse_def)
qed

text \<open>
  C29: whatever text is given, the parser either throws and leaves headers and content of the
  request as they were, or succeeds with a version below 2.0 and a Content-Length that is the
  length of the content.
\<close>

theorem FromString_outcome:
  "case FromString request r0 of
     (Some e, r) \<Rightarrow> headers r = headers r0 \<and> content r = content r0
   | (None, r) \<Rightarrow> version r \<noteq> HTTP_2_0 \<and> dec_value (GetHeader ''Content-Length'' r) = length (content r)"
  using FromString_cases [of request r0]
  by (auto simp: content_length_ok_def GetHeader_def split: prod.splits option.splits)

text \<open>
  The printed response with its content is a head that ends with the only empty line the
  headers leave, followed by the content and two more bytes: the bytes after the head exceed the
  Content-Length the head announces by 2.
\<close>

theorem ResponseToString_body_overrun:
  assumes "r = fold message_step ops (HttpResponse code)" and "fold announces ops False"
  shows "ResponseToString True r = ResponseToString False r @ content r @ CRLF \<and>
     length (ResponseToString True r) - length (ResponseToString False r) =
     dec_value (GetHeader ''Content-Length'' r) + 2"
proof -
  have "length_header_ok False (HttpResponse code)" by (simp add: length_header_ok_def HttpResponse_def ordered_map_def)
  from message_run_ok [OF this, of ops] assms show ?thesis
    by (auto simp: length_header_ok_def GetHeader_def ResponseToString_def CRLF_def)
qed

theorem ResponseToString_body_overrun_witness:
  "length (ResponseToString True (SetContent ''hello'' (HttpResponse Ok))) -
   length (ResponseToString False (SetContent ''hello'' (HttpResponse Ok))) = 7"
proof -
  have "dec_value (GetHeader ''Content-Length'' (SetContent ''hello'' (HttpResponse Ok))) = 5"
    by (simp add: SetContent_def SetContentLength_def GetHeader_def)
  with ResponseToString_body_overrun [of "SetContent ''hello'' (HttpResponse Ok)" "[SetContentOp ''hello'']" Ok]
  show ?thesis by (simp add: Set_ok CRLF_def)
qed

text \<open>
  A printed request does not parse back: the printer writes a header as key, blank, value,
  and the parser, which finds no colon, stores the squeezed line under the squeezed line.
\<close>

theorem RequestToString_loses_headers:
  "case FromString (RequestToString (SetHeaders ''Host'' ''localhost'' (HttpRequest\<lparr>path := ''/''\<rparr>))) HttpRequest of
     (err, r) \<Rightarrow> err = None \<and> GetHeader ''Host'' r = [] \<and> GetHeader ''Hostlocalhost'' r = ''Hostlocalhost''"
  by code_simp

end
