(* ===== verification/Http_Server.thy ===== *)
theory Http_Server
  imports Http_Message Epoll
begin

text \<open>
  The HTTP server of \<^verbatim>\<open>src/src/http_server.cc\<close>: the handler table, the answer to a request, the
  state machine of a connection in its two variants, the event loop of a worker and the
  distribution of clients over the workers. The objects behind the \<^verbatim>\<open>EventData\<close> pointers live in a
  heap; address 0 is \<^verbatim>\<open>nullptr\<close>. The system calls are outside: what \<^verbatim>\<open>recv\<close>, \<^verbatim>\<open>send\<close> and
  \<^verbatim>\<open>accept4\<close> return are arguments, the parameter \<open>ctl\<close> says whether a call of \<^verbatim>\<open>epoll_ctl\<close> succeeds
  after the earlier ones, and a state records the calls, the closed descriptors and the bytes
  the kernel took for each descriptor. Handlers are functions that may throw.
\<close>

section \<open>State\<close>

definition kMaxBufferSize :: nat where "kMaxBufferSize = 4096"

definition kThreadPoolSize :: nat where "kThreadPoolSize = 5"

record event_data =
  ed_fd :: int
  ed_length :: nat
  ed_cursor :: nat
  ed_buf :: string
  keep_alive :: bool

definition EventData :: event_data where
  "EventData = \<lparr>ed_fd = -1, ed_length = 0, ed_cursor = 0, ed_buf = replicate kMaxBufferSize (CHR 0x00),
     keep_alive = True\<rparr>"

record worker =
  heap :: "addr \<rightharpoonup> event_data"
  fresh :: addr
  ctls :: "ctl_call list"
  closed :: "int list"
  sent :: "(int \<times> string) list"

definition new_worker :: worker where
  "new_worker = \<lparr>heap = Map.empty, fresh = 1, ctls = [], closed = [], sent = []\<rparr>"

text \<open>
  \<open>EpollCtlFailed\<close> is the exception of \<^verbatim>\<open>ControlEpollEvent\<close>, which no caller catches; the others are
  undefined behaviour: a copy past the end of \<^verbatim>\<open>buf_\<close>, a freed object, a null pointer.
\<close>

datatype server_error = EpollCtlFailed | BufferOverflow | UseAfterFree | NullDeref

datatype recv_result = Received string | RecvError int

datatype send_result = Sent nat | SendError int

definition EPOLLERR :: u32 where "EPOLLERR = 8"
definition EPOLLHUP :: u32 where "EPOLLHUP = 16"

type_synonym handler = "http_request \<Rightarrow> http_exn + http_response"

type_synonym handlers = "string \<rightharpoonup> (HttpMethod \<rightharpoonup> handler)"

type_synonym kernel = "ctl_call list \<Rightarrow> ctl_call \<Rightarrow> bool"

section \<open>Handlers\<close>

text \<open>\<^verbatim>\<open>std::map::insert\<close> leaves an entry that is there already.\<close>

definition RegisterHttpRequestHandler :: "string \<Rightarrow> HttpMethod \<Rightarrow> handler \<Rightarrow> handlers \<Rightarrow> handlers" where
  "RegisterHttpRequestHandler p m h hs =
     (let row = (case hs p of None \<Rightarrow> Map.empty | Some r \<Rightarrow> r)
      in hs(p \<mapsto> (case row m of None \<Rightarrow> row(m \<mapsto> h) | Some _ \<Rightarrow> row)))"

definition route_path :: "string \<Rightarrow> string" where
  "route_path p = (case find_str ''?'' p of None \<Rightarrow> p | Some pos \<Rightarrow> take pos p)"

definition HandleRequestMessage :: "handlers \<Rightarrow> http_request \<Rightarrow> http_exn + http_response" where
  "HandleRequestMessage hs request =
     (case hs (route_path (path request)) of
        None \<Rightarrow> Inr (HttpResponse NotFound)
      | Some row \<Rightarrow>
          (case row (req_method request) of
             None \<Rightarrow> Inr (HttpResponse MethodNotAllowed)
           | Some callback \<Rightarrow> callback request))"

text \<open>The three \<^verbatim>\<open>catch\<close> clauses.\<close>

fun error_response :: "http_exn \<Rightarrow> http_response" where
  "error_response (InvalidArgument msg) = SetContent msg ((HttpResponse Ok)\<lparr>status_code := BadRequest\<rparr>)"
| "error_response (LogicError msg) = SetContent msg ((HttpResponse Ok)\<lparr>status_code := HttpVersionNotSupported\<rparr>)"
| "error_response (OtherException msg) = SetContent msg ((HttpResponse Ok)\<lparr>status_code := InternalServerError\<rparr>)"

definition respond :: "handlers \<Rightarrow> string \<Rightarrow> http_request \<times> http_response" where
  "respond hs request_str =
     (case FromString request_str HttpRequest of
        (Some e, req) \<Rightarrow> (req, error_response e)
      | (None, req) \<Rightarrow>
          (case HandleRequestMessage hs req of
             Inl e \<Rightarrow> (req, error_response e)
           | Inr res \<Rightarrow> (req, res)))"

definition HandleRequestData :: "handlers \<Rightarrow> event_data \<Rightarrow> event_data \<Rightarrow> server_error + event_data" where
  "HandleRequestData hs request response =
     (let (req, res) = respond hs (take (ed_length request) (ed_buf request));
          response_str = ResponseToString (req_method req \<noteq> HEAD) res
      in if kMaxBufferSize < length response_str then Inl BufferOverflow
         else Inr (response\<lparr>ed_buf := memcpy_at 0 response_str (ed_buf response),
                ed_length := length response_str,
                keep_alive := (GetHeader ''Connection'' req = ''keep-alive'')\<rparr>))"

section \<open>Objects and epoll\<close>

definition deref :: "addr \<Rightarrow> worker \<Rightarrow> server_error + event_data" where
  "deref p w = (if p = 0 then Inl NullDeref else case heap w p of None \<Rightarrow> Inl UseAfterFree | Some d \<Rightarrow> Inr d)"

definition alloc :: "event_data \<Rightarrow> worker \<Rightarrow> addr \<times> worker" where
  "alloc d w = (fresh w, w\<lparr>heap := (heap w)(fresh w \<mapsto> d), fresh := fresh w + 1\<rparr>)"

definition store :: "addr \<Rightarrow> event_data \<Rightarrow> worker \<Rightarrow> worker" where
  "store p d w = w\<lparr>heap := (heap w)(p \<mapsto> d)\<rparr>"

definition free :: "addr \<Rightarrow> worker \<Rightarrow> worker" where
  "free p w = w\<lparr>heap := (heap w)(p := None)\<rparr>"

definition close_fd :: "int \<Rightarrow> worker \<Rightarrow> worker" where
  "close_fd fd w = w\<lparr>closed := closed w @ [fd]\<rparr>"

text \<open>The arguments of \<^verbatim>\<open>epoll_ctl\<close>: removing passes no event.\<close>

definition ctl_arg :: "ctl_op \<Rightarrow> int \<Rightarrow> u32 \<Rightarrow> addr \<Rightarrow> ctl_call" where
  "ctl_arg op fd events p =
     (if op = CtlDel then \<lparr>ctl_op = CtlDel, ctl_fd = fd, ctl_events = 0, ctl_data = DataPtr 0\<rparr>
      else \<lparr>ctl_op = op, ctl_fd = fd, ctl_events = events, ctl_data = DataPtr p\<rparr>)"

definition ControlEpollEvent ::
  "kernel \<Rightarrow> ctl_op \<Rightarrow> int \<Rightarrow> u32 \<Rightarrow> addr \<Rightarrow> worker \<Rightarrow> server_error + worker" where
  "ControlEpollEvent ctl op fd events p w =
     (let c = ctl_arg op fd events p
      in if ctl (ctls w) c then Inr (w\<lparr>ctls := ctls w @ [c]\<rparr>) else Inl EpollCtlFailed)"

text \<open>Leaving a connection: remove the descriptor, close it, delete the object.\<close>

definition drop_client :: "kernel \<Rightarrow> int \<Rightarrow> addr \<Rightarrow> worker \<Rightarrow> server_error + worker" where
  "drop_client ctl fd p w =
     res_bind (ControlEpollEvent ctl CtlDel fd 0 0 w) (\<lambda>w1. Inr (free p (close_fd fd w1)))"

section \<open>A connection without coroutines\<close>

definition on_readable :: "kernel \<Rightarrow> handlers \<Rightarrow> recv_result \<Rightarrow> addr \<Rightarrow> worker \<Rightarrow> server_error + worker" where
  "on_readable ctl hs rcv p w =
     res_bind (deref p w) (\<lambda>request.
       let client_fd = ed_fd request in
       case rcv of
         Received bytes \<Rightarrow>
           if 0 < length bytes then
             (let request' = request\<lparr>ed_buf := memcpy_at 0 bytes (ed_buf request), ed_length := length bytes\<rparr> in
              res_bind (HandleRequestData hs request' (EventData\<lparr>ed_fd := client_fd\<rparr>)) (\<lambda>response.
                case alloc response (store p request' w) of
                  (q, w1) \<Rightarrow> ControlEpollEvent ctl CtlMod client_fd (EPOLLOUT OR EPOLLET) q w1))
           else drop_client ctl client_fd p w
       | RecvError errno \<Rightarrow>
           if errno = EAGAIN then ControlEpollEvent ctl CtlMod client_fd (EPOLLIN OR EPOLLET) p w
           else drop_client ctl client_fd p w)"

definition on_writable :: "kernel \<Rightarrow> send_result \<Rightarrow> addr \<Rightarrow> worker \<Rightarrow> server_error + worker" where
  "on_writable ctl snt p w =
     res_bind (deref p w) (\<lambda>response.
       let client_fd = ed_fd response in
       case snt of
         Sent bytes \<Rightarrow>
           if 0 < bytes then
             (let w1 = store p (response\<lparr>ed_cursor := ed_cursor response + bytes,
                                 ed_length := ed_length response - bytes\<rparr>) w;
                  w2 = w1\<lparr>sent := sent w1 @ [(client_fd, take bytes (drop (ed_cursor response) (ed_buf response)))]\<rparr>
              in ControlEpollEvent ctl CtlMod client_fd (EPOLLOUT OR EPOLLET) p w2)
           else if keep_alive response then
             (case alloc (EventData\<lparr>ed_fd := client_fd\<rparr>) (free p w) of
                (q, w1) \<Rightarrow> ControlEpollEvent ctl CtlMod client_fd (EPOLLIN OR EPOLLET) q w1)
           else res_bind (ControlEpollEvent ctl CtlDel client_fd 0 0 (free p w)) (\<lambda>w1. Inr (close_fd client_fd w1))
       | SendError errno \<Rightarrow>
           if errno = EAGAIN then ControlEpollEvent ctl CtlMod client_fd (EPOLLOUT OR EPOLLET) p w
           else drop_client ctl client_fd p w)"

definition HandleEpollEvent ::
  "kernel \<Rightarrow> handlers \<Rightarrow> recv_result \<Rightarrow> send_result \<Rightarrow> u32 \<Rightarrow> addr \<Rightarrow> worker \<Rightarrow> server_error + worker" where
  "HandleEpollEvent ctl hs rcv snt event p w =
     (if event AND EPOLLIN \<noteq> 0 then on_readable ctl hs rcv p w else on_writable ctl snt p w)"

text \<open>One reported event of \<^verbatim>\<open>EventLoop\<close>, and a batch of them with what the system calls return.\<close>

definition loop_event ::
  "kernel \<Rightarrow> handlers \<Rightarrow> u32 \<times> addr \<times> recv_result \<times> send_result \<Rightarrow> worker \<Rightarrow> server_error + worker" where
  "loop_event ctl hs ev w =
     (case ev of (events, p, rcv, snt) \<Rightarrow>
        if events AND EPOLLHUP \<noteq> 0 \<or> events AND EPOLLERR \<noteq> 0
        then res_bind (deref p w) (\<lambda>d. drop_client ctl (ed_fd d) p w)
        else if events AND EPOLLIN \<noteq> 0 \<or> events AND EPOLLOUT \<noteq> 0
        then HandleEpollEvent ctl hs rcv snt events p w
        else res_bind (deref p w) (\<lambda>d. drop_client ctl (ed_fd d) p w))"

fun EventLoop ::
  "kernel \<Rightarrow> handlers \<Rightarrow> (u32 \<times> addr \<times> recv_result \<times> send_result) list \<Rightarrow> worker \<Rightarrow> server_error + worker" where
  "EventLoop ctl hs [] w = Inr w"
| "EventLoop ctl hs (ev # evs) w = res_bind (loop_event ctl hs ev w) (EventLoop ctl hs evs)"

section \<open>A connection with coroutines\<close>

text \<open>
  One round of the loop in \<^verbatim>\<open>HandleReadEvent\<close> and \<^verbatim>\<open>HandleWriteEvent\<close>, up to the next yield: the
  pointer the coroutine holds, and the state. The round that starts with a null pointer
  is the one after the yield for it, and uses the pointer.
\<close>

definition HandleReadEvent ::
  "kernel \<Rightarrow> handlers \<Rightarrow> recv_result \<Rightarrow> int \<Rightarrow> addr \<Rightarrow> worker \<Rightarrow> server_error + addr \<times> worker" where
  "HandleReadEvent ctl hs rcv client_fd p w =
     res_bind (deref p w) (\<lambda>request.
       case rcv of
         Received bytes \<Rightarrow>
           if 0 < length bytes then
             (let request' = request\<lparr>ed_buf := memcpy_at 0 bytes (ed_buf request), ed_length := length bytes\<rparr> in
              res_bind (HandleRequestData hs request' (EventData\<lparr>ed_fd := client_fd\<rparr>)) (\<lambda>response.
                case alloc response (store p request' w) of
                  (q, w1) \<Rightarrow>
                    res_bind (ControlEpollEvent ctl CtlMod client_fd (EPOLLOUT OR EPOLLET) q w1) (\<lambda>w2. Inr (p, w2))))
           else res_bind (drop_client ctl client_fd p w) (\<lambda>w1. Inr (0, w1))
       | RecvError errno \<Rightarrow>
           if errno = EAGAIN then Inr (p, w)
           else res_bind (drop_client ctl client_fd p w) (\<lambda>w1. Inr (0, w1)))"

definition HandleWriteEvent ::
  "kernel \<Rightarrow> send_result \<Rightarrow> int \<Rightarrow> addr \<Rightarrow> worker \<Rightarrow> server_error + addr \<times> worker" where
  "HandleWriteEvent ctl snt client_fd p w =
     res_bind (deref p w) (\<lambda>response.
       case snt of
         Sent bytes \<Rightarrow>
           if 0 < bytes then
             (let w1 = store p (response\<lparr>ed_cursor := ed_cursor response + bytes,
                                 ed_length := ed_length response - bytes\<rparr>) w
              in Inr (p, w1\<lparr>sent := sent w1 @ [(client_fd, take bytes (drop (ed_cursor response) (ed_buf response)))]\<rparr>))
           else if keep_alive response then
             (case alloc (EventData\<lparr>ed_fd := client_fd\<rparr>) (free p w) of
                (q, w1) \<Rightarrow>
                  res_bind (ControlEpollEvent ctl CtlMod client_fd (EPOLLIN OR EPOLLET) q w1) (\<lambda>w2. Inr (0, w2)))
           else res_bind (ControlEpollEvent ctl CtlDel client_fd 0 0 (free p w)) (\<lambda>w1. Inr (0, close_fd client_fd w1))
       | SendError errno \<Rightarrow>
           if errno = EAGAIN then Inr (p, w)
           else res_bind (drop_client ctl client_fd p w) (\<lambda>w1. Inr (0, w1)))"

text \<open>
  One event of \<^verbatim>\<open>EventLoopWithCo\<close>. Every event gets a coroutine of its own, which runs to its first
  yield and is never resumed.
\<close>

definition loop_event_co ::
  "kernel \<Rightarrow> handlers \<Rightarrow> u32 \<times> addr \<times> recv_result \<times> send_result \<Rightarrow> worker \<Rightarrow> server_error + worker" where
  "loop_event_co ctl hs ev w =
     (case ev of (events, p, rcv, snt) \<Rightarrow>
        res_bind (deref p w) (\<lambda>d.
          if events AND EPOLLHUP \<noteq> 0 \<or> events AND EPOLLERR \<noteq> 0 then drop_client ctl (ed_fd d) p w
          else if events AND EPOLLIN \<noteq> 0
          then res_bind (HandleReadEvent ctl hs rcv (ed_fd d) p w) (\<lambda>(q, w1). Inr w1)
          else if events AND EPOLLOUT \<noteq> 0
          then res_bind (HandleWriteEvent ctl snt (ed_fd d) p w) (\<lambda>(q, w1). Inr w1)
          else drop_client ctl (ed_fd d) p w))"

fun EventLoopWithCo ::
  "kernel \<Rightarrow> handlers \<Rightarrow> (u32 \<times> addr \<times> recv_result \<times> send_result) list \<Rightarrow> worker \<Rightarrow> server_error + worker" where
  "EventLoopWithCo ctl hs [] w = Inr w"
| "EventLoopWithCo ctl hs (ev # evs) w = res_bind (loop_event_co ctl hs ev w) (EventLoopWithCo ctl hs evs)"

section \<open>Clients\<close>

text \<open>
  One round of \<^verbatim>\<open>ListenClient\<close> with the result of \<^verbatim>\<open>accept4\<close>: the workers, the index of the worker
  that gets the next client, and whether the last round had a client.
\<close>

record listener =
  workers :: "worker list"
  worker_idx :: nat
  active :: bool

definition HttpServer :: listener where
  "HttpServer = \<lparr>workers = replicate kThreadPoolSize new_worker, worker_idx = 0, active = True\<rparr>"

definition ListenClient :: "kernel \<Rightarrow> int \<Rightarrow> listener \<Rightarrow> server_error + listener" where
  "ListenClient ctl client_fd l =
     (if client_fd < 0 then Inr (l\<lparr>active := False\<rparr>)
      else case alloc (EventData\<lparr>ed_fd := client_fd\<rparr>) (workers l ! worker_idx l) of
             (p, w1) \<Rightarrow>
               res_bind (ControlEpollEvent ctl CtlAdd client_fd (EPOLLIN OR EPOLLET) p w1) (\<lambda>w2.
                 Inr (l\<lparr>active := True, workers := (workers l)[worker_idx l := w2],
                        worker_idx := (worker_idx l + 1) mod kThreadPoolSize\<rparr>)))"

section \<open>The loops of the threads\<close>

text \<open>
  The loops around these rounds, while \<^verbatim>\<open>running_\<close> is set: a thread without work sleeps before its next round.
  The state is that of the rounds with whether the last one had work and how often the thread has
  slept. A round of a worker is what \<^verbatim>\<open>epoll_wait\<close> reports, nothing for a timeout or an error; a round of
  the listener is the result of \<^verbatim>\<open>accept4\<close>, and it prints each client.
\<close>

type_synonym event_batch = "(u32 \<times> addr \<times> recv_result \<times> send_result) list"

fun WorkerLoop ::
  "kernel \<Rightarrow> handlers \<Rightarrow> event_batch list \<Rightarrow> worker \<times> bool \<times> nat \<Rightarrow> server_error + worker \<times> bool \<times> nat" where
  "WorkerLoop ctl hs [] s = Inr s"
| "WorkerLoop ctl hs (batch # batches) (w, act, naps) =
     (let naps' = (if \<not> act then naps + 1 else naps) in
      if batch = [] then WorkerLoop ctl hs batches (w, False, naps')
      else res_bind (EventLoop ctl hs batch w) (\<lambda>w1. WorkerLoop ctl hs batches (w1, True, naps')))"

fun WorkerLoopWithCo :: "kernel \<Rightarrow> handlers \<Rightarrow> event_batch list \<Rightarrow> worker \<Rightarrow> server_error + worker" where
  "WorkerLoopWithCo ctl hs [] w = Inr w"
| "WorkerLoopWithCo ctl hs (batch # batches) w =
     (if batch = [] then WorkerLoopWithCo ctl hs batches w
      else res_bind (EventLoopWithCo ctl hs batch w) (WorkerLoopWithCo ctl hs batches))"

fun ListenLoop :: "kernel \<Rightarrow> int list \<Rightarrow> listener \<times> nat \<times> string \<Rightarrow> server_error + listener \<times> nat \<times> string" where
  "ListenLoop ctl [] s = Inr s"
| "ListenLoop ctl (client_fd # fds) (l, naps, out) =
     (let naps' = (if \<not> active l then naps + 1 else naps);
          out' = (if client_fd < 0 then out else out @ ''client connect, fd is '' @ dec_string (nat client_fd) @ [LF])
      in res_bind (ListenClient ctl client_fd l) (\<lambda>l1. ListenLoop ctl fds (l1, naps', out')))"

end
