(* ===== verification/Http_Server_Laws.thy ===== *)
theory Http_Server_Laws
  imports Http_Server Http_Laws
begin

text \<open>
  Laws of the HTTP server: the invariant of a worker (every registered descriptor has a live
  \<^verbatim>\<open>EventData\<close> of its own), that both event loops keep it, and what goes over the wire. The
  contract the two loops share is a locale, interpreted for each.
\<close>

named_theorems worker_simps "the effect of the helpers on a worker"

lemma helper_simps [worker_simps]:
  "heap (store p d w) = (heap w)(p \<mapsto> d)" "fresh (store p d w) = fresh w" "ctls (store p d w) = ctls w"
  "closed (store p d w) = closed w" "sent (store p d w) = sent w"
  "heap (free p w) = (heap w)(p := None)" "fresh (free p w) = fresh w" "ctls (free p w) = ctls w"
  "closed (free p w) = closed w" "sent (free p w) = sent w"
  "heap (close_fd fd w) = heap w" "fresh (close_fd fd w) = fresh w" "ctls (close_fd fd w) = ctls w"
  "closed (close_fd fd w) = closed w @ [fd]" "sent (close_fd fd w) = sent w"
  by (simp_all add: store_def free_def close_fd_def)

section \<open>The invariant of a worker\<close>

text \<open>
  What the manual of \<^verbatim>\<open>epoll_ctl\<close> promises: adding an absent descriptor and changing or removing a
  present one succeed.
\<close>

definition epoll_documented :: "kernel \<Rightarrow> bool" where
  "epoll_documented ctl \<longleftrightarrow> (\<forall>cs c. ctl_fits [c] (interest cs) \<longrightarrow> ctl cs c)"

abbreviation IN_ET :: u32 where "IN_ET \<equiv> EPOLLIN OR EPOLLET"
abbreviation OUT_ET :: u32 where "OUT_ET \<equiv> EPOLLOUT OR EPOLLET"

definition data_ok :: "int \<Rightarrow> u32 \<Rightarrow> event_data \<Rightarrow> bool" where
  "data_ok fd evs d \<longleftrightarrow> ed_fd d = fd \<and> length (ed_buf d) = kMaxBufferSize \<and>
     ed_cursor d + ed_length d \<le> kMaxBufferSize \<and> (evs = IN_ET \<and> ed_cursor d = 0 \<or> evs = OUT_ET)"

fun conn_ok :: "worker \<Rightarrow> int \<Rightarrow> u32 \<Rightarrow> ev_data \<Rightarrow> bool" where
  "conn_ok w fd evs (DataFd _) = False"
| "conn_ok w fd evs (DataPtr p) = (p \<noteq> 0 \<and> (\<exists>d. heap w p = Some d \<and> data_ok fd evs d))"

definition worker_inv :: "worker \<Rightarrow> bool" where
  "worker_inv w \<longleftrightarrow> ctl_fits (ctls w) Map.empty \<and> 0 < fresh w \<and> (\<forall>p\<ge>fresh w. heap w p = None) \<and>
     (\<forall>fd evs dat. interest (ctls w) fd = Some (evs, dat) \<longrightarrow> conn_ok w fd evs dat)"

text \<open>The outcome of handling an event of \<open>fd\<close>: other descriptors are not touched.\<close>

definition other_fds :: "int \<Rightarrow> worker \<Rightarrow> worker \<Rightarrow> bool" where
  "other_fds fd w w' \<longleftrightarrow> (\<forall>fd'. fd' \<noteq> fd \<longrightarrow> interest (ctls w') fd' = interest (ctls w) fd') \<and>
     (\<forall>p d. heap w p = Some d \<longrightarrow> ed_fd d \<noteq> fd \<longrightarrow> heap w' p = Some d)"

definition step_ok :: "int \<Rightarrow> worker \<Rightarrow> server_error + worker \<Rightarrow> bool" where
  "step_ok fd w r = (case r of Inl e \<Rightarrow> e = BufferOverflow | Inr w' \<Rightarrow> worker_inv w' \<and> other_fds fd w w')"

lemma step_ok_simps [simp]:
  "step_ok fd w (Inr w') \<longleftrightarrow> worker_inv w' \<and> other_fds fd w w'"
  "step_ok fd w (Inl e) \<longleftrightarrow> e = BufferOverflow"
  by (simp_all add: step_ok_def)

lemma worker_inv_new: "worker_inv new_worker"
  by (simp add: worker_inv_def new_worker_def interest_def)

lemma worker_inv_conn:
  assumes "worker_inv w" "interest (ctls w) fd = Some (evs, DataPtr p)"
  obtains d where "p \<noteq> 0" "heap w p = Some d" "data_ok fd evs d" "deref p w = Inr d" "ed_fd d = fd" "p < fresh w"
proof -
  from assms have "conn_ok w fd evs (DataPtr p)" and none: "\<forall>p\<ge>fresh w. heap w p = None"
    unfolding worker_inv_def by blast+
  then obtain d where d: "p \<noteq> 0" "heap w p = Some d" "data_ok fd evs d" by auto
  with none have "p < fresh w" by (metis not_less option.distinct(1))
  with d show thesis by (intro that [of d]) (simp_all add: deref_def data_ok_def)
qed

lemma conn_ok_cong:
  assumes "conn_ok w fd' evs dat" and "\<And>p d. heap w p = Some d \<Longrightarrow> ed_fd d = fd' \<Longrightarrow> heap w' p = Some d"
  shows "conn_ok w' fd' evs dat"
  using assms by (cases dat) (auto simp: data_ok_def)

lemma conn_ok_close_fd [worker_simps]: "conn_ok (close_fd fd w) fd' evs dat = conn_ok w fd' evs dat"
  by (cases dat) (auto simp: worker_simps)

text \<open>A change of one connection: the objects of other descriptors stay, this one fits.\<close>

lemma worker_inv_change:
  assumes inv: "worker_inv w"
    and log: "ctls w' = ctls w @ cs" "ctl_fits cs (interest (ctls w))" "\<forall>c\<in>set cs. ctl_fd c = fd"
    and heap: "\<And>p d. heap w p = Some d \<Longrightarrow> ed_fd d \<noteq> fd \<Longrightarrow> heap w' p = Some d"
    and fresh: "0 < fresh w'" "\<forall>p\<ge>fresh w'. heap w' p = None"
    and here: "case interest (ctls w') fd of None \<Rightarrow> True | Some (evs, dat) \<Rightarrow> conn_ok w' fd evs dat"
  shows "worker_inv w'" "other_fds fd w w'"
proof -
  have step: "fold ctl_step cs m fd' = m fd'" if "fd' \<noteq> fd" "\<forall>c\<in>set cs. ctl_fd c = fd" for cs m fd'
    using that by (induction cs arbitrary: m) (auto simp: ctl_step_def split: ctl_op.splits)
  have same: "interest (ctls w') fd' = interest (ctls w) fd'" if "fd' \<noteq> fd" for fd'
    using step [OF that log(3)] by (simp add: log(1) interest_def)
  then show "other_fds fd w w'"
    using heap by (simp add: other_fds_def)
  have "conn_ok w' fd' evs dat" if reg: "interest (ctls w') fd' = Some (evs, dat)" for fd' evs dat
  proof (cases "fd' = fd")
    case True
    with here reg show ?thesis by simp
  next
    case False
    with reg same have "interest (ctls w) fd' = Some (evs, dat)" by simp
    with inv have "conn_ok w fd' evs dat" unfolding worker_inv_def by blast
    with heap False show ?thesis using conn_ok_cong by metis
  qed
  moreover have "ctl_fits (ctls w') Map.empty"
    using inv log(2) by (simp add: log(1) ctl_fits_append worker_inv_def interest_def)
  ultimately show "worker_inv w'"
    using fresh by (auto simp: worker_inv_def)
qed

text \<open>The call of \<^verbatim>\<open>epoll_ctl\<close> on a registered descriptor, after a change of its objects.\<close>

lemma ctl_arg_simps [simp]: "ctl_fd (ctl_arg op fd evs p) = fd" "ctl_op (ctl_arg op fd evs p) = op"
  by (simp_all add: ctl_arg_def)

lemma ctl_step_arg [simp]:
  "ctl_step (ctl_arg op fd evs p) m fd = (if op = CtlDel then None else Some (evs, DataPtr p))"
  by (cases op) (simp_all add: ctl_step_def ctl_arg_def)

lemma Control_registered:
  assumes "epoll_documented ctl" "interest (ctls w) fd \<noteq> None" "op \<noteq> CtlAdd"
  shows "ControlEpollEvent ctl op fd evs p w = Inr (w\<lparr>ctls := ctls w @ [ctl_arg op fd evs p]\<rparr>)"
    "ctl_fits [ctl_arg op fd evs p] (interest (ctls w))"
proof -
  show "ctl_fits [ctl_arg op fd evs p] (interest (ctls w))" using assms(2,3) by simp
  with assms(1) have "ctl (ctls w) (ctl_arg op fd evs p)" unfolding epoll_documented_def by blast
  then show "ControlEpollEvent ctl op fd evs p w = Inr (w\<lparr>ctls := ctls w @ [ctl_arg op fd evs p]\<rparr>)"
    by (simp add: ControlEpollEvent_def)
qed

lemma Control_ok:
  assumes ker: "epoll_documented ctl" and inv: "worker_inv w" and reg: "interest (ctls w) fd \<noteq> None"
    and op: "op \<noteq> CtlAdd" and log: "ctls w' = ctls w"
    and heap: "\<And>p d. heap w p = Some d \<Longrightarrow> ed_fd d \<noteq> fd \<Longrightarrow> heap w' p = Some d"
    and fresh: "0 < fresh w'" "\<forall>p\<ge>fresh w'. heap w' p = None"
    and here: "op \<noteq> CtlDel \<Longrightarrow> conn_ok w' fd evs (DataPtr p)"
  obtains w'' where "ControlEpollEvent ctl op fd evs p w' = Inr w''" "worker_inv w''" "other_fds fd w w''"
    "interest (ctls w'') fd = (if op = CtlDel then None else Some (evs, DataPtr p))"
    "heap w'' = heap w'" "fresh w'' = fresh w'" "closed w'' = closed w'" "sent w'' = sent w'"
proof -
  let ?w = "w'\<lparr>ctls := ctls w @ [ctl_arg op fd evs p]\<rparr>"
  have call: "ControlEpollEvent ctl op fd evs p w' = Inr ?w" "ctl_fits [ctl_arg op fd evs p] (interest (ctls w))"
    using Control_registered [OF ker, of w' fd op evs p] reg op log by simp_all
  have told: "interest (ctls ?w) fd = (if op = CtlDel then None else Some (evs, DataPtr p))"
    by simp
  have conn: "op \<noteq> CtlDel \<Longrightarrow> conn_ok ?w fd evs (DataPtr p)"
    using here by simp
  have "worker_inv ?w" "other_fds fd w ?w"
    by (rule worker_inv_change [OF inv, where cs = "[ctl_arg op fd evs p]" and fd = fd];
        use call(2) heap fresh conn told in \<open>simp del: conn_ok.simps\<close>)+
  with call(1) told show thesis by (intro that [of ?w]) simp_all
qed

lemma drop_client_ok:
  assumes ker: "epoll_documented ctl" and inv: "worker_inv w" and reg: "interest (ctls w) fd \<noteq> None"
    and p: "heap w p = Some d" "ed_fd d = fd"
  shows "step_ok fd w (drop_client ctl fd p w)"
proof -
  from inv have fresh: "0 < fresh w" "\<forall>p\<ge>fresh w. heap w p = None" by (auto simp: worker_inv_def)
  note call = Control_registered [OF ker reg, of CtlDel 0 0]
  let ?w = "free p (close_fd fd (w\<lparr>ctls := ctls w @ [ctl_arg CtlDel fd 0 0]\<rparr>))"
  have "worker_inv ?w" "other_fds fd w ?w"
    by (rule worker_inv_change [OF inv, where cs = "[ctl_arg CtlDel fd 0 0]" and fd = fd];
        use call(2) fresh p in \<open>auto simp: worker_simps\<close>)+
  with call(1) show ?thesis by (simp add: drop_client_def)
qed

section \<open>Handling one event\<close>

lemma alloc_simps [worker_simps]:
  "(case alloc d w of (q, w1) \<Rightarrow> f q w1) = f (fresh w) (snd (alloc d w))"
  "heap (snd (alloc d w)) = (heap w)(fresh w \<mapsto> d)"
  "fresh (snd (alloc d w)) = Suc (fresh w)" "ctls (snd (alloc d w)) = ctls w"
  "closed (snd (alloc d w)) = closed w" "sent (snd (alloc d w)) = sent w"
  by (simp_all add: alloc_def)

lemma memcpy_prefix:
  "length bs \<le> length buf \<Longrightarrow> length (memcpy_at 0 bs buf) = length buf \<and> take (length bs) (memcpy_at 0 bs buf) = bs"
  by (simp add: memcpy_at_def)

lemma EventData_simps [simp]:
  "ed_fd EventData = -1" "ed_length EventData = 0" "ed_cursor EventData = 0"
  "length (ed_buf EventData) = kMaxBufferSize" "keep_alive EventData"
  by (simp_all add: EventData_def)

lemma HandleRequestData_Inr:
  assumes "HandleRequestData hs request (EventData\<lparr>ed_fd := fd\<rparr>) = Inr response"
  shows "data_ok fd OUT_ET response" "ed_cursor response = 0"
    "take (ed_length response) (ed_buf response) =
       (case respond hs (take (ed_length request) (ed_buf request)) of
          (req, res) \<Rightarrow> ResponseToString (req_method req \<noteq> HEAD) res)"
    "keep_alive response =
       (GetHeader ''Connection'' (fst (respond hs (take (ed_length request) (ed_buf request)))) = ''keep-alive'')"
proof -
  obtain req res where r: "respond hs (take (ed_length request) (ed_buf request)) = (req, res)"
    by (cases "respond hs (take (ed_length request) (ed_buf request))")
  define str where "str = ResponseToString (req_method req \<noteq> HEAD) res"
  have len: "length str \<le> kMaxBufferSize"
    and resp: "response = EventData\<lparr>ed_fd := fd, ed_buf := memcpy_at 0 str (ed_buf EventData), ed_length := length str,
      keep_alive := (GetHeader ''Connection'' req = ''keep-alive'')\<rparr>"
    using assms by (auto simp: HandleRequestData_def r Let_def str_def not_less split: if_splits)
  note copy = memcpy_prefix [of str "ed_buf EventData", simplified, OF len]
  show "data_ok fd OUT_ET response" using len copy by (simp add: data_ok_def resp)
  show "ed_cursor response = 0" by (simp add: resp)
  show "take (ed_length response) (ed_buf response) =
      (case respond hs (take (ed_length request) (ed_buf request)) of
         (req, res) \<Rightarrow> ResponseToString (req_method req \<noteq> HEAD) res)"
    using copy by (simp add: resp r str_def)
  show "keep_alive response =
      (GetHeader ''Connection'' (fst (respond hs (take (ed_length request) (ed_buf request)))) = ''keep-alive'')"
    by (simp add: resp r)
qed

lemma HandleRequestData_Inl: "HandleRequestData hs request response = Inl e \<Longrightarrow> e = BufferOverflow"
  by (auto simp: HandleRequestData_def Let_def split: prod.splits if_splits)

text \<open>Receiving a request: the response object is registered, the request object stays.\<close>

lemma receive_request:
  assumes ker: "epoll_documented ctl" and inv: "worker_inv w"
    and reg: "interest (ctls w) fd = Some (IN_ET, DataPtr p)" and d: "heap w p = Some d"
    and ok: "HandleRequestData hs (d\<lparr>ed_buf := memcpy_at 0 bytes (ed_buf d), ed_length := length bytes\<rparr>)
      (EventData\<lparr>ed_fd := fd\<rparr>) = Inr response"
  defines "w1 \<equiv> snd (alloc response (store p (d\<lparr>ed_buf := memcpy_at 0 bytes (ed_buf d), ed_length := length bytes\<rparr>) w))"
  obtains w' where "ControlEpollEvent ctl CtlMod fd OUT_ET (fresh w) w1 = Inr w'" "worker_inv w'" "other_fds fd w w'"
    "interest (ctls w') fd = Some (OUT_ET, DataPtr (fresh w))" "heap w' (fresh w) = Some response" "map_option ed_fd (heap w' p) = Some fd"
    "sent w' = sent w" "closed w' = closed w"
proof -
  from worker_inv_conn [OF inv reg] d have p: "p < fresh w" "ed_fd d = fd" by auto
  from inv have fresh: "0 < fresh w" "\<forall>p\<ge>fresh w. heap w p = None" by (auto simp: worker_inv_def)
  obtain w' where w': "ControlEpollEvent ctl CtlMod fd OUT_ET (fresh w) w1 = Inr w'" "worker_inv w'" "other_fds fd w w'"
    "interest (ctls w') fd = (if CtlMod = CtlDel then None else Some (OUT_ET, DataPtr (fresh w)))"
    "heap w' = heap w1" "fresh w' = fresh w1" "closed w' = closed w1" "sent w' = sent w1"
  proof (rule Control_ok [OF ker inv, of fd CtlMod w1 OUT_ET "fresh w"])
    show "heap w1 q = Some e" if "heap w q = Some e" "ed_fd e \<noteq> fd" for q e
      using that p d fresh(2) by (auto simp: w1_def worker_simps)
    show "conn_ok w1 fd OUT_ET (DataPtr (fresh w))"
      using HandleRequestData_Inr(1) [OF ok] fresh(1) by (auto simp: w1_def worker_simps)
  qed (use reg fresh p in \<open>auto simp: w1_def worker_simps\<close>)
  show thesis
    using w' p by (intro that [of w']) (auto simp: w1_def worker_simps)
qed

lemma on_readable_ok:
  assumes ker: "epoll_documented ctl" and inv: "worker_inv w"
    and reg: "interest (ctls w) fd = Some (IN_ET, DataPtr p)"
  shows "step_ok fd w (on_readable ctl hs rcv p w)"
proof -
  from worker_inv_conn [OF inv reg] obtain d where
    d: "p \<noteq> 0" "heap w p = Some d" "data_ok fd IN_ET d" "deref p w = Inr d" "ed_fd d = fd" "p < fresh w" .
  have reg': "interest (ctls w) fd \<noteq> None" using reg by simp
  note drop = drop_client_ok [OF ker inv reg' d(2,5)]
  show ?thesis
  proof (cases rcv)
    case (Received bytes)
    show ?thesis
    proof (cases "HandleRequestData hs (d\<lparr>ed_buf := memcpy_at 0 bytes (ed_buf d), ed_length := length bytes\<rparr>)
        (EventData\<lparr>ed_fd := fd\<rparr>)")
      case (Inl e)
      with Received d drop HandleRequestData_Inl [OF Inl] show ?thesis by (simp add: on_readable_def Let_def)
    next
      case (Inr response)
      from receive_request [OF ker inv reg d(2) Inr] obtain w' where
        "ControlEpollEvent ctl CtlMod fd OUT_ET (fresh w) (snd (alloc response
           (store p (d\<lparr>ed_buf := memcpy_at 0 bytes (ed_buf d), ed_length := length bytes\<rparr>) w))) = Inr w'"
        "worker_inv w'" "other_fds fd w w'" by blast
      with Received d(4,5) drop Inr show ?thesis
        by (simp add: on_readable_def Let_def alloc_simps(1) helper_simps(2))
    qed
  next
    case (RecvError e)
    from inv have fresh: "0 < fresh w" "\<forall>p\<ge>fresh w. heap w p = None" by (auto simp: worker_inv_def)
    obtain w' where "ControlEpollEvent ctl CtlMod fd IN_ET p w = Inr w'" "worker_inv w'" "other_fds fd w w'"
      by (rule Control_ok [OF ker inv reg', of CtlMod w IN_ET p]) (use d fresh in auto)
    with RecvError d drop show ?thesis by (simp add: on_readable_def Let_def)
  qed
qed

text \<open>Sending: what is registered afterwards, and what went over the wire.\<close>

lemma data_ok_sent:
  "data_ok fd OUT_ET d \<Longrightarrow> k \<le> ed_length d \<Longrightarrow>
   data_ok fd OUT_ET (d\<lparr>ed_cursor := ed_cursor d + k, ed_length := ed_length d - k\<rparr>)"
  by (simp add: data_ok_def)

lemma write_some:
  fixes s :: "(int \<times> string) list"
  assumes inv: "worker_inv w" and reg: "interest (ctls w) fd = Some (OUT_ET, DataPtr p)"
    and d: "heap w p = Some d" and k: "k \<le> ed_length d"
  defines "w1 \<equiv> (store p (d\<lparr>ed_cursor := ed_cursor d + k, ed_length := ed_length d - k\<rparr>) w)\<lparr>sent := s\<rparr>"
  shows "worker_inv w1" "other_fds fd w w1" "ctls w1 = ctls w"
    "\<And>q e. heap w q = Some e \<Longrightarrow> ed_fd e \<noteq> fd \<Longrightarrow> heap w1 q = Some e"
    "0 < fresh w1" "\<forall>q\<ge>fresh w1. heap w1 q = None" "conn_ok w1 fd OUT_ET (DataPtr p)"
proof -
  from worker_inv_conn [OF inv reg] d have
    p: "p \<noteq> 0" "data_ok fd OUT_ET d" "ed_fd d = fd" "p < fresh w" by auto
  show conn: "conn_ok w1 fd OUT_ET (DataPtr p)"
    using p data_ok_sent [OF p(2) k] by (simp add: w1_def worker_simps)
  show log: "ctls w1 = ctls w" by (simp add: w1_def worker_simps)
  show other: "\<And>q e. heap w q = Some e \<Longrightarrow> ed_fd e \<noteq> fd \<Longrightarrow> heap w1 q = Some e"
    using p d by (auto simp: w1_def worker_simps)
  show fresh: "0 < fresh w1" "\<forall>q\<ge>fresh w1. heap w1 q = None"
    using inv p by (auto simp: w1_def worker_simps worker_inv_def)
  show "worker_inv w1" "other_fds fd w w1"
    by (rule worker_inv_change [OF inv, where cs = "[]" and fd = fd];
        use conn log other fresh reg in \<open>simp del: conn_ok.simps\<close>)+
qed

lemma write_some_ctl:
  assumes ker: "epoll_documented ctl" and inv: "worker_inv w"
    and reg: "interest (ctls w) fd = Some (OUT_ET, DataPtr p)" and d: "heap w p = Some d"
    and k: "0 < k" "k \<le> ed_length d"
  obtains w' where "on_writable ctl (Sent k) p w = Inr w'" "worker_inv w'" "other_fds fd w w'"
    "interest (ctls w') fd = Some (OUT_ET, DataPtr p)"
    "heap w' = (heap w)(p \<mapsto> d\<lparr>ed_cursor := ed_cursor d + k, ed_length := ed_length d - k\<rparr>)"
    "sent w' = sent w @ [(fd, take k (drop (ed_cursor d) (ed_buf d)))]"
    "fresh w' = fresh w" "closed w' = closed w"
proof -
  let ?s = "sent w @ [(fd, take k (drop (ed_cursor d) (ed_buf d)))]"
  let ?w = "(store p (d\<lparr>ed_cursor := ed_cursor d + k, ed_length := ed_length d - k\<rparr>) w)\<lparr>sent := ?s\<rparr>"
  from worker_inv_conn [OF inv reg] d have p: "deref p w = Inr d" "ed_fd d = fd" by auto
  note some = write_some [OF inv reg d k(2), where s = ?s]
  obtain w' where w': "ControlEpollEvent ctl CtlMod fd OUT_ET p ?w = Inr w'" "worker_inv w'" "other_fds fd w w'"
    "interest (ctls w') fd = (if CtlMod = CtlDel then None else Some (OUT_ET, DataPtr p))"
    "heap w' = heap ?w" "fresh w' = fresh ?w" "closed w' = closed ?w" "sent w' = sent ?w"
    using Control_ok [OF ker inv, of fd CtlMod ?w OUT_ET p, OF _ _ some(3-7)] reg by auto
  show thesis
    using w' p k(1) by (intro that [of w']) (simp_all add: on_writable_def Let_def worker_simps)
qed

text \<open>The end of a response: a fresh request object, or the end of the connection.\<close>

lemma write_end_alive:
  assumes ker: "epoll_documented ctl" and inv: "worker_inv w"
    and reg: "interest (ctls w) fd = Some (evs, DataPtr p)" and d: "heap w p = Some d"
  obtains w' where
    "ControlEpollEvent ctl CtlMod fd IN_ET (fresh w) (snd (alloc (EventData\<lparr>ed_fd := fd\<rparr>) (free p w))) = Inr w'"
    "worker_inv w'" "other_fds fd w w'" "interest (ctls w') fd = Some (IN_ET, DataPtr (fresh w))"
    "sent w' = sent w" "closed w' = closed w" "\<And>q. q \<noteq> p \<Longrightarrow> q < fresh w \<Longrightarrow> heap w' q = heap w q"
proof -
  from worker_inv_conn [OF inv reg] d have p: "p < fresh w" "ed_fd d = fd" by auto
  from inv have fresh: "0 < fresh w" "\<forall>p\<ge>fresh w. heap w p = None" by (auto simp: worker_inv_def)
  let ?w = "snd (alloc (EventData\<lparr>ed_fd := fd\<rparr>) (free p w))"
  obtain w' where w': "ControlEpollEvent ctl CtlMod fd IN_ET (fresh w) ?w = Inr w'" "worker_inv w'" "other_fds fd w w'"
    "interest (ctls w') fd = (if CtlMod = CtlDel then None else Some (IN_ET, DataPtr (fresh w)))"
    "heap w' = heap ?w" "fresh w' = fresh ?w" "closed w' = closed ?w" "sent w' = sent ?w"
  proof (rule Control_ok [OF ker inv, of fd CtlMod ?w IN_ET "fresh w"])
    show "heap ?w q = Some e" if "heap w q = Some e" "ed_fd e \<noteq> fd" for q e
      using that p d fresh(2) by (auto simp: worker_simps)
    show "conn_ok ?w fd IN_ET (DataPtr (fresh w))"
      using fresh(1) by (simp add: worker_simps data_ok_def)
  qed (use reg fresh p in \<open>auto simp: worker_simps\<close>)
  then show thesis by (intro that [of w']) (auto simp: worker_simps)
qed

lemma write_end_close:
  assumes ker: "epoll_documented ctl" and inv: "worker_inv w"
    and reg: "interest (ctls w) fd = Some (evs, DataPtr p)" and d: "heap w p = Some d"
  obtains w' where "ControlEpollEvent ctl CtlDel fd 0 0 (free p w) = Inr w'"
    "worker_inv (close_fd fd w')" "other_fds fd w (close_fd fd w')" "interest (ctls w') fd = None"
    "sent w' = sent w" "closed w' = closed w" "\<And>q. q \<noteq> p \<Longrightarrow> heap w' q = heap w q"
proof -
  from worker_inv_conn [OF inv reg] d have p: "ed_fd d = fd" by auto
  from inv have fresh: "0 < fresh w" "\<forall>p\<ge>fresh w. heap w p = None" by (auto simp: worker_inv_def)
  obtain w' where w': "ControlEpollEvent ctl CtlDel fd 0 0 (free p w) = Inr w'" "worker_inv w'" "other_fds fd w w'"
    "interest (ctls w') fd = (if CtlDel = CtlDel then None else Some (0, DataPtr 0))"
    "heap w' = heap (free p w)" "fresh w' = fresh (free p w)" "closed w' = closed (free p w)" "sent w' = sent (free p w)"
    by (rule Control_ok [OF ker inv, of fd CtlDel "free p w" 0 0]) (use reg fresh p d in \<open>auto simp: worker_simps\<close>)
  moreover from w' have "worker_inv (close_fd fd w')" "other_fds fd w (close_fd fd w')"
    by (auto simp: worker_inv_def other_fds_def worker_simps)
  ultimately show thesis by (intro that [of w']) (auto simp: worker_simps)
qed

lemma on_writable_ok:
  assumes ker: "epoll_documented ctl" and inv: "worker_inv w"
    and reg: "interest (ctls w) fd = Some (OUT_ET, DataPtr p)"
    and snt: "\<And>k d. snt = Sent k \<Longrightarrow> heap w p = Some d \<Longrightarrow> k \<le> ed_length d"
  shows "step_ok fd w (on_writable ctl snt p w)"
proof -
  from worker_inv_conn [OF inv reg] obtain d where
    d: "p \<noteq> 0" "heap w p = Some d" "data_ok fd OUT_ET d" "deref p w = Inr d" "ed_fd d = fd" "p < fresh w" .
  have reg': "interest (ctls w) fd \<noteq> None" using reg by simp
  show ?thesis
  proof (cases snt)
    case (Sent k)
    have "0 < k \<Longrightarrow> ?thesis"
      by (rule write_some_ctl [OF ker inv reg d(2) _ snt [OF Sent d(2)]]) (use Sent in simp_all)
    moreover have "keep_alive d \<Longrightarrow> k = 0 \<Longrightarrow> ?thesis"
      by (rule write_end_alive [OF ker inv reg d(2)])
        (use Sent d in \<open>auto simp: on_writable_def Let_def worker_simps\<close>)
    moreover have "\<not> keep_alive d \<Longrightarrow> k = 0 \<Longrightarrow> ?thesis"
      by (rule write_end_close [OF ker inv reg d(2)])
        (use Sent d in \<open>auto simp: on_writable_def Let_def\<close>)
    ultimately show ?thesis by auto
  next
    case (SendError e)
    from inv have fresh: "0 < fresh w" "\<forall>p\<ge>fresh w. heap w p = None" by (auto simp: worker_inv_def)
    obtain w' where "ControlEpollEvent ctl CtlMod fd OUT_ET p w = Inr w'" "worker_inv w'" "other_fds fd w w'"
      by (rule Control_ok [OF ker inv reg', of CtlMod w OUT_ET p]) (use d fresh in auto)
    with SendError d drop_client_ok [OF ker inv reg' d(2,5)] show ?thesis by (simp add: on_writable_def Let_def)
  qed
qed

lemma HandleReadEvent_ok:
  assumes ker: "epoll_documented ctl" and inv: "worker_inv w"
    and reg: "interest (ctls w) fd = Some (IN_ET, DataPtr p)"
  shows "step_ok fd w (res_bind (HandleReadEvent ctl hs rcv fd p w) (\<lambda>(q, w1). Inr w1))"
proof -
  from worker_inv_conn [OF inv reg] obtain d where
    d: "heap w p = Some d" "deref p w = Inr d" "ed_fd d = fd" by blast
  have same: "step_ok fd w (Inr w)" using inv by (simp add: other_fds_def)
  have "res_bind (HandleReadEvent ctl hs rcv fd p w) (\<lambda>(q, w1). Inr w1) =
      (if rcv = RecvError EAGAIN then Inr w else on_readable ctl hs rcv p w)"
    by (cases rcv) (simp_all add: HandleReadEvent_def on_readable_def d Let_def res_bind_assoc alloc_simps(1))
  with same on_readable_ok [OF assms] show ?thesis by simp
qed

lemma HandleWriteEvent_ok:
  assumes ker: "epoll_documented ctl" and inv: "worker_inv w"
    and reg: "interest (ctls w) fd = Some (OUT_ET, DataPtr p)"
    and snt: "\<And>k d. snt = Sent k \<Longrightarrow> heap w p = Some d \<Longrightarrow> k \<le> ed_length d"
  shows "step_ok fd w (res_bind (HandleWriteEvent ctl snt fd p w) (\<lambda>(q, w1). Inr w1))"
proof -
  from worker_inv_conn [OF inv reg] obtain d where
    d: "heap w p = Some d" "deref p w = Inr d" "ed_fd d = fd" by blast
  have same: "step_ok fd w (Inr w)" using inv by (simp add: other_fds_def)
  consider (some) k where "snt = Sent k" "0 < k" | (finished) "snt = Sent 0" | (again) "snt = SendError EAGAIN"
    | (lost) e where "snt = SendError e" "e \<noteq> EAGAIN"
    by (cases snt) auto
  then show ?thesis
  proof cases
    case some
    with write_some(1,2) [OF inv reg d(1) snt [OF some(1) d(1)]] d show ?thesis
      by (simp add: HandleWriteEvent_def Let_def)
  next
    case again
    with d same show ?thesis by (simp add: HandleWriteEvent_def)
  next
    case finished
    then have "res_bind (HandleWriteEvent ctl snt fd p w) (\<lambda>(q, w1). Inr w1) = on_writable ctl snt p w"
      by (simp add: HandleWriteEvent_def on_writable_def d res_bind_assoc alloc_simps(1))
    with on_writable_ok [OF assms] show ?thesis by simp
  next
    case lost
    then have "res_bind (HandleWriteEvent ctl snt fd p w) (\<lambda>(q, w1). Inr w1) = on_writable ctl snt p w"
      by (simp add: HandleWriteEvent_def on_writable_def d res_bind_assoc)
    with on_writable_ok [OF assms] show ?thesis by simp
  qed
qed

section \<open>The contract of an event loop\<close>

text \<open>
  An event the kernel may report: its descriptor is registered with this pointer, the
  direction is the registered one, and \<^verbatim>\<open>send\<close> does not take more than it is given.
\<close>

type_synonym event = "u32 \<times> addr \<times> recv_result \<times> send_result"

fun reported :: "worker \<Rightarrow> int \<Rightarrow> event \<Rightarrow> bool" where
  "reported w fd (events, p, rcv, snt) \<longleftrightarrow>
     (\<exists>evs. interest (ctls w) fd = Some (evs, DataPtr p) \<and>
       (events AND EPOLLIN \<noteq> 0 \<longrightarrow> evs = IN_ET) \<and> (events AND EPOLLOUT \<noteq> 0 \<longrightarrow> evs = OUT_ET)) \<and>
     (case (snt, heap w p) of (Sent k, Some d) \<Rightarrow> k \<le> ed_length d | _ \<Rightarrow> True)"

lemma reported_other:
  assumes inv: "worker_inv w" and rep: "reported w fd' ev" and other: "other_fds fd w w'" and "fd' \<noteq> fd"
  shows "reported w' fd' ev"
proof -
  obtain events p rcv snt where ev: "ev = (events, p, rcv, snt)" by (cases ev)
  from rep ev obtain evs where reg: "interest (ctls w) fd' = Some (evs, DataPtr p)" by auto
  from worker_inv_conn [OF inv reg] obtain d where "heap w p = Some d" "ed_fd d = fd'" by blast
  with other \<open>fd' \<noteq> fd\<close> have "heap w' p = heap w p" "interest (ctls w') fd' = interest (ctls w) fd'"
    by (simp_all add: other_fds_def)
  with rep show ?thesis by (simp add: ev)
qed

locale connection_loop =
  fixes step :: "kernel \<Rightarrow> handlers \<Rightarrow> event \<Rightarrow> worker \<Rightarrow> server_error + worker"
    and loop :: "kernel \<Rightarrow> handlers \<Rightarrow> event list \<Rightarrow> worker \<Rightarrow> server_error + worker"
  assumes step: "epoll_documented ctl \<Longrightarrow> worker_inv w \<Longrightarrow> reported w fd ev \<Longrightarrow> step_ok fd w (step ctl hs ev w)"
    and loop_Nil: "loop ctl hs [] w = Inr w"
    and loop_Cons: "loop ctl hs (ev # evs) w = res_bind (step ctl hs ev w) (loop ctl hs evs)"
begin

lemma batch:
  assumes "epoll_documented ctl" "worker_inv w" "distinct (map fst evs)" "\<forall>(fd, ev)\<in>set evs. reported w fd ev"
  shows "case loop ctl hs (map snd evs) w of Inl e \<Rightarrow> e = BufferOverflow
     | Inr w' \<Rightarrow> worker_inv w' \<and> (\<forall>fd. fd \<notin> fst ` set evs \<longrightarrow> interest (ctls w') fd = interest (ctls w) fd)"
  using assms
proof (induction evs arbitrary: w)
  case Nil
  then show ?case by (simp add: loop_Nil)
next
  case (Cons e evs)
  obtain fd ev where e: "e = (fd, ev)" by (cases e)
  have ok: "step_ok fd w (step ctl hs ev w)" using Cons.prems by (intro step) (auto simp: e)
  show ?case
  proof (cases "step ctl hs ev w")
    case (Inl x)
    with ok show ?thesis by (simp add: e loop_Cons)
  next
    case (Inr w1)
    with ok have w1: "worker_inv w1" "other_fds fd w w1" by simp_all
    have later: "\<forall>(fd', ev')\<in>set evs. reported w1 fd' ev'"
    proof (clarify)
      fix fd' ev' assume "(fd', ev') \<in> set evs"
      moreover from this Cons.prems(3) have "fd' \<noteq> fd" by (force simp: e)
      moreover from calculation(1) Cons.prems(4) have "reported w fd' ev'"
        by (auto simp del: reported.simps)
      ultimately show "reported w1 fd' ev'"
        using reported_other [OF Cons.prems(2) _ w1(2)] by blast
    qed
    have "distinct (map fst evs)" using Cons.prems(3) by simp
    from Cons.IH [OF Cons.prems(1) w1(1) this later] w1(2) Inr show ?thesis
      by (simp add: e loop_Cons other_fds_def split: sum.splits)
  qed
qed

end

lemma drop_reported:
  assumes "epoll_documented ctl" "worker_inv w" "reported w fd ev"
  shows "\<exists>d. deref (fst (snd ev)) w = Inr d \<and> ed_fd d = fd \<and> step_ok fd w (drop_client ctl fd (fst (snd ev)) w)"
proof -
  obtain events p rcv snt where ev: "ev = (events, p, rcv, snt)" by (cases ev)
  from assms(3) ev obtain evs where reg: "interest (ctls w) fd = Some (evs, DataPtr p)" by auto
  from worker_inv_conn [OF assms(2) reg] obtain d where
    "heap w p = Some d" "deref p w = Inr d" "ed_fd d = fd" by blast
  with drop_client_ok [OF assms(1,2), of fd p d] reg show ?thesis by (simp add: ev)
qed

lemma reported_read:
  "reported w fd (events, p, rcv, snt) \<Longrightarrow> events AND EPOLLIN \<noteq> 0 \<Longrightarrow> interest (ctls w) fd = Some (IN_ET, DataPtr p)"
  by auto

lemma reported_write:
  assumes "reported w fd (events, p, rcv, snt)" "events AND EPOLLOUT \<noteq> 0"
  shows "interest (ctls w) fd = Some (OUT_ET, DataPtr p)"
    "\<And>k d. snt = Sent k \<Longrightarrow> heap w p = Some d \<Longrightarrow> k \<le> ed_length d"
  using assms by auto

interpretation plain: connection_loop loop_event EventLoop
proof
  fix ctl w fd hs and ev :: event
  assume pre: "epoll_documented ctl" "worker_inv w" "reported w fd ev"
  obtain events p rcv snt where ev: "ev = (events, p, rcv, snt)" by (cases ev)
  from drop_reported [OF pre] ev obtain d where
    "deref p w = Inr d" "ed_fd d = fd" "step_ok fd w (drop_client ctl fd p w)" by auto
  moreover have "events AND EPOLLIN \<noteq> 0 \<Longrightarrow> step_ok fd w (on_readable ctl hs rcv p w)"
    using on_readable_ok [OF pre(1,2) reported_read] pre(3) ev by simp
  moreover have "events AND EPOLLOUT \<noteq> 0 \<Longrightarrow> step_ok fd w (on_writable ctl snt p w)"
    using on_writable_ok [OF pre(1,2)] reported_write [OF pre(3) [unfolded ev]] by blast
  ultimately show "step_ok fd w (loop_event ctl hs ev w)"
    by (auto simp: loop_event_def ev HandleEpollEvent_def simp del: step_ok_simps)
qed simp_all

interpretation co: connection_loop loop_event_co EventLoopWithCo
proof
  fix ctl w fd hs and ev :: event
  assume pre: "epoll_documented ctl" "worker_inv w" "reported w fd ev"
  obtain events p rcv snt where ev: "ev = (events, p, rcv, snt)" by (cases ev)
  from drop_reported [OF pre] ev obtain d where
    "deref p w = Inr d" "ed_fd d = fd" "step_ok fd w (drop_client ctl fd p w)" by auto
  moreover have "events AND EPOLLIN \<noteq> 0 \<Longrightarrow>
      step_ok fd w (res_bind (HandleReadEvent ctl hs rcv fd p w) (\<lambda>(q, w1). Inr w1))"
    using HandleReadEvent_ok [OF pre(1,2) reported_read] pre(3) ev by simp
  moreover have "events AND EPOLLOUT \<noteq> 0 \<Longrightarrow>
      step_ok fd w (res_bind (HandleWriteEvent ctl snt fd p w) (\<lambda>(q, w1). Inr w1))"
    using HandleWriteEvent_ok [OF pre(1,2)] reported_write [OF pre(3) [unfolded ev]] by blast
  ultimately show "step_ok fd w (loop_event_co ctl hs ev w)"
    by (auto simp: loop_event_co_def ev simp del: step_ok_simps)
qed simp_all

section \<open>The whole server\<close>

text \<open>
  The threads of the server as interleaved steps: the listener accepts a client whose new
  descriptor is in no worker's interest list, or a worker handles a batch of reported events
  of different descriptors.
\<close>

inductive server_step ::
  "(kernel \<Rightarrow> handlers \<Rightarrow> event list \<Rightarrow> worker \<Rightarrow> server_error + worker) \<Rightarrow> kernel \<Rightarrow> handlers \<Rightarrow>
   listener \<Rightarrow> server_error + listener \<Rightarrow> bool"
  for loop ctl hs where
  accept: "\<forall>w\<in>set (workers l). interest (ctls w) fd = None \<Longrightarrow> server_step loop ctl hs l (ListenClient ctl fd l)"
| work: "i < length (workers l) \<Longrightarrow> distinct (map fst evs) \<Longrightarrow> \<forall>(fd, ev)\<in>set evs. reported (workers l ! i) fd ev \<Longrightarrow>
    server_step loop ctl hs l
      (res_bind (loop ctl hs (map snd evs) (workers l ! i)) (\<lambda>w. Inr (l\<lparr>workers := (workers l)[i := w]\<rparr>)))"

inductive server_reach ::
  "(kernel \<Rightarrow> handlers \<Rightarrow> event list \<Rightarrow> worker \<Rightarrow> server_error + worker) \<Rightarrow> kernel \<Rightarrow> handlers \<Rightarrow> listener \<Rightarrow> bool"
  for loop ctl hs where
  start: "server_reach loop ctl hs HttpServer"
| step: "server_reach loop ctl hs l \<Longrightarrow> server_step loop ctl hs l (Inr l') \<Longrightarrow> server_reach loop ctl hs l'"

definition listener_inv :: "listener \<Rightarrow> bool" where
  "listener_inv l \<longleftrightarrow> length (workers l) = kThreadPoolSize \<and> worker_idx l < kThreadPoolSize \<and>
     (\<forall>w\<in>set (workers l). worker_inv w)"

lemma listener_inv_start: "listener_inv HttpServer"
  by (auto simp: listener_inv_def HttpServer_def kThreadPoolSize_def worker_inv_new)

lemma accept_worker:
  assumes ker: "epoll_documented ctl" and inv: "worker_inv w" and new: "interest (ctls w) fd = None"
  obtains w' where
    "ControlEpollEvent ctl CtlAdd fd IN_ET (fresh w) (snd (alloc (EventData\<lparr>ed_fd := fd\<rparr>) w)) = Inr w'"
    "worker_inv w'" "interest (ctls w') fd = Some (IN_ET, DataPtr (fresh w))"
proof -
  let ?c = "ctl_arg CtlAdd fd IN_ET (fresh w)" and ?w = "snd (alloc (EventData\<lparr>ed_fd := fd\<rparr>) w)"
  let ?w' = "?w\<lparr>ctls := ctls w @ [?c]\<rparr>"
  from inv have fresh: "0 < fresh w" "\<forall>p\<ge>fresh w. heap w p = None" by (auto simp: worker_inv_def)
  have fits: "ctl_fits [?c] (interest (ctls w))" using new by simp
  with ker have "ctl (ctls w) ?c" unfolding epoll_documented_def by blast
  then have call: "ControlEpollEvent ctl CtlAdd fd IN_ET (fresh w) ?w = Inr ?w'"
    by (simp add: ControlEpollEvent_def worker_simps)
  have "worker_inv ?w'"
    by (rule worker_inv_change [OF inv, where cs = "[?c]" and fd = fd])
      (use fits fresh in \<open>auto simp: worker_simps data_ok_def\<close>)
  with call show thesis by (intro that [of ?w']) simp_all
qed

lemma ListenClient_ok:
  assumes ker: "epoll_documented ctl" and inv: "listener_inv l"
    and new: "\<forall>w\<in>set (workers l). interest (ctls w) fd = None"
  shows "\<exists>l'. ListenClient ctl fd l = Inr l' \<and> listener_inv l' \<and>
     (0 \<le> fd \<longrightarrow> worker_idx l' = (worker_idx l + 1) mod kThreadPoolSize \<and>
        (\<exists>p. interest (ctls (workers l' ! worker_idx l)) fd = Some (IN_ET, DataPtr p)))"
proof (cases "fd < 0")
  case True
  with inv show ?thesis by (auto simp: ListenClient_def listener_inv_def)
next
  case False
  let ?w = "workers l ! worker_idx l"
  have idx: "worker_idx l < length (workers l)" using inv by (simp add: listener_inv_def)
  then have "?w \<in> set (workers l)" by simp
  with inv new have w: "worker_inv ?w" "interest (ctls ?w) fd = None" by (auto simp: listener_inv_def)
  obtain w' where w': "ControlEpollEvent ctl CtlAdd fd IN_ET (fresh ?w) (snd (alloc (EventData\<lparr>ed_fd := fd\<rparr>) ?w)) = Inr w'"
    "worker_inv w'" "interest (ctls w') fd = Some (IN_ET, DataPtr (fresh ?w))"
    by (rule accept_worker [OF ker w])
  have "\<forall>v\<in>set ((workers l)[worker_idx l := w']). worker_inv v"
    using inv w'(2) set_update_subset_insert [of "workers l" "worker_idx l" w'] by (auto simp: listener_inv_def)
  with False w' idx inv show ?thesis
    by (simp add: ListenClient_def alloc_simps(1) listener_inv_def kThreadPoolSize_def)
qed

context connection_loop begin

lemma server_step_ok:
  assumes "server_step loop ctl hs l r" "epoll_documented ctl" "listener_inv l"
  shows "case r of Inl e \<Rightarrow> e = BufferOverflow | Inr l' \<Rightarrow> listener_inv l'"
  using assms
proof (induction rule: server_step.induct)
  case (accept l fd)
  with ListenClient_ok show ?case by fastforce
next
  case (work i l evs)
  then have "worker_inv (workers l ! i)" by (simp add: listener_inv_def)
  from batch [OF work(4) this work(2,3), of hs] show ?case
    using work(5) set_update_subset_insert [of "workers l" i] by (fastforce simp: listener_inv_def split: sum.splits)
qed

lemma server_reach_inv: "server_reach loop ctl hs l \<Longrightarrow> epoll_documented ctl \<Longrightarrow> listener_inv l"
proof (induction rule: server_reach.induct)
  case start
  show ?case by (rule listener_inv_start)
next
  case (step l l')
  with server_step_ok [OF step(2)] show ?case by simp
qed

lemma server_safe:
  "server_reach loop ctl hs l \<Longrightarrow> epoll_documented ctl \<Longrightarrow> server_step loop ctl hs l r \<Longrightarrow>
   listener_inv l \<and> (\<forall>e. r = Inl e \<longrightarrow> e = BufferOverflow)"
  using server_step_ok server_reach_inv by (fastforce split: sum.splits)

end

section \<open>Delivering a response\<close>

text \<open>What is left to send, and what the kernel took for a descriptor.\<close>

definition outbox :: "worker \<Rightarrow> addr \<Rightarrow> string" where
  "outbox w p = (case heap w p of None \<Rightarrow> [] | Some d \<Rightarrow> take (ed_length d) (drop (ed_cursor d) (ed_buf d)))"

definition sent_to :: "int \<Rightarrow> worker \<Rightarrow> string" where
  "sent_to fd w = concat (map snd (filter (\<lambda>x. fst x = fd) (sent w)))"

text \<open>Results of \<^verbatim>\<open>send\<close> that take \<open>n\<close> bytes altogether, some of them refused for the moment.\<close>

fun takes :: "send_result list \<Rightarrow> nat \<Rightarrow> bool" where
  "takes [] n \<longleftrightarrow> n = 0"
| "takes (Sent k # rs) n \<longleftrightarrow> 0 < k \<and> k \<le> n \<and> takes rs (n - k)"
| "takes (SendError e # rs) n \<longleftrightarrow> e = EAGAIN \<and> takes rs n"

definition write_event :: "addr \<Rightarrow> send_result \<Rightarrow> event" where
  "write_event p r = (EPOLLOUT, p, RecvError 0, r)"

lemma out_bits [simp]:
  "EPOLLOUT AND EPOLLHUP = 0" "EPOLLOUT AND EPOLLERR = 0" "EPOLLOUT AND EPOLLIN = 0" "EPOLLOUT AND EPOLLOUT \<noteq> 0"
  "EPOLLIN AND EPOLLHUP = 0" "EPOLLIN AND EPOLLERR = 0" "EPOLLIN AND EPOLLIN \<noteq> 0" "EPOLLOUT \<noteq> 0" "EPOLLIN \<noteq> 0"
  by (simp_all add: EPOLLOUT_def EPOLLHUP_def EPOLLERR_def EPOLLIN_def)

lemma loop_write_event: "loop_event ctl hs (write_event p r) w = on_writable ctl r p w"
  by (simp add: loop_event_def write_event_def HandleEpollEvent_def)

lemma loop_read_event: "loop_event ctl hs (EPOLLIN, p, rcv, snt) w = on_readable ctl hs rcv p w"
  by (simp add: loop_event_def HandleEpollEvent_def)

lemma write_again:
  assumes ker: "epoll_documented ctl" and inv: "worker_inv w"
    and reg: "interest (ctls w) fd = Some (OUT_ET, DataPtr p)"
  obtains w' where "on_writable ctl (SendError EAGAIN) p w = Inr w'" "worker_inv w'"
    "interest (ctls w') fd = Some (OUT_ET, DataPtr p)" "heap w' = heap w" "sent w' = sent w" "closed w' = closed w"
    "fresh w' = fresh w"
proof -
  from worker_inv_conn [OF inv reg] obtain d where
    d: "p \<noteq> 0" "heap w p = Some d" "data_ok fd OUT_ET d" "deref p w = Inr d" "ed_fd d = fd" by blast
  from inv have fresh: "0 < fresh w" "\<forall>p\<ge>fresh w. heap w p = None" by (auto simp: worker_inv_def)
  obtain w' where w': "ControlEpollEvent ctl CtlMod fd OUT_ET p w = Inr w'" "worker_inv w'"
    "interest (ctls w') fd = (if CtlMod = CtlDel then None else Some (OUT_ET, DataPtr p))"
    "heap w' = heap w" "sent w' = sent w" "closed w' = closed w" "fresh w' = fresh w"
    by (rule Control_ok [OF ker inv, of fd CtlMod w OUT_ET p]) (use d fresh reg in auto)
  with d show thesis by (intro that [of w']) (simp_all add: on_writable_def Let_def)
qed

lemma outbox_sent:
  "heap w p = Some d \<Longrightarrow> data_ok fd OUT_ET d \<Longrightarrow> k \<le> ed_length d \<Longrightarrow>
   heap w' p = Some (d\<lparr>ed_cursor := ed_cursor d + k, ed_length := ed_length d - k\<rparr>) \<Longrightarrow>
   outbox w p = take k (drop (ed_cursor d) (ed_buf d)) @ outbox w' p"
  by (simp add: outbox_def take_split_at add.commute flip: drop_drop)

lemma deliver:
  assumes "epoll_documented ctl" "worker_inv w" "interest (ctls w) fd = Some (OUT_ET, DataPtr p)"
    "heap w p = Some d" "takes rs (ed_length d)"
  shows "\<exists>w' d'. EventLoop ctl hs (map (write_event p) rs) w = Inr w' \<and> worker_inv w' \<and>
     interest (ctls w') fd = Some (OUT_ET, DataPtr p) \<and> heap w' p = Some d' \<and> ed_length d' = 0 \<and>
     keep_alive d' = keep_alive d \<and> sent_to fd w' = sent_to fd w @ outbox w p \<and> closed w' = closed w \<and>
     fresh w' = fresh w \<and> (\<forall>q. q \<noteq> p \<longrightarrow> heap w' q = heap w q)"
  using assms(2-)
proof (induction rs "ed_length d" arbitrary: w d rule: takes.induct)
  case 1
  then show ?case by (simp add: outbox_def)
next
  case (2 k rs)
  then have k: "0 < k" "k \<le> ed_length d" "takes rs (ed_length d - k)" by auto
  let ?d = "d\<lparr>ed_cursor := ed_cursor d + k, ed_length := ed_length d - k\<rparr>"
  from worker_inv_conn [OF 2(2,3)] 2(4) have ok: "data_ok fd OUT_ET d" by auto
  obtain w1 where w1: "on_writable ctl (Sent k) p w = Inr w1" "worker_inv w1"
    "interest (ctls w1) fd = Some (OUT_ET, DataPtr p)" "heap w1 = (heap w)(p \<mapsto> ?d)"
    "sent w1 = sent w @ [(fd, take k (drop (ed_cursor d) (ed_buf d)))]" "fresh w1 = fresh w" "closed w1 = closed w"
    by (rule write_some_ctl [OF assms(1) 2(2-4) k(1,2)]) blast
  have "sent_to fd w @ outbox w p = sent_to fd w1 @ outbox w1 p"
    using outbox_sent [OF 2(4) ok k(2), of w1] w1(4,5) by (simp add: sent_to_def)
  with 2(1) [of ?d w1] w1 k show ?case
    by (simp add: loop_write_event)
next
  case (3 e rs)
  then have e: "e = EAGAIN" "takes rs (ed_length d)" by auto
  obtain w1 where w1: "on_writable ctl (SendError EAGAIN) p w = Inr w1" "worker_inv w1"
    "interest (ctls w1) fd = Some (OUT_ET, DataPtr p)" "heap w1 = heap w" "sent w1 = sent w" "closed w1 = closed w"
    "fresh w1 = fresh w"
    by (rule write_again [OF assms(1) 3(2,3)]) blast
  have "sent_to fd w1 = sent_to fd w" "outbox w1 p = outbox w p"
    by (simp_all add: sent_to_def outbox_def w1)
  with 3(1) [of d w1] w1 e 3(4) show ?case
    by (simp add: loop_write_event)
qed

lemma finish:
  assumes ker: "epoll_documented ctl" and inv: "worker_inv w"
    and reg: "interest (ctls w) fd = Some (OUT_ET, DataPtr p)" and d: "heap w p = Some d"
  shows "\<exists>w'. on_writable ctl (Sent 0) p w = Inr w' \<and> worker_inv w' \<and> sent w' = sent w \<and>
     (\<forall>q. q \<noteq> p \<longrightarrow> q < fresh w \<longrightarrow> heap w' q = heap w q) \<and>
     (if keep_alive d then interest (ctls w') fd = Some (IN_ET, DataPtr (fresh w)) \<and> closed w' = closed w
      else interest (ctls w') fd = None \<and> closed w' = closed w @ [fd])"
proof -
  from worker_inv_conn [OF inv reg] d have p: "deref p w = Inr d" "ed_fd d = fd" by auto
  show ?thesis
  proof (cases "keep_alive d")
    case True
    obtain w' where
      "ControlEpollEvent ctl CtlMod fd IN_ET (fresh w) (snd (alloc (EventData\<lparr>ed_fd := fd\<rparr>) (free p w))) = Inr w'"
      "worker_inv w'" "interest (ctls w') fd = Some (IN_ET, DataPtr (fresh w))"
      "sent w' = sent w" "closed w' = closed w" "\<And>q. q \<noteq> p \<Longrightarrow> q < fresh w \<Longrightarrow> heap w' q = heap w q"
      by (rule write_end_alive [OF ker inv reg d]) blast
    with True p show ?thesis
      by (simp add: on_writable_def Let_def alloc_simps(1) helper_simps(7))
  next
    case False
    obtain w' where "ControlEpollEvent ctl CtlDel fd 0 0 (free p w) = Inr w'"
      "worker_inv (close_fd fd w')" "interest (ctls w') fd = None"
      "sent w' = sent w" "closed w' = closed w" "\<And>q. q \<noteq> p \<Longrightarrow> heap w' q = heap w q"
      by (rule write_end_close [OF ker inv reg d]) blast
    with False p show ?thesis by (simp add: on_writable_def Let_def helper_simps)
  qed
qed

lemma EventLoop_append:
  "EventLoop ctl hs (evs @ evs') w = res_bind (EventLoop ctl hs evs w) (EventLoop ctl hs evs')"
  by (induction evs arbitrary: w) (auto simp: res_bind_assoc intro: res_bind_cong)

text \<open>One request and its response, the request arriving in one piece.\<close>

definition exchange :: "addr \<Rightarrow> string \<Rightarrow> addr \<Rightarrow> send_result list \<Rightarrow> event list" where
  "exchange p bytes q rs = (EPOLLIN, p, Received bytes, SendError 0) # map (write_event q) (rs @ [Sent 0])"

lemma exchange_ok:
  assumes ker: "epoll_documented ctl" and inv: "worker_inv w"
    and reg: "interest (ctls w) fd = Some (IN_ET, DataPtr p)"
    and bytes: "0 < length bytes" "length bytes \<le> kMaxBufferSize"
    and resp: "respond hs bytes = (req, res)" "out = ResponseToString (req_method req \<noteq> HEAD) res"
    and out: "length out \<le> kMaxBufferSize" "takes rs (length out)"
  shows "\<exists>w'. EventLoop ctl hs (exchange p bytes (fresh w) rs) w = Inr w' \<and> worker_inv w' \<and>
     sent_to fd w' = sent_to fd w @ out \<and> map_option ed_fd (heap w' p) = Some fd \<and>
     (if GetHeader ''Connection'' req = ''keep-alive''
      then (\<exists>q. q \<noteq> p \<and> interest (ctls w') fd = Some (IN_ET, DataPtr q)) \<and> closed w' = closed w
      else interest (ctls w') fd = None \<and> closed w' = closed w @ [fd])"
proof -
  from worker_inv_conn [OF inv reg] obtain d where
    d: "heap w p = Some d" "data_ok fd IN_ET d" "deref p w = Inr d" "ed_fd d = fd" "p < fresh w" by blast
  let ?d = "d\<lparr>ed_buf := memcpy_at 0 bytes (ed_buf d), ed_length := length bytes\<rparr>"
  have "take (length bytes) (memcpy_at 0 bytes (ed_buf d)) = bytes"
    using d(2) bytes(2) memcpy_prefix [of bytes "ed_buf d"] by (simp add: data_ok_def)
  with resp out(1) obtain response where r: "HandleRequestData hs ?d (EventData\<lparr>ed_fd := fd\<rparr>) = Inr response"
    by (auto simp: HandleRequestData_def Let_def)
  have props: "data_ok fd OUT_ET response" "ed_cursor response = 0"
    "take (ed_length response) (ed_buf response) = out"
    "keep_alive response = (GetHeader ''Connection'' req = ''keep-alive'')"
    using HandleRequestData_Inr [OF r] resp \<open>take (length bytes) (memcpy_at 0 bytes (ed_buf d)) = bytes\<close> by simp_all
  obtain w1 where w1: "ControlEpollEvent ctl CtlMod fd OUT_ET (fresh w) (snd (alloc response (store p ?d w))) = Inr w1"
    "worker_inv w1" "interest (ctls w1) fd = Some (OUT_ET, DataPtr (fresh w))" "heap w1 (fresh w) = Some response"
    "map_option ed_fd (heap w1 p) = Some fd" "sent w1 = sent w" "closed w1 = closed w"
    by (rule receive_request [OF ker inv reg d(1) r]) blast
  have read: "loop_event ctl hs (EPOLLIN, p, Received bytes, SendError 0) w = Inr w1"
    using w1(1) bytes(1) d(3,4) r by (simp add: loop_read_event on_readable_def Let_def alloc_simps(1) helper_simps)
  have box: "outbox w1 (fresh w) = out" "ed_length response = length out" "sent_to fd w1 = sent_to fd w"
    using props(1-3) w1(4,6) by (auto simp: outbox_def sent_to_def data_ok_def)
  from deliver [OF ker w1(2-4), of rs hs] out(2) box obtain w2 d2 where
    w2: "EventLoop ctl hs (map (write_event (fresh w)) rs) w1 = Inr w2" "worker_inv w2"
      "interest (ctls w2) fd = Some (OUT_ET, DataPtr (fresh w))" "heap w2 (fresh w) = Some d2"
      "keep_alive d2 = keep_alive response" "sent_to fd w2 = sent_to fd w @ out" "closed w2 = closed w1"
      "fresh w2 = fresh w1" "\<forall>q. q \<noteq> fresh w \<longrightarrow> heap w2 q = heap w1 q" by auto
  have "fresh w < fresh w1" by (rule worker_inv_conn [OF w1(2,3)])
  with d(5) w2(8) have p: "p < fresh w2" "p \<noteq> fresh w" "p \<noteq> fresh w2" by auto
  from finish [OF ker w2(2-4)] obtain w3 where
    w3: "on_writable ctl (Sent 0) (fresh w) w2 = Inr w3" "worker_inv w3" "sent w3 = sent w2"
      "\<forall>q. q \<noteq> fresh w \<longrightarrow> q < fresh w2 \<longrightarrow> heap w3 q = heap w2 q"
      "if keep_alive d2 then interest (ctls w3) fd = Some (IN_ET, DataPtr (fresh w2)) \<and> closed w3 = closed w2
       else interest (ctls w3) fd = None \<and> closed w3 = closed w2 @ [fd]" by blast
  have run: "EventLoop ctl hs (exchange p bytes (fresh w) rs) w = Inr w3"
    using w2(1) w3(1) read by (simp add: exchange_def EventLoop_append loop_write_event)
  have left: "map_option ed_fd (heap w3 p) = Some fd" "sent_to fd w3 = sent_to fd w @ out"
    using w3(3,4) w2(6,9) p w1(5) by (simp_all add: sent_to_def)
  have "if GetHeader ''Connection'' req = ''keep-alive''
      then (\<exists>q. q \<noteq> p \<and> interest (ctls w3) fd = Some (IN_ET, DataPtr q)) \<and> closed w3 = closed w
      else interest (ctls w3) fd = None \<and> closed w3 = closed w @ [fd]"
    using w3(5) w2(5,7) props(4) w1(7) p(3) by simp
  with run w3(2) left show ?thesis by blast
qed

section \<open>Routing\<close>

text \<open>The part of the path that decides: up to the first question mark.\<close>

lemma route_path_takeWhile: "route_path p = takeWhile (\<lambda>c. c \<noteq> CHR ''?'') p"
proof (cases "CHR ''?'' \<in> set p")
  case True
  then obtain q r where p: "p = q @ CHR ''?'' # r" and q: "CHR ''?'' \<notin> set q" by (meson split_list_first)
  have "find_str ''?'' p = Some (length q)"
    using find_str_skip [OF q, of "[]" "CHR ''?'' # r"] find_str_here [of "''?''" r] by (simp add: p)
  moreover have "takeWhile (\<lambda>c. c \<noteq> CHR ''?'') p = q" using q by (auto simp: p takeWhile_tail)
  ultimately show ?thesis by (simp add: route_path_def p)
next
  case False
  then have "find_str ''?'' p = None" using find_str_skip [OF False, of "[]" "[]"] by simp
  moreover have "takeWhile (\<lambda>c. c \<noteq> CHR ''?'') p = p" unfolding takeWhile_eq_all_conv using False by auto
  ultimately show ?thesis unfolding route_path_def by (simp del: takeWhile_eq_all_conv)
qed

text \<open>The handler table after a sequence of registrations: the first one of a path and method counts.\<close>

definition registered_handlers :: "(string \<times> HttpMethod \<times> handler) list \<Rightarrow> handlers" where
  "registered_handlers regs = fold (\<lambda>(p, m, h). RegisterHttpRequestHandler p m h) regs Map.empty"

definition handler_at :: "handlers \<Rightarrow> string \<Rightarrow> HttpMethod \<Rightarrow> handler option" where
  "handler_at hs p m = (case hs p of None \<Rightarrow> None | Some row \<Rightarrow> row m)"

lemma Register_at:
  "(RegisterHttpRequestHandler p m h hs q = None) = (hs q = None \<and> p \<noteq> q)"
  "handler_at (RegisterHttpRequestHandler p m h hs) q m' =
     (case handler_at hs q m' of None \<Rightarrow> if (p, m) = (q, m') then Some h else None | Some h' \<Rightarrow> Some h')"
  by (auto simp: RegisterHttpRequestHandler_def handler_at_def Let_def split: option.splits)

lemma fold_Register:
  "(fold (\<lambda>(p, m, h). RegisterHttpRequestHandler p m h) regs hs q = None) = (hs q = None \<and> q \<notin> fst ` set regs)"
  "handler_at (fold (\<lambda>(p, m, h). RegisterHttpRequestHandler p m h) regs hs) q m =
     (case handler_at hs q m of
        None \<Rightarrow> map_option (\<lambda>(_, _, h). h) (find (\<lambda>(p, m', _). p = q \<and> m' = m) regs)
      | Some h \<Rightarrow> Some h)"
  by (induction regs arbitrary: hs) (auto simp: Register_at split: option.splits)

lemma registered_lookup:
  "HandleRequestMessage (registered_handlers regs) req =
     (let q = takeWhile (\<lambda>c. c \<noteq> CHR ''?'') (path req) in
      if q \<notin> fst ` set regs then Inr (HttpResponse NotFound)
      else case find (\<lambda>(p, m, _). p = q \<and> m = req_method req) regs of
             None \<Rightarrow> Inr (HttpResponse MethodNotAllowed)
           | Some (_, _, h) \<Rightarrow> h req)"
  using fold_Register(1) [of regs Map.empty "route_path (path req)"]
    fold_Register(2) [of regs Map.empty "route_path (path req)" "req_method req"]
  by (auto simp: HandleRequestMessage_def registered_handlers_def handler_at_def Let_def simp flip: route_path_takeWhile split: option.splits)

text \<open>The page for an unknown path that handlers may return fits the buffer at any time before the year 10000.\<close>

lemma Create404Response_fits:
  assumes "t < 253402300800"
  shows "\<exists>r. Create404Response t = Some r \<and> length (ResponseToString True r) \<le> kMaxBufferSize"
proof -
  obtain s where "GetCurrentTime t = Some s" "length s = 29" using GetCurrentTime_ok [OF assms] by (auto simp: imf_fixdate_def)
  then show ?thesis
    by (simp add: Create404Response_def SetContent_def SetHeaders_def SetContentLength_def HttpResponse_def ResponseToString_def
        StatusCodeToString_def dec_string.simps CRLF_def kMaxBufferSize_def)
qed

lemma respond_error:
  "FromString s HttpRequest = (Some e, req) \<Longrightarrow> respond hs s = (req, error_response e)"
  by (simp add: respond_def)

section \<open>Properties of the server\<close>

text \<open>
  C9: in every state the server reaches, whichever of the two event loops its workers run, every
  descriptor in a worker's interest list points to a live \<^verbatim>\<open>EventData\<close> of that descriptor whose cursor
  and length stay inside its buffer, and the next step of the listener or of a worker never
  uses a freed or null object nor fails in \<^verbatim>\<open>epoll_ctl\<close>: the only error left is a response that does not
  fit the buffer. The kernel is assumed to do what the manual of \<^verbatim>\<open>epoll_ctl\<close> says.
\<close>

theorem server_memory_safe:
  assumes "loop = EventLoop \<or> loop = EventLoopWithCo" and "epoll_documented ctl"
    and "server_reach loop ctl hs l" and "server_step loop ctl hs l r"
  shows "listener_inv l \<and> (\<forall>e. r = Inl e \<longrightarrow> e = BufferOverflow)"
  using plain.server_safe co.server_safe assms by blast

definition demo_kernel :: kernel where
  "demo_kernel cs c = ctl_fits [c] (interest cs)"

lemma demo_kernel_documented: "epoll_documented demo_kernel"
  by (simp add: epoll_documented_def demo_kernel_def)

lemma demo_start: "server_reach loop demo_kernel hs HttpServer"
    "server_step loop demo_kernel hs HttpServer (ListenClient demo_kernel 7 HttpServer)"
  by (rule server_reach.start, rule server_step.accept) (simp add: HttpServer_def new_worker_def interest_def)

theorem server_memory_safe_witness:
  "listener_inv HttpServer \<and> ListenClient demo_kernel 7 HttpServer \<noteq> Inl UseAfterFree"
  using server_memory_safe [of EventLoop demo_kernel Map.empty HttpServer "ListenClient demo_kernel 7 HttpServer"]
    demo_kernel_documented demo_start by auto

text \<open>
  A request that arrives in one piece is answered. Whatever non-empty bytes a connection that waits
  for a request receives, if the response to them fits the buffer, then however \<^verbatim>\<open>send\<close> cuts it up
  and refuses in between, exactly the printed response goes over the wire; afterwards the
  connection waits for a request again when the request asked to keep it alive, and is removed
  and closed otherwise.
\<close>

theorem request_answered:
  assumes "epoll_documented ctl" and "worker_inv w" and "interest (ctls w) fd = Some (IN_ET, DataPtr p)"
    and "0 < length bytes" and "length bytes \<le> kMaxBufferSize"
    and "respond hs bytes = (req, res)"
    and "length (ResponseToString (req_method req \<noteq> HEAD) res) \<le> kMaxBufferSize"
    and "takes rs (length (ResponseToString (req_method req \<noteq> HEAD) res))"
  shows "\<exists>w'. EventLoop ctl hs (exchange p bytes (fresh w) rs) w = Inr w' \<and> worker_inv w' \<and>
     sent_to fd w' = sent_to fd w @ ResponseToString (req_method req \<noteq> HEAD) res \<and>
     (if GetHeader ''Connection'' req = ''keep-alive''
      then (\<exists>q. interest (ctls w') fd = Some (IN_ET, DataPtr q)) \<and> closed w' = closed w
      else interest (ctls w') fd = None \<and> closed w' = closed w @ [fd])"
proof -
  from exchange_ok [OF assms(1-6) refl assms(7,8)] obtain w' where
    "EventLoop ctl hs (exchange p bytes (fresh w) rs) w = Inr w'" "worker_inv w'"
    "sent_to fd w' = sent_to fd w @ ResponseToString (req_method req \<noteq> HEAD) res"
    "if GetHeader ''Connection'' req = ''keep-alive''
     then (\<exists>q. q \<noteq> p \<and> interest (ctls w') fd = Some (IN_ET, DataPtr q)) \<and> closed w' = closed w
     else interest (ctls w') fd = None \<and> closed w' = closed w @ [fd]" by blast
  then show ?thesis by (intro exI [of _ w']) (auto split: if_splits)
qed

text \<open>A worker with one client, descriptor 7.\<close>

definition demo_worker :: worker where
  "demo_worker = new_worker\<lparr>heap := [1 \<mapsto> EventData\<lparr>ed_fd := 7\<rparr>], fresh := 2, ctls := [ctl_arg CtlAdd 7 IN_ET 1]\<rparr>"

lemma demo_worker_ok: "worker_inv demo_worker" "interest (ctls demo_worker) 7 = Some (IN_ET, DataPtr 1)"
  by (auto simp: demo_worker_def new_worker_def worker_inv_def interest_def data_ok_def ctl_step_def ctl_arg_def split: if_splits)

lemma demo_respond:
  "respond Map.empty ''x'' = (HttpRequest, error_response (InvalidArgument
     ''[HttpRequest::FromString] cannot find start line in request message''))"
  by code_simp

lemma demo_response_length:
  "length (ResponseToString (req_method HttpRequest \<noteq> HEAD) (error_response (InvalidArgument
     ''[HttpRequest::FromString] cannot find start line in request message''))) = 117"
  by code_simp

theorem request_answered_witness:
  "\<exists>w'. EventLoop demo_kernel Map.empty (exchange 1 ''x'' 2 [Sent 100, SendError EAGAIN, Sent 17]) demo_worker = Inr w' \<and>
     closed w' = [7]"
  using request_answered [OF demo_kernel_documented demo_worker_ok, of "''x''" Map.empty HttpRequest _ "[Sent 100, SendError EAGAIN, Sent 17]"]
    demo_respond demo_response_length
  by (auto simp: demo_worker_def new_worker_def kMaxBufferSize_def GetHeader_def HttpRequest_def)

text \<open>
  C27: a request in the form of the protocol is answered by the handler that was registered first for its method
  and for its path up to the first question mark, called with the parsed request: what it returns,
  or the error response of the exception it throws. The answer is 405 when only other methods of this
  path were registered, and 404 when nothing was.
\<close>

theorem respond_routes:
  assumes "word_ok p" and "v \<noteq> HTTP_2_0" and "list_all header_ok hs"
    and "hs = [] \<longrightarrow> find_str (CRLF @ CRLF) (CRLF @ body) = None"
  shows "\<exists>req. FromString (wire_request m p v hs body) HttpRequest = (None, req) \<and>
     req_method req = m \<and> path req = p \<and> content req = (if hs = [] then [] else body) \<and>
     respond (registered_handlers regs) (wire_request m p v hs body) =
       (req, let q = takeWhile (\<lambda>c. c \<noteq> CHR ''?'') p in
             if q \<notin> fst ` set regs then HttpResponse NotFound
             else case find (\<lambda>(p', m', _). p' = q \<and> m' = m) regs of
                    None \<Rightarrow> HttpResponse MethodNotAllowed
                  | Some (_, _, h) \<Rightarrow> (case h req of Inl e \<Rightarrow> error_response e | Inr res \<Rightarrow> res))"
proof -
  obtain req where req: "FromString (wire_request m p v hs body) HttpRequest = (None, req)"
      "req_method req = m" "path req = p" "content req = (if hs = [] then [] else body)"
    unfolding FromString_wire_request [OF assms] by (simp add: SetContent_def SetContentLength_def fold_SetHeaders)
  moreover have "respond (registered_handlers regs) (wire_request m p v hs body) =
      (req, case HandleRequestMessage (registered_handlers regs) req of Inl e \<Rightarrow> error_response e | Inr res \<Rightarrow> res)"
    by (simp add: respond_def req(1) split: sum.split)
  ultimately show ?thesis by (auto simp: registered_lookup Let_def split: option.split)
qed

theorem respond_routes_witness:
  "\<exists>req. respond (registered_handlers [(''/a'', POST, \<lambda>r. Inr (HttpResponse Ok)), (''/a'', GET, \<lambda>r. Inr (HttpResponse Created))])
     (wire_request GET ''/a?x=1'' HTTP_1_1 [(''Host'', ''h'')] []) = (req, HttpResponse Created)"
  using respond_routes [of "''/a?x=1''" HTTP_1_1 "[(''Host'', ''h'')]" "[]" GET
      "[(''/a'', POST, \<lambda>r. Inr (HttpResponse Ok)), (''/a'', GET, \<lambda>r. Inr (HttpResponse Created))]"]
  by (auto simp: word_ok_def header_ok_def isspace_def CR_def LF_def)

text \<open>
  Registering a handler changes the answers at its path and method only, and not even those when a
  handler is registered there already; a path that had no handler answers its other methods
  with 405 from then on.
\<close>

theorem RegisterHttpRequestHandler_first_wins:
  "HandleRequestMessage (RegisterHttpRequestHandler p m h hs) req =
     (if route_path (path req) \<noteq> p then HandleRequestMessage hs req
      else case hs p of
        None \<Rightarrow> if req_method req = m then h req else Inr (HttpResponse MethodNotAllowed)
      | Some row \<Rightarrow> if req_method req = m \<and> row m = None then h req else HandleRequestMessage hs req)"
  by (auto simp: HandleRequestMessage_def RegisterHttpRequestHandler_def Let_def split: option.splits)

text \<open>
  Every exchange leaves the object of its request behind: it stays allocated, and no entry of the
  interest list points to it any more.
\<close>

theorem request_object_leaks:
  assumes "epoll_documented ctl" and "worker_inv w" and "interest (ctls w) fd = Some (IN_ET, DataPtr p)"
    and "0 < length bytes" and "length bytes \<le> kMaxBufferSize"
    and "respond hs bytes = (req, res)"
    and "length (ResponseToString (req_method req \<noteq> HEAD) res) \<le> kMaxBufferSize"
    and "takes rs (length (ResponseToString (req_method req \<noteq> HEAD) res))"
  shows "\<exists>w'. EventLoop ctl hs (exchange p bytes (fresh w) rs) w = Inr w' \<and> heap w' p \<noteq> None \<and>
     (\<forall>fd' evs. interest (ctls w') fd' \<noteq> Some (evs, DataPtr p))"
proof -
  from exchange_ok [OF assms(1-6) refl assms(7,8)] obtain w' where
    w': "EventLoop ctl hs (exchange p bytes (fresh w) rs) w = Inr w'" "worker_inv w'"
      "map_option ed_fd (heap w' p) = Some fd"
    "if GetHeader ''Connection'' req = ''keep-alive''
     then (\<exists>q. q \<noteq> p \<and> interest (ctls w') fd = Some (IN_ET, DataPtr q)) \<and> closed w' = closed w
     else interest (ctls w') fd = None \<and> closed w' = closed w @ [fd]" by blast
  have "interest (ctls w') fd' \<noteq> Some (evs, DataPtr p)" for fd' evs
  proof
    assume reg: "interest (ctls w') fd' = Some (evs, DataPtr p)"
    then obtain d where "heap w' p = Some d" "ed_fd d = fd'"
      by (rule worker_inv_conn [OF w'(2)])
    with w'(3,4) reg show False by (auto split: if_splits)
  qed
  with w'(1,3) show ?thesis by blast
qed

theorem request_object_leaks_witness:
  "\<exists>w'. EventLoop demo_kernel Map.empty (exchange 1 ''x'' 2 [Sent 117]) demo_worker = Inr w' \<and> heap w' 1 \<noteq> None"
  using request_object_leaks [OF demo_kernel_documented demo_worker_ok, of "''x''" Map.empty HttpRequest _ "[Sent 117]"]
    demo_respond demo_response_length
  by (auto simp: demo_worker_def new_worker_def kMaxBufferSize_def)

end
