(* ===== verification/Http_Session.thy ===== *)
theory Http_Session
  imports Http_Server_Laws
begin

text \<open>
  The loops of the server's threads (\<^verbatim>\<open>src/src/http_server.cc\<close>), which add nothing to the events they are
  given, and what a client sends in a session with what it has to get.
\<close>

section \<open>The loops of the threads\<close>

text \<open>How often a worker sleeps: once before every round that follows an idle one.\<close>

fun idle_before :: "bool \<Rightarrow> 'a list list \<Rightarrow> nat" where
  "idle_before act [] = 0"
| "idle_before act (b # bs) = (if act then 0 else 1) + idle_before (b \<noteq> []) bs"

lemma WorkerLoop_concat:
  "WorkerLoop ctl hs batches (w, act, naps) =
     res_bind (EventLoop ctl hs (concat batches) w)
       (\<lambda>w'. Inr (w', if batches = [] then act else last batches \<noteq> [], naps + idle_before act batches))"
proof (induction batches arbitrary: w act naps)
  case (Cons b bs)
  show ?case
  proof (cases "b = []")
    case True
    with Cons show ?thesis by (simp add: Let_def)
  next
    case False
    then show ?thesis by (simp add: Cons Let_def EventLoop_append res_bind_assoc)
  qed
qed simp

lemma EventLoopWithCo_append:
  "EventLoopWithCo ctl hs (evs @ evs') w = res_bind (EventLoopWithCo ctl hs evs w) (EventLoopWithCo ctl hs evs')"
  by (induction evs arbitrary: w) (auto simp: res_bind_assoc intro: res_bind_cong)

lemma WorkerLoopWithCo_concat: "WorkerLoopWithCo ctl hs batches w = EventLoopWithCo ctl hs (concat batches) w"
  by (induction batches arbitrary: w) (auto simp: EventLoopWithCo_append intro: res_bind_cong)

text \<open>The listener deals its clients to the workers in turn, and skips the rounds without one.\<close>

lemma ListenLoop_idle:
  assumes "\<forall>fd\<in>set fds. fd < 0"
  shows "\<exists>naps'. ListenLoop ctl fds (l, naps, out) = Inr (l\<lparr>active := active l \<and> fds = []\<rparr>, naps', out) \<and> naps \<le> naps'"
  using assms
proof (induction fds arbitrary: l naps)
  case (Cons fd fds)
  let ?naps = "if \<not> active l then naps + 1 else naps"
  obtain naps' where "ListenLoop ctl fds (l\<lparr>active := False\<rparr>, ?naps, out) = Inr (l\<lparr>active := False\<rparr>, naps', out)" "?naps \<le> naps'"
    using Cons.IH [of "l\<lparr>active := False\<rparr>" ?naps] Cons.prems by auto
  with Cons.prems show ?case by (intro exI [of _ naps']) (auto simp: ListenClient_def Let_def split: if_splits)
qed simp

section \<open>Sessions\<close>

text \<open>
  A request as the client sends it, with what \<^verbatim>\<open>send\<close> does with the response. The pointer of the
  connection is the one that \<^verbatim>\<open>epoll\<close> holds at that moment.
\<close>

type_synonym request_run = "string \<times> send_result list"

definition client_ptr :: "int \<Rightarrow> worker \<Rightarrow> addr" where
  "client_ptr fd w = (case interest (ctls w) fd of Some (_, DataPtr p) \<Rightarrow> p | _ \<Rightarrow> 0)"

definition reply :: "handlers \<Rightarrow> string \<Rightarrow> string" where
  "reply hs bytes = (case respond hs bytes of (req, res) \<Rightarrow> ResponseToString (req_method req \<noteq> HEAD) res)"

definition asks_alive :: "handlers \<Rightarrow> string \<Rightarrow> bool" where
  "asks_alive hs bytes \<longleftrightarrow> GetHeader ''Connection'' (fst (respond hs bytes)) = ''keep-alive''"

definition run_fits :: "handlers \<Rightarrow> request_run \<Rightarrow> bool" where
  "run_fits hs x \<longleftrightarrow> 0 < length (fst x) \<and> length (fst x) \<le> kMaxBufferSize \<and>
     length (reply hs (fst x)) \<le> kMaxBufferSize \<and> takes (snd x) (length (reply hs (fst x)))"

text \<open>Two requests: one for a path without a handler that keeps the connection, and one that is no request.\<close>

definition first_demo :: request_run where
  "first_demo = (wire_request GET ''/a'' HTTP_1_1 [(''Connection'', ''keep-alive'')] [], [Sent 20, SendError EAGAIN, Sent 8])"

definition second_demo :: request_run where
  "second_demo = (''x'', [Sent 100, SendError EAGAIN, Sent 17])"

lemma first_demo_ok: "run_fits Map.empty first_demo" "asks_alive Map.empty (fst first_demo)"
  by code_simp+

lemma second_demo_ok: "run_fits Map.empty second_demo" "\<not> asks_alive Map.empty (fst second_demo)"
  using demo_respond demo_response_length
  by (simp_all add: second_demo_def run_fits_def reply_def kMaxBufferSize_def asks_alive_def GetHeader_def HttpRequest_def)

end
