(* ===== verification/Http_Automata.thy ===== *)
theory Http_Automata
  imports Http_Session
begin

text \<open>
  A worker of the HTTP server as a product of automata, one for each connection. The automaton knows the
  bytes still to be sent and nothing of objects, pointers, cursors and \<^verbatim>\<open>epoll\<close>. Both event
  loops of \<^verbatim>\<open>src/src/http_server.cc\<close> refine it, whatever events of different connections they see in
  which order: what a client gets depends on its own events only.
\<close>

section \<open>The automaton of a connection\<close>

datatype conn = Gone | Awaiting | Answering string bool

text \<open>What a connection shows: its state, the bytes sent on it, and how often its descriptor was closed.\<close>

type_synonym conn_view = "conn \<times> string \<times> nat"

datatype client_event = CanRead recv_result | CanWrite send_result | HangUp

fun conn_step :: "handlers \<Rightarrow> client_event \<Rightarrow> conn_view \<Rightarrow> conn_view" where
  "conn_step hs (CanRead (Received bytes)) (Awaiting, out, n) =
     (if bytes = [] then (Gone, out, Suc n) else (Answering (reply hs bytes) (asks_alive hs bytes), out, n))"
| "conn_step hs (CanRead (RecvError e)) (Awaiting, out, n) = (if e = EAGAIN then (Awaiting, out, n) else (Gone, out, Suc n))"
| "conn_step hs (CanWrite (Sent k)) (Answering rest keep, out, n) =
     (if 0 < k then (Answering (drop k rest) keep, out @ take k rest, n)
      else if keep then (Awaiting, out, n) else (Gone, out, Suc n))"
| "conn_step hs (CanWrite (SendError e)) (Answering rest keep, out, n) =
     (if e = EAGAIN then (Answering rest keep, out, n) else (Gone, out, Suc n))"
| "conn_step hs HangUp (c, out, n) = (Gone, out, Suc n)"
| "conn_step hs _ v = v"

text \<open>
  The events the kernel reports: only those the connection waits for, with results of \<^verbatim>\<open>recv\<close> and \<^verbatim>\<open>send\<close>
  within the sizes it was given.
\<close>

fun event_fits :: "client_event \<Rightarrow> conn \<Rightarrow> bool" where
  "event_fits (CanRead (Received bytes)) Awaiting \<longleftrightarrow> length bytes \<le> kMaxBufferSize"
| "event_fits (CanRead (RecvError e)) Awaiting \<longleftrightarrow> True"
| "event_fits (CanWrite (Sent k)) (Answering rest keep) \<longleftrightarrow> k \<le> length rest"
| "event_fits (CanWrite (SendError e)) (Answering rest keep) \<longleftrightarrow> True"
| "event_fits HangUp c \<longleftrightarrow> c \<noteq> Gone"
| "event_fits _ _ \<longleftrightarrow> False"

text \<open>The one event that goes wrong: a request whose response does not fit the buffer of the server.\<close>

fun overflows :: "handlers \<Rightarrow> client_event \<Rightarrow> conn \<Rightarrow> bool" where
  "overflows hs (CanRead (Received bytes)) Awaiting \<longleftrightarrow> bytes \<noteq> [] \<and> kMaxBufferSize < length (reply hs bytes)"
| "overflows hs _ _ \<longleftrightarrow> False"

text \<open>Events of many connections in the order of their handling, up to the first that goes wrong.\<close>

fun schedule_fits :: "handlers \<Rightarrow> (int \<times> client_event) list \<Rightarrow> (int \<Rightarrow> conn_view) \<Rightarrow> bool" where
  "schedule_fits hs [] V \<longleftrightarrow> True"
| "schedule_fits hs ((fd, ev) # xs) V \<longleftrightarrow>
     event_fits ev (fst (V fd)) \<and> (overflows hs ev (fst (V fd)) \<or> schedule_fits hs xs (V(fd := conn_step hs ev (V fd))))"

fun schedule_overflows :: "handlers \<Rightarrow> (int \<times> client_event) list \<Rightarrow> (int \<Rightarrow> conn_view) \<Rightarrow> bool" where
  "schedule_overflows hs [] V \<longleftrightarrow> False"
| "schedule_overflows hs ((fd, ev) # xs) V \<longleftrightarrow>
     overflows hs ev (fst (V fd)) \<or> schedule_overflows hs xs (V(fd := conn_step hs ev (V fd)))"

text \<open>Whether it comes to that is a matter of each connection alone.\<close>

fun conn_overflows :: "handlers \<Rightarrow> client_event list \<Rightarrow> conn_view \<Rightarrow> bool" where
  "conn_overflows hs [] v \<longleftrightarrow> False"
| "conn_overflows hs (ev # evs) v \<longleftrightarrow> overflows hs ev (fst v) \<or> conn_overflows hs evs (conn_step hs ev v)"

definition events_of :: "int \<Rightarrow> (int \<times> client_event) list \<Rightarrow> client_event list" where
  "events_of fd xs = map snd (filter (\<lambda>x. fst x = fd) xs)"

text \<open>The automata side by side: each takes its own events.\<close>

definition product :: "handlers \<Rightarrow> (int \<times> client_event) list \<Rightarrow> (int \<Rightarrow> conn_view) \<Rightarrow> int \<Rightarrow> conn_view" where
  "product hs xs V fd = fold (conn_step hs) (events_of fd xs) (V fd)"

lemma product_Nil [simp]: "product hs [] V = V"
  by (simp add: product_def events_of_def fun_eq_iff)

lemma product_Cons [simp]: "product hs ((fd, ev) # xs) V = product hs xs (V(fd := conn_step hs ev (V fd)))"
  by (simp add: product_def events_of_def fun_eq_iff)

lemma product_append: "product hs (xs @ ys) V = product hs ys (product hs xs V)"
  by (induction xs arbitrary: V) auto

lemma schedule_overflows_append:
  "schedule_overflows hs (xs @ ys) V \<longleftrightarrow> schedule_overflows hs xs V \<or> schedule_overflows hs ys (product hs xs V)"
  by (induction xs arbitrary: V) auto

lemma schedule_fits_append:
  "schedule_fits hs (xs @ ys) V \<longleftrightarrow>
     schedule_fits hs xs V \<and> (schedule_overflows hs xs V \<or> schedule_fits hs ys (product hs xs V))"
  by (induction xs arbitrary: V) auto

lemma schedule_overflows_conn: "schedule_overflows hs xs V \<longleftrightarrow> (\<exists>fd. conn_overflows hs (events_of fd xs) (V fd))"
proof (induction xs arbitrary: V)
  case (Cons x xs)
  obtain fd ev where x: "x = (fd, ev)" by (cases x)
  have "events_of fd' ((fd, ev) # xs) = (if fd' = fd then ev # events_of fd xs else events_of fd' xs)" for fd'
    by (simp add: events_of_def)
  then show ?case unfolding x schedule_overflows.simps Cons by (auto split: if_splits; metis fun_upd_other fun_upd_same)
qed (simp add: events_of_def)

section \<open>The connections of a worker\<close>

definition conn_of :: "int \<Rightarrow> worker \<Rightarrow> conn" where
  "conn_of fd w =
     (case interest (ctls w) fd of
        Some (evs, DataPtr p) \<Rightarrow>
          (case heap w p of
             Some d \<Rightarrow> if evs = IN_ET then Awaiting else Answering (outbox w p) (keep_alive d)
           | None \<Rightarrow> Gone)
      | _ \<Rightarrow> Gone)"

definition view :: "worker \<Rightarrow> int \<Rightarrow> conn_view" where
  "view w fd = (conn_of fd w, sent_to fd w, count_list (closed w) fd)"

text \<open>The event as \<^verbatim>\<open>epoll_wait\<close> reports it, with the pointer registered at that moment.\<close>

fun kernel_event :: "int \<Rightarrow> client_event \<Rightarrow> worker \<Rightarrow> event" where
  "kernel_event fd (CanRead rcv) w = (EPOLLIN, client_ptr fd w, rcv, SendError 0)"
| "kernel_event fd (CanWrite snt) w = (EPOLLOUT, client_ptr fd w, RecvError 0, snt)"
| "kernel_event fd HangUp w = (EPOLLHUP, client_ptr fd w, RecvError 0, SendError 0)"

text \<open>Rounds of a loop: each handles what \<^verbatim>\<open>epoll_wait\<close> reports at its start.\<close>

fun wait_rounds ::
  "(event list \<Rightarrow> worker \<Rightarrow> server_error + worker) \<Rightarrow> (int \<times> client_event) list list \<Rightarrow> worker \<Rightarrow> server_error + worker" where
  "wait_rounds loop [] w = Inr w"
| "wait_rounds loop (xs # xss) w =
     res_bind (loop (map (\<lambda>(fd, ev). kernel_event fd ev w) xs) w) (wait_rounds loop xss)"

text \<open>A state of the automaton tells what the worker has registered.\<close>

lemma in_out_et: "OUT_ET \<noteq> IN_ET"
  by (simp add: EPOLLIN_def EPOLLOUT_def EPOLLET_def)

lemma conn_of_awaiting:
  assumes "worker_inv w" and "interest (ctls w) fd = Some (IN_ET, DataPtr p)"
  shows "conn_of fd w = Awaiting"
  by (rule worker_inv_conn [OF assms]) (simp add: conn_of_def assms(2))

lemma conn_of_answering:
  assumes "interest (ctls w) fd = Some (OUT_ET, DataPtr p)" and "heap w p = Some d"
  shows "conn_of fd w = Answering (outbox w p) (keep_alive d)"
  by (simp add: conn_of_def assms in_out_et)

lemma conn_of_cases:
  assumes inv: "worker_inv w"
  obtains (gone) "interest (ctls w) fd = None" "conn_of fd w = Gone"
    | (awaiting) p d where "interest (ctls w) fd = Some (IN_ET, DataPtr p)" "heap w p = Some d" "ed_fd d = fd"
        "conn_of fd w = Awaiting"
    | (answering) p d where "interest (ctls w) fd = Some (OUT_ET, DataPtr p)" "heap w p = Some d" "ed_fd d = fd"
        "conn_of fd w = Answering (outbox w p) (keep_alive d)"
proof (cases "interest (ctls w) fd")
  case None
  then show thesis by (intro gone) (simp_all add: conn_of_def)
next
  case (Some x)
  obtain evs dat where x: "x = (evs, dat)" by (cases x)
  with inv Some have "conn_ok w fd evs dat" unfolding worker_inv_def by blast
  then obtain p d where p: "dat = DataPtr p" "heap w p = Some d" "data_ok fd evs d" by (cases dat) auto
  then consider "evs = IN_ET" "ed_fd d = fd" | "evs = OUT_ET" "ed_fd d = fd" unfolding data_ok_def by blast
  then show thesis
  proof cases
    case 1
    then have "interest (ctls w) fd = Some (IN_ET, DataPtr p)" using Some x p(1) by simp
    from awaiting [OF this p(2) 1(2) conn_of_awaiting [OF inv this]] show thesis .
  next
    case 2
    then have "interest (ctls w) fd = Some (OUT_ET, DataPtr p)" using Some x p(1) by simp
    from answering [OF this p(2) 2(2) conn_of_answering [OF this p(2)]] show thesis .
  qed
qed

text \<open>Handling an event of one descriptor leaves the views of the others.\<close>

lemma count_replicate: "count_list (replicate n x) y = (if x = y then n else 0)"
  by (induction n) auto

lemma conn_of_other:
  assumes inv: "worker_inv w" and other: "other_fds fd w w'" and ne: "fd' \<noteq> fd"
  shows "conn_of fd' w' = conn_of fd' w"
proof -
  have reg: "interest (ctls w') fd' = interest (ctls w) fd'" using other ne by (simp add: other_fds_def)
  have kept: "heap w' p = Some d" if "heap w p = Some d" "ed_fd d = fd'" for p d
    using other ne that by (simp add: other_fds_def)
  show ?thesis
  proof (rule conn_of_cases [OF inv, of fd'])
    fix p d assume "interest (ctls w) fd' = Some (OUT_ET, DataPtr p)" "heap w p = Some d" "ed_fd d = fd'"
    with kept [of p d] show ?thesis by (simp add: conn_of_def outbox_def reg)
  next
    fix p d assume "interest (ctls w) fd' = Some (IN_ET, DataPtr p)" "heap w p = Some d" "ed_fd d = fd'"
    with kept [of p d] show ?thesis by (simp add: conn_of_def outbox_def reg)
  qed (simp add: conn_of_def reg)
qed

text \<open>The outcome of an event of \<open>fd\<close>.\<close>

definition becomes :: "worker \<Rightarrow> int \<Rightarrow> conn_view \<Rightarrow> worker \<Rightarrow> bool" where
  "becomes w fd v w' \<longleftrightarrow> worker_inv w' \<and> view w' = (view w)(fd := v) \<and>
     (\<forall>fd'. fd' \<noteq> fd \<longrightarrow> client_ptr fd' w' = client_ptr fd' w)"

lemma becomesI:
  assumes "worker_inv w" and "worker_inv w'" "other_fds fd w w'" and "conn_of fd w' = c"
    and "sent w' = sent w @ map (Pair fd) ss" and "closed w' = closed w @ replicate n fd"
  shows "becomes w fd (c, sent_to fd w @ concat ss, count_list (closed w) fd + n) w'"
proof -
  have out: "filter (\<lambda>x. fst x = fd') (map (Pair fd) ss) = (if fd' = fd then map (Pair fd) ss else [])" for fd'
    by (simp add: filter_map comp_def)
  have "sent_to fd' w' = sent_to fd' w @ (if fd' = fd then concat ss else [])" for fd'
    by (simp add: sent_to_def assms(5) out comp_def)
  moreover have "count_list (closed w') fd' = count_list (closed w) fd' + (if fd' = fd then n else 0)" for fd'
    by (simp add: assms(6) count_replicate)
  ultimately have "view w' fd' = ((view w)(fd := (c, sent_to fd w @ concat ss, count_list (closed w) fd + n))) fd'" for fd'
    using assms(4) conn_of_other [OF assms(1,3)] by (simp add: view_def)
  with assms(2,3) show ?thesis by (simp add: becomes_def fun_eq_iff other_fds_def client_ptr_def)
qed

lemmas becomes_quiet = becomesI [where ss = "[]", simplified]
lemmas becomes_stays = becomes_quiet [where n = 0, simplified]
lemmas becomes_closed = becomes_quiet [where n = 1, simplified]

section \<open>Steps of a connection\<close>

lemma drop_becomes:
  assumes ker: "epoll_documented ctl" and inv: "worker_inv w" and reg: "interest (ctls w) fd \<noteq> None"
    and d: "heap w p = Some d" "ed_fd d = fd"
  shows "\<exists>w'. drop_client ctl fd p w = Inr w' \<and> becomes w fd (Gone, sent_to fd w, Suc (count_list (closed w) fd)) w'"
proof -
  let ?w = "free p (close_fd fd (w\<lparr>ctls := ctls w @ [ctl_arg CtlDel fd 0 0]\<rparr>))"
  have run: "drop_client ctl fd p w = Inr ?w"
    using Control_registered(1) [OF ker reg, of CtlDel 0 0] by (simp add: drop_client_def)
  with drop_client_ok [OF assms] have "worker_inv ?w" "other_fds fd w ?w" by simp_all
  then have "becomes w fd (Gone, sent_to fd w, Suc (count_list (closed w) fd)) ?w"
    by (intro becomes_closed [OF inv]) (simp_all add: conn_of_def worker_simps)
  with run show ?thesis by blast
qed

lemma again_becomes:
  assumes ker: "epoll_documented ctl" and inv: "worker_inv w" and reg: "interest (ctls w) fd = Some (evs, DataPtr p)"
  shows "\<exists>w'. ControlEpollEvent ctl CtlMod fd evs p w = Inr w' \<and> becomes w fd (view w fd) w'"
proof -
  from inv have fresh: "0 < fresh w" "\<forall>p\<ge>fresh w. heap w p = None" and conn: "conn_ok w fd evs (DataPtr p)"
    using reg unfolding worker_inv_def by blast+
  have reg': "interest (ctls w) fd \<noteq> None" using reg by simp
  obtain w' where w': "ControlEpollEvent ctl CtlMod fd evs p w = Inr w'" "worker_inv w'" "other_fds fd w w'"
    "interest (ctls w') fd = (if CtlMod = CtlDel then None else Some (evs, DataPtr p))"
    "heap w' = heap w" "closed w' = closed w" "sent w' = sent w"
    by (rule Control_ok [OF ker inv reg', of CtlMod w evs p]) (use fresh conn in simp_all)
  then have "outbox w' p = outbox w p" by (simp add: outbox_def)
  then have "conn_of fd w' = conn_of fd w" using reg w' by (simp add: conn_of_def split: option.split)
  then have "becomes w fd (view w fd) w'" unfolding view_def using w' by (intro becomes_stays [OF inv]) simp_all
  with w'(1) show ?thesis by blast
qed

lemma receive_becomes:
  assumes ker: "epoll_documented ctl" and inv: "worker_inv w" and reg: "interest (ctls w) fd = Some (IN_ET, DataPtr p)"
    and d: "heap w p = Some d" and bytes: "bytes \<noteq> []" "length bytes \<le> kMaxBufferSize"
    and fits: "length (reply hs bytes) \<le> kMaxBufferSize"
  shows "\<exists>w'. on_readable ctl hs (Received bytes) p w = Inr w' \<and>
    becomes w fd (Answering (reply hs bytes) (asks_alive hs bytes), sent_to fd w, count_list (closed w) fd) w'"
proof -
  let ?d = "d\<lparr>ed_buf := memcpy_at 0 bytes (ed_buf d), ed_length := length bytes\<rparr>"
  from worker_inv_conn [OF inv reg] d have p: "deref p w = Inr d" "ed_fd d = fd" "data_ok fd IN_ET d" by auto
  then have buf: "take (length bytes) (memcpy_at 0 bytes (ed_buf d)) = bytes"
    using memcpy_prefix [of bytes "ed_buf d"] bytes(2) by (simp add: data_ok_def)
  obtain response where r: "HandleRequestData hs ?d (EventData\<lparr>ed_fd := fd\<rparr>) = Inr response"
    using fits by (auto simp: HandleRequestData_def buf reply_def Let_def split: prod.splits)
  note props = HandleRequestData_Inr(2-) [OF r, simplified, unfolded buf]
  from receive_request [OF ker inv reg d r] obtain w' where w':
    "ControlEpollEvent ctl CtlMod fd OUT_ET (fresh w) (snd (alloc response (store p ?d w))) = Inr w'"
    "worker_inv w'" "other_fds fd w w'" "interest (ctls w') fd = Some (OUT_ET, DataPtr (fresh w))"
    "heap w' (fresh w) = Some response" "sent w' = sent w" "closed w' = closed w" by metis
  have "conn_of fd w' = Answering (reply hs bytes) (asks_alive hs bytes)"
    using conn_of_answering [OF w'(4,5)] props w'(5) by (simp add: outbox_def reply_def asks_alive_def)
  then have "becomes w fd (Answering (reply hs bytes) (asks_alive hs bytes), sent_to fd w, count_list (closed w) fd) w'"
    by (intro becomes_stays [OF inv w'(2,3)]) (simp_all add: w')
  moreover have "on_readable ctl hs (Received bytes) p w = Inr w'"
    using w'(1) r p bytes(1) by (simp add: on_readable_def Let_def alloc_simps(1) helper_simps(2))
  ultimately show ?thesis by blast
qed

text \<open>The effect of a successful \<^verbatim>\<open>send\<close> on the object, with or without a call of \<^verbatim>\<open>epoll_ctl\<close>.\<close>

lemma sent_becomes:
  assumes inv: "worker_inv w" "worker_inv w'" "other_fds fd w w'"
    and reg: "interest (ctls w) fd = Some (OUT_ET, DataPtr p)" "interest (ctls w') fd = Some (OUT_ET, DataPtr p)"
    and d: "heap w p = Some d" "k \<le> length (outbox w p)"
    and heap: "heap w' = (heap w)(p \<mapsto> d\<lparr>ed_cursor := ed_cursor d + k, ed_length := ed_length d - k\<rparr>)"
    and out: "sent w' = sent w @ [(fd, take k (drop (ed_cursor d) (ed_buf d)))]" "closed w' = closed w"
  shows "becomes w fd (Answering (drop k (outbox w p)) (keep_alive d), sent_to fd w @ take k (outbox w p),
    count_list (closed w) fd) w'"
proof -
  let ?s = "take k (drop (ed_cursor d) (ed_buf d))"
  from worker_inv_conn [OF inv(1) reg(1)] d(1) have ok: "data_ok fd OUT_ET d" by auto
  then have len: "length (outbox w p) = ed_length d" by (auto simp: outbox_def d(1) data_ok_def)
  with d(2) have k: "k \<le> ed_length d" by simp
  have box: "outbox w p = ?s @ outbox w' p"
    using outbox_sent [OF d(1) ok k, of w'] by (simp add: heap)
  have "length ?s = k" using ok k by (auto simp: data_ok_def)
  with box have "take k (outbox w p) = ?s" "drop k (outbox w p) = outbox w' p" by simp_all
  moreover have "conn_of fd w' = Answering (outbox w' p) (keep_alive d)"
    using conn_of_answering [OF reg(2)] by (simp add: heap)
  ultimately show ?thesis
    using becomesI [OF inv, where ss = "[?s]" and n = 0] by (simp add: out)
qed

lemma finish_becomes:
  assumes ker: "epoll_documented ctl" and inv: "worker_inv w" and reg: "interest (ctls w) fd = Some (OUT_ET, DataPtr p)"
    and d: "heap w p = Some d"
  shows "\<exists>w'. on_writable ctl (Sent 0) p w = Inr w' \<and>
    becomes w fd (if keep_alive d then (Awaiting, sent_to fd w, count_list (closed w) fd)
                  else (Gone, sent_to fd w, Suc (count_list (closed w) fd))) w'"
proof -
  from worker_inv_conn [OF inv reg] d have p: "deref p w = Inr d" "ed_fd d = fd" by auto
  show ?thesis
  proof (cases "keep_alive d")
    case True
    from write_end_alive [OF ker inv reg d] obtain w' where w':
      "ControlEpollEvent ctl CtlMod fd IN_ET (fresh w) (snd (alloc (EventData\<lparr>ed_fd := fd\<rparr>) (free p w))) = Inr w'"
      "worker_inv w'" "other_fds fd w w'" "interest (ctls w') fd = Some (IN_ET, DataPtr (fresh w))"
      "sent w' = sent w" "closed w' = closed w" by metis
    then have "becomes w fd (Awaiting, sent_to fd w, count_list (closed w) fd) w'"
      by (intro becomes_stays [OF inv]) (simp_all add: conn_of_awaiting)
    with True p w'(1) show ?thesis by (auto simp: on_writable_def Let_def alloc_simps(1) helper_simps)
  next
    case False
    from write_end_close [OF ker inv reg d] obtain w' where w': "ControlEpollEvent ctl CtlDel fd 0 0 (free p w) = Inr w'"
      "worker_inv (close_fd fd w')" "other_fds fd w (close_fd fd w')" "interest (ctls w') fd = None"
      "sent w' = sent w" "closed w' = closed w" by metis
    then have "becomes w fd (Gone, sent_to fd w, Suc (count_list (closed w) fd)) (close_fd fd w')"
      by (intro becomes_closed [OF inv]) (simp_all add: conn_of_def helper_simps)
    with False p w'(1) show ?thesis by (auto simp: on_writable_def Let_def)
  qed
qed

text \<open>What an event that fits says of the worker.\<close>

lemma fits_cases:
  assumes inv: "worker_inv w" and fits: "event_fits ev (conn_of fd w)"
  obtains (hang) p d where "ev = HangUp" "interest (ctls w) fd \<noteq> None" "heap w p = Some d" "ed_fd d = fd" "client_ptr fd w = p"
      "deref p w = Inr d"
    | (readable) p d rcv where "ev = CanRead rcv" "interest (ctls w) fd = Some (IN_ET, DataPtr p)" "heap w p = Some d" "ed_fd d = fd"
      "client_ptr fd w = p" "deref p w = Inr d" "event_fits ev Awaiting" "conn_of fd w = Awaiting" "view w fd = (Awaiting, sent_to fd w, count_list (closed w) fd)"
    | (writable) p d snt where "ev = CanWrite snt" "interest (ctls w) fd = Some (OUT_ET, DataPtr p)" "heap w p = Some d" "ed_fd d = fd"
      "client_ptr fd w = p" "deref p w = Inr d" "event_fits ev (Answering (outbox w p) (keep_alive d))"
      "view w fd = (Answering (outbox w p) (keep_alive d), sent_to fd w, count_list (closed w) fd)"
proof -
  have ptr: "client_ptr fd w = p" "deref p w = Inr d"
    if "interest (ctls w) fd = Some (evs, DataPtr p)" "heap w p = Some d" for evs p d
    using that worker_inv_conn [OF inv that(1)] by (auto simp: client_ptr_def)
  show thesis
  proof (rule conn_of_cases [OF inv, of fd])
    assume "interest (ctls w) fd = None" "conn_of fd w = Gone"
    with fits show thesis by (cases ev rule: client_event.exhaust) auto
  next
    fix p d assume here: "interest (ctls w) fd = Some (IN_ET, DataPtr p)" "heap w p = Some d" "ed_fd d = fd" "conn_of fd w = Awaiting"
    note ptr = ptr [OF here(1,2)]
    show thesis
    proof (cases ev)
      case (CanRead rcv)
      from readable [OF this here(1-3) ptr _ here(4)] fits here(4) show thesis by (simp add: view_def)
    next
      case HangUp
      from hang [OF this _ here(2,3) ptr] here(1) show thesis by simp
    qed (use fits here(4) in simp)
  next
    fix p d assume here: "interest (ctls w) fd = Some (OUT_ET, DataPtr p)" "heap w p = Some d" "ed_fd d = fd"
      "conn_of fd w = Answering (outbox w p) (keep_alive d)"
    note ptr = ptr [OF here(1,2)]
    show thesis
    proof (cases ev)
      case (CanWrite snt)
      from writable [OF this here(1-3) ptr] fits here(4) show thesis by (simp add: view_def)
    next
      case HangUp
      from hang [OF this _ here(2,3) ptr] here(1) show thesis by simp
    qed (use fits here(4) in simp)
  qed
qed

lemma readable_becomes:
  assumes ker: "epoll_documented ctl" and inv: "worker_inv w" and reg: "interest (ctls w) fd = Some (IN_ET, DataPtr p)"
    and d: "heap w p = Some d" "ed_fd d = fd" "deref p w = Inr d" and fits: "event_fits (CanRead rcv) Awaiting" "\<not> overflows hs (CanRead rcv) Awaiting"
    and seen: "view w fd = (Awaiting, sent_to fd w, count_list (closed w) fd)"
  shows "\<exists>w'. on_readable ctl hs rcv p w = Inr w' \<and> becomes w fd (conn_step hs (CanRead rcv) (view w fd)) w'"
proof -
  have reg': "interest (ctls w) fd \<noteq> None" using reg by simp
  note drop = drop_becomes [OF ker inv reg' d(1,2)]
  show ?thesis
  proof (cases rcv)
    case (Received bytes)
    then show ?thesis
      using receive_becomes [OF ker inv reg d(1), of bytes hs] drop fits d
      by (cases "bytes = []") (simp_all add: seen on_readable_def Let_def)
  next
    case (RecvError e)
    then show ?thesis
      using again_becomes [OF ker inv reg] drop d by (simp add: seen on_readable_def Let_def)
  qed
qed

text \<open>A response that does not fit is written past the end of the buffer.\<close>

lemma readable_overflows:
  assumes inv: "worker_inv w" and reg: "interest (ctls w) fd = Some (IN_ET, DataPtr p)"
    and d: "heap w p = Some d" and fits: "event_fits (CanRead rcv) Awaiting" and over: "overflows hs (CanRead rcv) Awaiting"
  shows "on_readable ctl hs rcv p w = Inl BufferOverflow"
proof -
  obtain bytes where b: "rcv = Received bytes" "bytes \<noteq> []" "kMaxBufferSize < length (reply hs bytes)" "length bytes \<le> kMaxBufferSize"
    using over fits by (cases rcv) auto
  from worker_inv_conn [OF inv reg] d have p: "deref p w = Inr d" "data_ok fd IN_ET d" by auto
  then have "take (length bytes) (memcpy_at 0 bytes (ed_buf d)) = bytes"
    using memcpy_prefix [of bytes "ed_buf d"] b(4) by (simp add: data_ok_def)
  with b p(1) show ?thesis by (simp add: on_readable_def HandleRequestData_def reply_def Let_def split: prod.splits)
qed

lemma writable_becomes:
  assumes ker: "epoll_documented ctl" and inv: "worker_inv w" and reg: "interest (ctls w) fd = Some (OUT_ET, DataPtr p)"
    and d: "heap w p = Some d" "ed_fd d = fd" "deref p w = Inr d"
    and fits: "event_fits (CanWrite snt) (Answering (outbox w p) (keep_alive d))"
    and seen: "view w fd = (Answering (outbox w p) (keep_alive d), sent_to fd w, count_list (closed w) fd)"
  shows "\<exists>w'. on_writable ctl snt p w = Inr w' \<and> becomes w fd (conn_step hs (CanWrite snt) (view w fd)) w'"
proof (cases snt)
  case (Sent k)
  show ?thesis
  proof (cases "k = 0")
    case True
    then show ?thesis using finish_becomes [OF ker inv reg d(1)] by (simp add: Sent seen)
  next
    case False
    from Sent fits have k: "k \<le> length (outbox w p)" by simp
    then have "k \<le> ed_length d" by (simp add: outbox_def d(1))
    from write_some_ctl [OF ker inv reg d(1) _ this] False obtain w' where w': "on_writable ctl (Sent k) p w = Inr w'"
      "worker_inv w'" "other_fds fd w w'" "interest (ctls w') fd = Some (OUT_ET, DataPtr p)"
      "heap w' = (heap w)(p \<mapsto> d\<lparr>ed_cursor := ed_cursor d + k, ed_length := ed_length d - k\<rparr>)"
      "sent w' = sent w @ [(fd, take k (drop (ed_cursor d) (ed_buf d)))]" "closed w' = closed w" by (metis gr0I)
    from sent_becomes [OF inv w'(2,3) reg w'(4) d(1) k w'(5-7)] w'(1) False show ?thesis by (simp add: Sent seen)
  qed
next
  case (SendError e)
  have reg': "interest (ctls w) fd \<noteq> None" using reg by simp
  then show ?thesis
    using SendError again_becomes [OF ker inv reg] drop_becomes [OF ker inv reg' d(1,2)] d
    by (simp add: seen on_writable_def Let_def)
qed

section \<open>Both event loops follow the automata\<close>

lemma hup_bits [simp]: "EPOLLHUP AND EPOLLHUP \<noteq> 0"
  by (simp add: EPOLLHUP_def)

locale connection_steps = connection_loop +
  assumes follows: "epoll_documented ctl \<Longrightarrow> worker_inv w \<Longrightarrow> event_fits ev (conn_of fd w) \<Longrightarrow> \<not> overflows hs ev (conn_of fd w) \<Longrightarrow>
    \<exists>w'. step ctl hs (kernel_event fd ev w) w = Inr w' \<and> becomes w fd (conn_step hs ev (view w fd)) w'"
    and fails: "epoll_documented ctl \<Longrightarrow> worker_inv w \<Longrightarrow> event_fits ev (conn_of fd w) \<Longrightarrow> overflows hs ev (conn_of fd w) \<Longrightarrow>
    step ctl hs (kernel_event fd ev w) w = Inl BufferOverflow"
begin

lemma kernel_event_cong: "client_ptr fd w = client_ptr fd w' \<Longrightarrow> kernel_event fd ev w = kernel_event fd ev w'"
  by (cases ev) simp_all

text \<open>Within a round each descriptor is reported once, so that the pointers of the report stay current.\<close>

lemma round_follows:
  assumes "epoll_documented ctl" and "worker_inv w" and "schedule_fits hs xs (view w)" and "distinct (map fst xs)"
    and "\<forall>fd\<in>fst ` set xs. client_ptr fd w = client_ptr fd w0"
  shows "if schedule_overflows hs xs (view w)
    then loop ctl hs (map (\<lambda>(fd, ev). kernel_event fd ev w0) xs) w = Inl BufferOverflow
    else \<exists>w'. loop ctl hs (map (\<lambda>(fd, ev). kernel_event fd ev w0) xs) w = Inr w' \<and> worker_inv w' \<and> view w' = product hs xs (view w)"
  using assms(2-5)
proof (induction xs arbitrary: w)
  case Nil
  then show ?case by (simp add: loop_Nil)
next
  case (Cons x xs)
  obtain fd ev where x: "x = (fd, ev)" by (cases x)
  with Cons.prems have fits: "event_fits ev (conn_of fd w)" by (simp add: view_def)
  have ev: "kernel_event fd ev w0 = kernel_event fd ev w" using kernel_event_cong [of fd w0 w ev] Cons.prems(4) by (simp add: x)
  show ?case
  proof (cases "overflows hs ev (conn_of fd w)")
    case True
    from fails [OF assms(1) Cons.prems(1) fits True] True show ?thesis by (simp add: x ev loop_Cons view_def)
  next
    case False
    from follows [OF assms(1) Cons.prems(1) fits False] obtain w1 where w1: "step ctl hs (kernel_event fd ev w) w = Inr w1"
      "worker_inv w1" "view w1 = (view w)(fd := conn_step hs ev (view w fd))" "\<forall>fd'. fd' \<noteq> fd \<longrightarrow> client_ptr fd' w1 = client_ptr fd' w"
      unfolding becomes_def by blast
    have ptrs: "\<forall>fd'\<in>fst ` set xs. client_ptr fd' w1 = client_ptr fd' w0"
    proof
      fix fd' assume in_xs: "fd' \<in> fst ` set xs"
      with Cons.prems(3) x have "fd' \<noteq> fd" by auto
      with w1(4) Cons.prems(4) in_xs show "client_ptr fd' w1 = client_ptr fd' w0" by auto
    qed
    have not: "\<not> overflows hs ev (fst (view w fd))" using False by (simp add: view_def)
    then have "schedule_fits hs xs (view w1)" "distinct (map fst xs)" using Cons.prems(2,3) x w1(3) by simp_all
    from Cons.IH [OF w1(2) this ptrs] not show ?thesis
      unfolding x list.map prod.case ev loop_Cons w1(1) schedule_overflows.simps product_Cons w1(3) [symmetric] by simp
  qed
qed

lemma rounds_follow:
  assumes "epoll_documented ctl" and "worker_inv w" and "schedule_fits hs (concat xss) (view w)"
    and "\<forall>xs\<in>set xss. distinct (map fst xs)"
  shows "if schedule_overflows hs (concat xss) (view w) then wait_rounds (loop ctl hs) xss w = Inl BufferOverflow
    else \<exists>w'. wait_rounds (loop ctl hs) xss w = Inr w' \<and> worker_inv w' \<and> view w' = product hs (concat xss) (view w)"
  using assms(2-4)
proof (induction xss arbitrary: w)
  case (Cons xs xss)
  then have fits: "schedule_fits hs xs (view w)" "distinct (map fst xs)" by (simp_all add: schedule_fits_append)
  note round = round_follows [OF assms(1) Cons.prems(1) fits, of w, simplified]
  show ?case
  proof (cases "schedule_overflows hs xs (view w)")
    case True
    with round show ?thesis by (simp add: schedule_overflows_append)
  next
    case False
    with round obtain w1 where
      w1: "loop ctl hs (map (\<lambda>(fd, ev). kernel_event fd ev w) xs) w = Inr w1" "worker_inv w1" "view w1 = product hs xs (view w)"
      by auto
    then have "schedule_fits hs (concat xss) (view w1)" using Cons.prems(2) False by (simp add: schedule_fits_append)
    from Cons.IH [OF w1(2) this, unfolded w1(3)] False Cons.prems(3) show ?thesis
      unfolding concat.simps wait_rounds.simps w1(1) product_append schedule_overflows_append by simp
  qed
qed simp

end

interpretation plain_steps: connection_steps loop_event EventLoop
proof
  fix ctl w hs ev fd
  assume pre: "epoll_documented ctl" "worker_inv w" and fits: "event_fits ev (conn_of fd w)"
  show "\<exists>w'. loop_event ctl hs (kernel_event fd ev w) w = Inr w' \<and> becomes w fd (conn_step hs ev (view w fd)) w'"
    if fine: "\<not> overflows hs ev (conn_of fd w)"
    using pre(2) fits
  proof (cases rule: fits_cases)
    case (hang p d)
    with drop_becomes [OF pre hang(2-4)] show ?thesis by (simp add: loop_event_def view_def)
  next
    case (readable p d rcv)
    with readable_becomes [OF pre readable(2-4,6), of rcv hs] fine show ?thesis by (simp add: loop_read_event)
  next
    case (writable p d snt)
    with writable_becomes [OF pre writable(2-4,6), of snt hs] show ?thesis
      by (simp add: loop_write_event [unfolded write_event_def])
  qed
  show "loop_event ctl hs (kernel_event fd ev w) w = Inl BufferOverflow" if over: "overflows hs ev (conn_of fd w)"
    using pre(2) fits
  proof (cases rule: fits_cases)
    case (readable p d rcv)
    with readable_overflows [OF pre(2) readable(2,3)] over show ?thesis by (simp add: loop_read_event)
  qed (use over in \<open>auto simp: view_def elim: overflows.elims\<close>)
qed

text \<open>The loop with coroutines leaves out the calls of \<^verbatim>\<open>epoll_ctl\<close> that would change nothing.\<close>

lemma becomes_same: "worker_inv w \<Longrightarrow> becomes w fd (view w fd) w"
  by (simp add: becomes_def)

lemma co_reads:
  assumes "deref p w = Inr d" and "ed_fd d = fd"
  shows "loop_event_co ctl hs (EPOLLIN, p, rcv, snt) w = (if rcv = RecvError EAGAIN then Inr w else on_readable ctl hs rcv p w)"
  using assms
  by (cases rcv) (simp_all add: loop_event_co_def HandleReadEvent_def on_readable_def Let_def res_bind_assoc alloc_simps(1))

lemma co_writes:
  assumes "deref p w = Inr d" and "ed_fd d = fd"
  shows "loop_event_co ctl hs (EPOLLOUT, p, rcv, snt) w =
    (case snt of
       SendError e \<Rightarrow> if e = EAGAIN then Inr w else on_writable ctl snt p w
     | Sent k \<Rightarrow> if 0 < k
         then Inr ((store p (d\<lparr>ed_cursor := ed_cursor d + k, ed_length := ed_length d - k\<rparr>) w)
                \<lparr>sent := sent w @ [(fd, take k (drop (ed_cursor d) (ed_buf d)))]\<rparr>)
         else on_writable ctl snt p w)"
  using assms
  by (cases snt) (simp_all add: loop_event_co_def HandleWriteEvent_def on_writable_def Let_def res_bind_assoc alloc_simps(1) helper_simps)

interpretation co_steps: connection_steps loop_event_co EventLoopWithCo
proof
  fix ctl w hs ev fd
  assume pre: "epoll_documented ctl" "worker_inv w" and fits: "event_fits ev (conn_of fd w)"
  show "loop_event_co ctl hs (kernel_event fd ev w) w = Inl BufferOverflow" if over: "overflows hs ev (conn_of fd w)"
    using pre(2) fits
  proof (cases rule: fits_cases)
    case (readable p d rcv)
    with readable_overflows [OF pre(2) readable(2,3)] over show ?thesis by (auto simp: co_reads)
  qed (use over in \<open>auto simp: view_def elim: overflows.elims\<close>)
  show "\<exists>w'. loop_event_co ctl hs (kernel_event fd ev w) w = Inr w' \<and> becomes w fd (conn_step hs ev (view w fd)) w'"
    if fine: "\<not> overflows hs ev (conn_of fd w)"
    using pre(2) fits
  proof (cases rule: fits_cases)
    case (hang p d)
    with drop_becomes [OF pre hang(2-4)] show ?thesis by (simp add: loop_event_co_def view_def)
  next
    case (readable p d rcv)
    with readable_becomes [OF pre readable(2-4,6), of rcv hs] becomes_same [OF pre(2), of fd] fine show ?thesis
      by (simp add: co_reads)
  next
    case (writable p d snt)
    consider (some) k where "snt = Sent k" "0 < k" | (again) "snt = SendError EAGAIN"
      | (rest) "loop_event_co ctl hs (EPOLLOUT, p, RecvError 0, snt) w = on_writable ctl snt p w"
      using co_writes [OF writable(6,4), of ctl hs "RecvError 0" snt] by (cases snt) (auto split: if_splits)
    then show ?thesis
    proof cases
      case some
      let ?s = "sent w @ [(fd, take k (drop (ed_cursor d) (ed_buf d)))]"
      from writable(1,7) some have k: "k \<le> length (outbox w p)" by simp
      then have "k \<le> ed_length d" by (simp add: outbox_def writable(3))
      note w1 = write_some [OF pre(2) writable(2,3) this, where s = ?s]
      from sent_becomes [OF pre(2) w1(1,2) writable(2) _ writable(3) k] w1(3) writable(2)
      show ?thesis using some by (simp add: writable(1,5,8) co_writes [OF writable(6,4)] helper_simps)
    next
      case again
      with becomes_same [OF pre(2), of fd] show ?thesis by (simp add: writable(1,5,8) co_writes [OF writable(6,4)])
    next
      case rest
      with writable_becomes [OF pre writable(2-4,6), of snt hs] writable show ?thesis by simp
    qed
  qed
qed

section \<open>What the automaton of a connection does with requests\<close>

text \<open>A request in one piece, then the results of \<^verbatim>\<open>send\<close> on its response up to the one that finds nothing to send.\<close>

definition request_events :: "request_run \<Rightarrow> client_event list" where
  "request_events x = CanRead (Received (fst x)) # map CanWrite (snd x @ [Sent 0])"

lemma takes_answers:
  assumes "takes rs (length rest)"
  shows "fold (conn_step hs) (map CanWrite rs) (Answering rest keep, out, n) = (Answering [] keep, out @ rest, n)"
  using assms
proof (induction rs "length rest" arbitrary: rest out rule: takes.induct)
  case (2 k rs)
  from 2(1) [of "drop k rest"] 2(2) show ?case by simp
qed simp_all

lemma request_runs:
  assumes "run_fits hs x"
  shows "fold (conn_step hs) (request_events x) (Awaiting, out, n) =
    (if asks_alive hs (fst x) then (Awaiting, out @ reply hs (fst x), n) else (Gone, out @ reply hs (fst x), Suc n))"
proof -
  have "fst x \<noteq> []" "takes (snd x) (length (reply hs (fst x)))" using assms by (auto simp: run_fits_def)
  then show ?thesis by (simp add: request_events_def takes_answers)
qed

lemma requests_run:
  assumes "\<forall>x\<in>set (xs @ [x0]). run_fits hs x" and "\<forall>x\<in>set xs. asks_alive hs (fst x)"
  shows "fold (conn_step hs) (concat (map request_events (xs @ [x0]))) (Awaiting, out, n) =
    (if asks_alive hs (fst x0) then (Awaiting, out @ concat (map (reply hs \<circ> fst) (xs @ [x0])), n)
     else (Gone, out @ concat (map (reply hs \<circ> fst) (xs @ [x0])), Suc n))"
  using assms by (induction xs arbitrary: out) (simp_all add: request_runs)

text \<open>None of these events goes wrong.\<close>

lemma conn_overflows_append:
  "conn_overflows hs (evs @ evs') v \<longleftrightarrow> conn_overflows hs evs v \<or> conn_overflows hs evs' (fold (conn_step hs) evs v)"
  by (induction evs arbitrary: v) auto

lemma writes_fit: "\<not> conn_overflows hs (map CanWrite rs) v"
  by (induction rs arbitrary: v) simp_all

lemma requests_fit:
  assumes "\<forall>x\<in>set (xs @ [x0]). run_fits hs x" and "\<forall>x\<in>set xs. asks_alive hs (fst x)"
  shows "\<not> conn_overflows hs (concat (map request_events (xs @ [x0]))) (Awaiting, out, n)"
proof -
  have one: "\<not> conn_overflows hs (request_events x) (Awaiting, out, n)" if "run_fits hs x" for x out
    using that writes_fit [of hs "snd x @ [Sent 0]"] by (simp add: request_events_def run_fits_def)
  from assms show ?thesis
    by (induction xs arbitrary: out) (simp_all add: one conn_overflows_append request_runs)
qed

lemma loops_follow:
  assumes "loop = EventLoop \<or> loop = EventLoopWithCo" and "epoll_documented ctl" and "worker_inv w"
    and "schedule_fits hs (concat xss) (view w)" and "\<forall>xs\<in>set xss. distinct (map fst xs)"
  shows "if \<exists>fd. conn_overflows hs (events_of fd (concat xss)) (view w fd) then wait_rounds (loop ctl hs) xss w = Inl BufferOverflow
    else \<exists>w'. wait_rounds (loop ctl hs) xss w = Inr w' \<and> worker_inv w' \<and>
      (\<forall>fd. view w' fd = fold (conn_step hs) (events_of fd (concat xss)) (view w fd))"
  using assms(1)
proof
  assume "loop = EventLoop"
  with plain_steps.rounds_follow [OF assms(2-), unfolded schedule_overflows_conn product_def fun_eq_iff] show ?thesis by (simp only:)
next
  assume "loop = EventLoopWithCo"
  with co_steps.rounds_follow [OF assms(2-), unfolded schedule_overflows_conn product_def fun_eq_iff] show ?thesis by (simp only:)
qed

section \<open>Properties of the loops\<close>

text \<open>
  C10: The server refines a product of automata: whatever events of however many connections
  \<^verbatim>\<open>epoll_wait\<close> reports in whatever order and rounds, each descriptor at most once in a round and only for what it
  is registered for, the outcome of both event loops is decided by each connection alone. If some
  connection sends a request whose response is longer than the buffer of 4096 bytes, the run ends in
  the overflow of that buffer. Otherwise no error occurs, and every connection ends in the
  state, with the bytes sent and the number of closes, that its own automaton gives for its own events.
\<close>

theorem worker_refines_connections:
  assumes "loop = EventLoop \<or> loop = EventLoopWithCo" and "epoll_documented ctl" and "worker_inv w"
    and "schedule_fits hs (concat xss) (view w)" and "\<forall>xs\<in>set xss. distinct (map fst xs)"
  shows "if \<exists>fd. conn_overflows hs (events_of fd (concat xss)) (view w fd) then wait_rounds (loop ctl hs) xss w = Inl BufferOverflow
    else \<exists>w'. wait_rounds (loop ctl hs) xss w = Inr w' \<and> worker_inv w' \<and>
      (\<forall>fd. view w' fd = fold (conn_step hs) (events_of fd (concat xss)) (view w fd))"
  using assms by (rule loops_follow)

text \<open>Two clients, one of which hangs up while the other is answered.\<close>

definition two_clients :: worker where
  "two_clients = new_worker\<lparr>heap := [1 \<mapsto> EventData\<lparr>ed_fd := 7\<rparr>, 2 \<mapsto> EventData\<lparr>ed_fd := 8\<rparr>], fresh := 3,
     ctls := [ctl_arg CtlAdd 7 IN_ET 1, ctl_arg CtlAdd 8 IN_ET 2]\<rparr>"

lemma two_clients_ok: "worker_inv two_clients" "view two_clients 7 = (Awaiting, [], 0)" "view two_clients 8 = (Awaiting, [], 0)"
  by (auto simp: worker_inv_def two_clients_def new_worker_def data_ok_def interest_def ctl_step_def ctl_arg_def view_def
      conn_of_def sent_to_def split: if_splits)

definition rounds_demo :: "(int \<times> client_event) list list" where
  "rounds_demo = [[(7, CanRead (Received (fst first_demo))), (8, CanRead (RecvError EAGAIN))],
     [(7, CanWrite (Sent 20))], [(8, HangUp), (7, CanWrite (SendError EAGAIN))], [(7, CanWrite (Sent 8))], [(7, CanWrite (Sent 0))],
     [(7, CanRead (Received (fst second_demo)))], [(7, CanWrite (Sent 100))], [(7, CanWrite (SendError EAGAIN))], [],
     [(7, CanWrite (Sent 17))], [(7, CanWrite (Sent 0))]]"

lemma rounds_demo_ok:
  "schedule_fits Map.empty (concat rounds_demo) (view two_clients)" "\<forall>xs\<in>set rounds_demo. distinct (map fst xs)"
  "events_of 7 (concat rounds_demo) = concat (map request_events ([first_demo] @ [second_demo]))"
  "events_of 8 (concat rounds_demo) = [CanRead (RecvError EAGAIN), HangUp]"
  "\<not> conn_overflows Map.empty (events_of fd (concat rounds_demo)) (view two_clients fd)"
proof -
  have a: "length (reply Map.empty (fst first_demo)) = 28" "fst first_demo \<noteq> []" "length (fst first_demo) \<le> kMaxBufferSize"
    by code_simp+
  have b: "length (reply Map.empty (fst second_demo)) = 117" "fst second_demo \<noteq> []" "length (fst second_demo) \<le> kMaxBufferSize"
    using demo_respond demo_response_length by (simp_all add: second_demo_def reply_def kMaxBufferSize_def HttpRequest_def)
  show "schedule_fits Map.empty (concat rounds_demo) (view two_clients)"
    using a b first_demo_ok(2) by (simp add: rounds_demo_def two_clients_ok kMaxBufferSize_def)
  show "\<not> conn_overflows Map.empty (events_of fd (concat rounds_demo)) (view two_clients fd)"
    using a b first_demo_ok(2)
    by (cases "fd = 7"; cases "fd = 8") (simp_all add: rounds_demo_def events_of_def two_clients_ok kMaxBufferSize_def)
qed (simp_all add: rounds_demo_def events_of_def request_events_def first_demo_def second_demo_def)

lemma demo_requests: "\<forall>x\<in>set ([first_demo] @ [second_demo]). run_fits Map.empty x" "\<forall>x\<in>set [first_demo]. asks_alive Map.empty (fst x)"
  using first_demo_ok second_demo_ok by simp_all

theorem worker_refines_connections_witness:
  "\<exists>w'. wait_rounds (EventLoopWithCo demo_kernel Map.empty) rounds_demo two_clients = Inr w' \<and>
    view w' 7 = (Gone, reply Map.empty (fst first_demo) @ reply Map.empty (fst second_demo), 1) \<and> view w' 8 = (Gone, [], 1)"
proof -
  from worker_refines_connections [OF _ demo_kernel_documented two_clients_ok(1) rounds_demo_ok(1,2), of EventLoopWithCo] rounds_demo_ok(5)
  obtain w' where "wait_rounds (EventLoopWithCo demo_kernel Map.empty) rounds_demo two_clients = Inr w'"
    and views: "\<forall>fd. view w' fd = fold (conn_step Map.empty) (events_of fd (concat rounds_demo)) (view two_clients fd)" by (auto split: if_splits)
  moreover have "view w' 7 = (Gone, reply Map.empty (fst first_demo) @ reply Map.empty (fst second_demo), 1)"
    using views [rule_format, of 7, unfolded rounds_demo_ok(3) two_clients_ok(2) requests_run [OF demo_requests]] second_demo_ok(2)
    by simp
  moreover have "view w' 8 = (Gone, [], 1)"
    using views [rule_format, of 8, unfolded rounds_demo_ok(4) two_clients_ok(3)] by simp
  ultimately show ?thesis by blast
qed

text \<open>
  C16: A session whose events the kernel reports is answered. A client sends non-empty requests one after the other on
  a connection, each received in one piece of at most 4096 bytes, with a response of at most 4096 bytes,
  and all but the last asking to keep the connection; for each of them the kernel reports the request,
  then, for as long as it takes, the descriptor as writable, until a \<^verbatim>\<open>send\<close> finds nothing left. Then however
  \<^verbatim>\<open>send\<close> cuts up and refuses the responses, and whatever events of other connections come in between (as
  long as their responses fit the buffer too), in both event loops the client receives exactly the
  printed responses in the order of its requests; afterwards the connection waits for a request if the
  last one asked for it and is removed and closed once otherwise.
\<close>

theorem sessions_interleave:
  assumes "loop = EventLoop \<or> loop = EventLoopWithCo" and "epoll_documented ctl" and "worker_inv w"
    and "schedule_fits hs (concat xss) (view w)" and "\<forall>xs\<in>set xss. distinct (map fst xs)"
    and others: "\<forall>fd'. fd' \<noteq> fd \<longrightarrow> \<not> conn_overflows hs (events_of fd' (concat xss)) (view w fd')"
    and "conn_of fd w = Awaiting" and "events_of fd (concat xss) = concat (map request_events (xs @ [x0]))"
    and "\<forall>x\<in>set (xs @ [x0]). run_fits hs x" and "\<forall>x\<in>set xs. asks_alive hs (fst x)"
  shows "\<exists>w'. wait_rounds (loop ctl hs) xss w = Inr w' \<and> worker_inv w' \<and>
    sent_to fd w' = sent_to fd w @ concat (map (reply hs \<circ> fst) (xs @ [x0])) \<and>
    conn_of fd w' = (if asks_alive hs (fst x0) then Awaiting else Gone) \<and>
    count_list (closed w') fd = count_list (closed w) fd + (if asks_alive hs (fst x0) then 0 else 1)"
proof -
  have v: "view w fd = (Awaiting, sent_to fd w, count_list (closed w) fd)" by (simp add: view_def assms(7))
  have "\<not> conn_overflows hs (events_of fd (concat xss)) (view w fd)"
    unfolding assms(8) v by (rule requests_fit [OF assms(9,10)])
  with others have "\<not> (\<exists>fd. conn_overflows hs (events_of fd (concat xss)) (view w fd))" by metis
  then obtain w' where w': "wait_rounds (loop ctl hs) xss w = Inr w'" "worker_inv w'"
    "view w' fd = fold (conn_step hs) (concat (map request_events (xs @ [x0]))) (view w fd)"
    using loops_follow [OF assms(1-5)] unfolding assms(8) [symmetric] by (auto split: if_splits)
  with v requests_run [OF assms(9,10)] have "view w' fd =
    (if asks_alive hs (fst x0) then (Awaiting, sent_to fd w @ concat (map (reply hs \<circ> fst) (xs @ [x0])), count_list (closed w) fd)
     else (Gone, sent_to fd w @ concat (map (reply hs \<circ> fst) (xs @ [x0])), Suc (count_list (closed w) fd)))" by simp
  with w'(1,2) show ?thesis by (intro exI [of _ w']) (auto simp: view_def split: if_splits)
qed

theorem sessions_interleave_witness:
  "\<exists>w'. wait_rounds (EventLoop demo_kernel Map.empty) rounds_demo two_clients = Inr w' \<and>
    sent_to 7 w' = reply Map.empty (fst first_demo) @ reply Map.empty (fst second_demo) \<and> conn_of 7 w' = Gone"
proof -
  have here: "conn_of 7 two_clients = Awaiting" "sent_to 7 two_clients = []"
    using two_clients_ok(2) by (simp_all add: view_def)
  from sessions_interleave [OF _ demo_kernel_documented two_clients_ok(1) rounds_demo_ok(1,2) _ here(1) rounds_demo_ok(3) demo_requests, of EventLoop]
    rounds_demo_ok(5)
  show ?thesis using second_demo_ok(2) by (auto simp: here(2))
qed

end
