(* ===== verification/Http_Hooked.thy ===== *)
theory Http_Hooked
  imports Http_Automata Blocking_Io
begin

text \<open>
  The HTTP server on the hooked system calls. The library replaces \<^verbatim>\<open>recv\<close>, \<^verbatim>\<open>send\<close> and \<^verbatim>\<open>close\<close> for the whole
  program, so the calls of \<^verbatim>\<open>src/src/http_server.cc\<close> go through \<^verbatim>\<open>hook.cc\<close> too, and the coroutines of its second
  event loop live in the scheduler of the worker's thread. Here both loops run on such a thread: the
  state is the worker with its thread.
\<close>

section \<open>The loop with coroutines\<close>

datatype hooked_error = ServerError server_error | HookError hook_error

definition of_server :: "server_error + 'a \<Rightarrow> hooked_error + 'a" where
  "of_server r = (case r of Inl e \<Rightarrow> Inl (ServerError e) | Inr x \<Rightarrow> Inr x)"

definition of_hook :: "hook_error + 'a \<Rightarrow> hooked_error + 'a" where
  "of_hook r = (case r of Inl e \<Rightarrow> Inl (HookError e) | Inr x \<Rightarrow> Inr x)"

text \<open>The results of the calls as the server looks at them; \<open>bytes\<close> is what the kernel has for the reader.\<close>

definition recv_of :: "string \<Rightarrow> sys_result \<Rightarrow> recv_result" where
  "recv_of bytes r = (if fst r < 0 then RecvError (snd r) else Received (take (nat (fst r)) bytes))"

definition send_of :: "sys_result \<Rightarrow> send_result" where
  "send_of r = (if fst r < 0 then SendError (snd r) else Sent (nat (fst r)))"

text \<open>The descriptors that a step of the worker has closed are closed with the hooked call.\<close>

fun hooked_closes :: "int list \<Rightarrow> 'k thread \<Rightarrow> hook_error + 'k thread" where
  "hooked_closes [] th = Inr th"
| "hooked_closes (fd # fds) th = res_bind (Hook.close fd th) (hooked_closes fds)"

definition finish_step :: "worker \<Rightarrow> worker \<Rightarrow> 'k thread \<Rightarrow> hooked_error + worker \<times> 'k thread" where
  "finish_step w w1 th =
     res_bind (of_hook (hooked_closes (drop (length (closed w)) (closed w1)) th)) (\<lambda>th1. Inr (w1, th1))"

text \<open>
  A new coroutine for one event, from its creation to the yield that gives the loop the thread back. Its
  first act is the hooked call; when that is refused, the coroutine stays inside it.
\<close>

record depths =
  at_resume :: nat
  at_io :: nat
  at_yield :: nat

definition run_co ::
  "(nat \<Rightarrow> bool) \<Rightarrow> depths \<Rightarrow> sys_call \<Rightarrow> int \<Rightarrow> sys_result \<times> sys_result \<Rightarrow> (sys_result \<Rightarrow> server_error + addr \<times> worker) \<Rightarrow>
   worker \<Rightarrow> 'k thread \<Rightarrow> hooked_error + worker \<times> 'k thread" where
  "run_co malloc sp call fd rs body w th =
     (case CreateCoroutine malloc CoroutineAttr (sched th) of
        Inl e \<Rightarrow> Inl (HookError (CoError e))
      | Inr (c, _, s) \<Rightarrow>
          res_bind (of_hook (lift_co th (Coroutine.Resume c (at_resume sp) s))) (\<lambda>th1.
          res_bind (of_hook (do_io fd (snd (wrapper call)) (at_io sp) [(fst rs, snd rs, id)] th1)) (\<lambda>(answer, th2).
            case answer of
              None \<Rightarrow> Inr (w, th2)
            | Some r \<Rightarrow>
                res_bind (of_server (body r)) (\<lambda>(_, w1).
                res_bind (finish_step w w1 th2) (\<lambda>(w2, th3).
                res_bind (of_hook (lift_co th3 (Yield (at_yield sp) (sched th3)))) (\<lambda>th4. Inr (w2, th4)))))))"

text \<open>An event with the answers of the kernel: the call's, that of the call repeated after a signal, and the bytes.\<close>

type_synonym hooked_event = "u32 \<times> addr \<times> sys_result \<times> sys_result \<times> string"

definition hooked_event_co ::
  "kernel \<Rightarrow> handlers \<Rightarrow> (nat \<Rightarrow> bool) \<Rightarrow> depths \<Rightarrow> hooked_event \<Rightarrow> worker \<times> 'k thread \<Rightarrow> hooked_error + worker \<times> 'k thread" where
  "hooked_event_co ctl hs malloc sp ev st =
     (case (ev, st) of ((events, p, r1, r2, bytes), (w, th)) \<Rightarrow>
        res_bind (of_server (deref p w)) (\<lambda>d.
          if events AND EPOLLHUP \<noteq> 0 \<or> events AND EPOLLERR \<noteq> 0
          then res_bind (of_server (drop_client ctl (ed_fd d) p w)) (\<lambda>w1. finish_step w w1 th)
          else if events AND EPOLLIN \<noteq> 0
          then run_co malloc sp sys_recv (ed_fd d) (r1, r2) (\<lambda>r. HandleReadEvent ctl hs (recv_of bytes r) (ed_fd d) p w) w th
          else if events AND EPOLLOUT \<noteq> 0
          then run_co malloc sp sys_send (ed_fd d) (r1, r2) (\<lambda>r. HandleWriteEvent ctl (send_of r) (ed_fd d) p w) w th
          else res_bind (of_server (drop_client ctl (ed_fd d) p w)) (\<lambda>w1. finish_step w w1 th)))"

fun hooked_loop_co ::
  "kernel \<Rightarrow> handlers \<Rightarrow> (nat \<Rightarrow> bool) \<Rightarrow> depths \<Rightarrow> hooked_event list \<Rightarrow> worker \<times> 'k thread \<Rightarrow> hooked_error + worker \<times> 'k thread" where
  "hooked_loop_co ctl hs malloc sp [] st = Inr st"
| "hooked_loop_co ctl hs malloc sp (ev # evs) st =
     res_bind (hooked_event_co ctl hs malloc sp ev st) (hooked_loop_co ctl hs malloc sp evs)"

section \<open>The loop without coroutines\<close>

text \<open>
  The script has the answers of the one call that the event leads to. The last part of the result
  says whether the event is handled; if not, the call has not returned yet.
\<close>

definition hooked_event ::
  "kernel \<Rightarrow> handlers \<Rightarrow> nat \<Rightarrow> u32 \<Rightarrow> addr \<Rightarrow> (sys_result \<times> sys_result) list \<Rightarrow> string \<Rightarrow> worker \<times> 'k thread \<Rightarrow>
   hooked_error + (worker \<times> 'k thread) \<times> bool" where
  "hooked_event ctl hs sp events p script bytes st =
     (case st of (w, th) \<Rightarrow>
        res_bind (of_server (deref p w)) (\<lambda>d.
          if events AND EPOLLHUP \<noteq> 0 \<or> events AND EPOLLERR \<noteq> 0 \<or> events AND EPOLLIN = 0 \<and> events AND EPOLLOUT = 0
          then res_bind (of_server (drop_client ctl (ed_fd d) p w)) (\<lambda>w1.
               res_bind (finish_step w w1 th) (\<lambda>st1. Inr (st1, True)))
          else res_bind (of_hook (do_io (ed_fd d)
                   (snd (wrapper (if events AND EPOLLIN \<noteq> 0 then sys_recv else sys_send))) sp
                   (map (\<lambda>(r1, r2). (r1, r2, id)) script) th)) (\<lambda>(answer, th1).
                 case answer of
                   None \<Rightarrow> Inr ((w, th1), False)
                 | Some r \<Rightarrow>
                     res_bind (of_server (HandleEpollEvent ctl hs (recv_of bytes r) (send_of r) events p w)) (\<lambda>w1.
                     res_bind (finish_step w w1 th1) (\<lambda>st1. Inr (st1, True))))))"

section \<open>Laws of a step\<close>

lemma of_server_simps [simp]: "of_server (Inr x) = Inr x" "of_server (Inl e) = Inl (ServerError e)"
  by (simp_all add: of_server_def)

lemma of_hook_simps [simp]: "of_hook (Inr x) = Inr x" "of_hook (Inl e) = Inl (HookError e)"
  by (simp_all add: of_hook_def)

text \<open>What the steps of the server leave of a thread: its stack of coroutines is as before, with \<open>n\<close> new coroutines that are suspended.\<close>

definition steady :: "'k thread \<Rightarrow> nat \<Rightarrow> int list \<Rightarrow> 'k thread \<Rightarrow> bool" where
  "steady th n fds th' \<longleftrightarrow> thread_ok th' \<and> co_stack (sched th') = co_stack (sched th) \<and>
     length (cos (sched th')) = length (cos (sched th)) + n \<and> GetHookEnable th' = GetHookEnable th \<and>
     closed_fds th' = closed_fds th @ fds"

lemma steady_refl: "thread_ok th \<Longrightarrow> steady th 0 [] th"
  by (simp add: steady_def)

lemma steady_trans: "steady th n fds th1 \<Longrightarrow> steady th1 n' fds' th2 \<Longrightarrow> steady th (n + n') (fds @ fds') th2"
  by (simp add: steady_def)

lemma close_frame: "Hook.close fd th = Inr th' \<Longrightarrow> sched th' = sched th \<and> GetHookEnable th' = GetHookEnable th"
  by (auto simp: close_def lift_ep_def GetHookEnable_def res_bind_eq_Inr split: if_splits sum.splits)

lemma hooked_closes_ok:
  assumes "thread_ok th"
  shows "\<exists>th'. hooked_closes fds th = Inr th' \<and> sched th' = sched th \<and> steady th 0 fds th'"
  using assms
proof (induction fds arbitrary: th)
  case Nil
  then show ?case by (simp add: steady_refl)
next
  case (Cons fd fds)
  obtain th1 where th1: "Hook.close fd th = Inr th1" "thread_ok th1" "sched th1 = sched th"
      "GetHookEnable th1 = GetHookEnable th" "closed_fds th1 = closed_fds th @ [fd]"
    using close_ok [OF Cons.prems] close_frame by blast
  with Cons.IH [OF th1(2)] show ?case by (auto simp: steady_def)
qed

lemma finish_step_ok:
  assumes "thread_ok th" and "closed w1 = closed w @ fds"
  shows "\<exists>th'. finish_step w w1 th = Inr (w1, th') \<and> sched th' = sched th \<and> steady th 0 fds th'"
  using hooked_closes_ok [OF assms(1), of fds] assms(2) by (auto simp: finish_step_def)

lemma ControlEpollEvent_closed: "ControlEpollEvent ctl op fd events p w = Inr w' \<Longrightarrow> closed w' = closed w"
  by (auto simp: ControlEpollEvent_def Let_def split: if_splits)

lemma drop_client_closed: "drop_client ctl fd p w = Inr w' \<Longrightarrow> closed w' = closed w @ [fd]"
  by (auto simp: drop_client_def free_def close_fd_def res_bind_eq_Inr dest: ControlEpollEvent_closed)

lemmas closed_steps = HandleReadEvent_def HandleWriteEvent_def HandleEpollEvent_def on_readable_def on_writable_def
  alloc_def store_def free_def close_fd_def Let_def res_bind_eq_Inr

text \<open>A step of the worker only adds to the closed descriptors.\<close>

lemma HandleReadEvent_closed: "HandleReadEvent ctl hs rcv fd p w = Inr (q, w') \<Longrightarrow> \<exists>fds. closed w' = closed w @ fds"
  by (cases rcv) (auto simp: closed_steps dest!: ControlEpollEvent_closed drop_client_closed split: if_splits)

lemma HandleWriteEvent_closed: "HandleWriteEvent ctl snt fd p w = Inr (q, w') \<Longrightarrow> \<exists>fds. closed w' = closed w @ fds"
  by (cases snt) (auto simp: closed_steps dest!: ControlEpollEvent_closed drop_client_closed split: if_splits)

lemma HandleEpollEvent_closed: "HandleEpollEvent ctl hs rcv snt event p w = Inr w' \<Longrightarrow> \<exists>fds. closed w' = closed w @ fds"
  by (cases "event AND EPOLLIN \<noteq> 0"; cases rcv; cases snt)
    (auto simp: closed_steps dest!: ControlEpollEvent_closed drop_client_closed split: if_splits)

text \<open>The answer that a call gets from the kernel in one round.\<close>

definition kernel_answer :: "bool \<Rightarrow> sys_result \<Rightarrow> sys_result \<Rightarrow> sys_result" where
  "kernel_answer hook r1 r2 = (if hook \<and> r1 = (-1, EINTR) then r2 else r1)"

lemma do_io_answered:
  assumes "thread_ok th" and "kernel_answer (GetHookEnable th) r1 r2 = r" and "\<not> (GetHookEnable th \<and> r = (-1, EAGAIN))"
  shows "\<exists>th'. do_io fd event sp [(r1, r2, id)] th = Inr (Some r, th') \<and> sched th' = sched th \<and> steady th 0 [] th'"
proof (cases "GetHookEnable th")
  case True
  let ?th = "th\<lparr>registry := (registry th)\<lparr>nonblocking := insert fd (nonblocking (registry th))\<rparr>\<rparr>"
  have "steady th 0 [] ?th" using assms(1) by (simp add: steady_def thread_ok_def epoll_inv_def GetHookEnable_def)
  with True assms(2,3) show ?thesis
    by (intro exI [of _ ?th]) (auto simp: do_io_def kernel_answer_def Let_def split: if_splits)
next
  case False
  with assms show ?thesis by (simp add: do_io_def kernel_answer_def steady_refl)
qed

text \<open>A refused call registers the coroutine, and yields unless it is the main one.\<close>

lemma wait_for_outcome:
  assumes ok: "thread_ok th" and ev: "event = READ \<or> event = WRITE"
  shows "\<exists>th'. wait_for fd event sp th = Inr (2 \<le> length (co_stack (sched th)), th') \<and> thread_ok th' \<and>
    GetHookEnable th' = GetHookEnable th \<and> closed_fds th' = closed_fds th \<and>
    (if 2 \<le> length (co_stack (sched th)) then Yield sp (sched th) = Inr (sched th')
     else co_stack (sched th') = co_stack (sched th))"
proof -
  obtain ep where "wait_reg event fd (last (co_stack (sched th))) (registry th) = Inr ep"
    using wait_reg_inv [OF _ ev] ok unfolding thread_ok_def by blast
  from wait_for_ok [OF ok ev this, of sp] obtain s where
    "wait_for fd event sp th = Inr (2 \<le> length (co_stack (sched th)), th\<lparr>registry := ep, sched := s\<rparr>)"
    "thread_ok (th\<lparr>registry := ep, sched := s\<rparr>)"
    "co_stack s = (if 2 \<le> length (co_stack (sched th)) then butlast (co_stack (sched th)) else co_stack (sched th))"
    "2 \<le> length (co_stack (sched th)) \<longrightarrow> Yield sp (sched th) = Inr s" by blast
  then show ?thesis by (intro exI [of _ "th\<lparr>registry := ep, sched := s\<rparr>"]) (auto simp: GetHookEnable_def)
qed

lemma do_io_refused:
  assumes ok: "thread_ok th" and hook: "GetHookEnable th" and ev: "event = READ \<or> event = WRITE"
    and r: "kernel_answer True r1 r2 = (-1, EAGAIN)" and len: "2 \<le> length (co_stack (sched th))"
  shows "\<exists>th'. do_io fd event sp [(r1, r2, id)] th = Inr (None, th') \<and> thread_ok th' \<and>
    GetHookEnable th' = GetHookEnable th \<and> closed_fds th' = closed_fds th \<and> Yield sp (sched th) = Inr (sched th')"
proof -
  let ?th = "th\<lparr>registry := (registry th)\<lparr>nonblocking := insert fd (nonblocking (registry th))\<rparr>\<rparr>"
  have "thread_ok ?th" using ok by (simp add: thread_ok_def epoll_inv_def)
  from wait_for_outcome [OF this ev, of fd sp] len obtain th' where
    "wait_for fd event sp ?th = Inr (True, th')" "thread_ok th'" "GetHookEnable th' = GetHookEnable th"
    "closed_fds th' = closed_fds th" "Yield sp (sched th) = Inr (sched th')" by (auto simp: GetHookEnable_def)
  with hook r show ?thesis by (auto simp: do_io_def kernel_answer_def Let_def split: if_splits)
qed

section \<open>A coroutine for an event\<close>

text \<open>A new coroutine is on top of the main one, and its yield brings the thread back.\<close>

lemma create_and_resume:
  assumes ok: "thread_ok th" and st: "co_stack (sched th) = [m]" and mem: "malloc 65536"
  shows "\<exists>s attr th1. CreateCoroutine malloc CoroutineAttr (sched th) = Inr (length (cos (sched th)), attr, s) \<and>
    lift_co th (Coroutine.Resume (length (cos (sched th))) sp s) = Inr th1 \<and> thread_ok th1 \<and>
    co_stack (sched th1) = [m, length (cos (sched th))] \<and> length (cos (sched th1)) = Suc (length (cos (sched th))) \<and>
    GetHookEnable th1 = GetHookEnable th \<and> closed_fds th1 = closed_fds th"
proof -
  let ?s = "sched th" and ?c = "length (cos (sched th))"
  have inv: "sched_inv ?s" "initialised ?s" "private_stacks ?s" "epoll_inv (registry th)" using ok by (simp_all add: thread_ok_def)
  define s where "s = ?s\<lparr>stacks := stacks ?s @ [\<lparr>occupy_co = None, stack_sz = 65536, stack_buffer = replicate 65536 None\<rparr>],
    cos := cos ?s @ [new_co False (Some (length (stacks ?s)))]\<rparr>"
  have "unat (round_stack (64 * 1024)) = 65536" by (simp add: round_stack_def)
  then obtain attr where cr: "CreateCoroutine malloc CoroutineAttr ?s = Inr (?c, attr, s)"
    using mem inv(2) by (simp add: CreateCoroutine_def CoroutineAttr_def GetThreadSchedule_def AllocStack_def AllocUniqueMemory_def s_def Let_def)
  have m: "m < ?c" "running_co ?s = Some m" "co_st (cos ?s ! m) = CO_RUNNING" using inv(1,2) st by (simp_all add: sched_inv_def)
  have new: "\<not> use_shared_stk (new_co False stk)" "co_st (new_co False stk) = CO_READY" for stk by (simp_all add: new_co_def)
  have s: "initialised s" "private_stacks s" "co_stack s = [m]"
    using inv st new by (auto simp: s_def private_stacks_def nth_append less_Suc_eq)
  obtain s' where s': "Coroutine.Resume ?c sp s = Inr s'" "sched_inv s'" "initialised s'" "private_stacks s'" "co_stack s' = co_stack s @ [?c]"
    by (rule Resume_private [OF sched_inv_Create [OF inv(1) cr] s(1,2), of ?c m sp]) (use m new in \<open>auto simp: s_def nth_append\<close>)
  have "length (cos s') = length (cos s)"
    by (rule Resume_control(5) [OF sched_inv_Create [OF inv(1) cr] s(1) _ _ _ _ s'(1), of m]) (use m new in \<open>auto simp: s_def nth_append\<close>)
  then have "length (cos s') = Suc ?c" by (simp add: s_def)
  with cr s' s(3) inv(4) show ?thesis by (simp add: lift_co_def thread_ok_def GetHookEnable_def)
qed

lemma yield_back:
  assumes ok: "thread_ok th1" and st: "co_stack (sched th1) = [m, c]" and y: "Yield sp (sched th1) = Inr s"
  shows "co_stack s = [m]" "length (cos s) = length (cos (sched th1))" "thread_ok (th1\<lparr>sched := s\<rparr>)"
proof -
  have inv: "sched_inv (sched th1)" "private_stacks (sched th1)" "epoll_inv (registry th1)" using ok by (simp_all add: thread_ok_def)
  obtain s' where "Yield sp (sched th1) = Inr s'" "sched_inv s'" "initialised s'" "private_stacks s'"
      "co_stack s' = butlast (co_stack (sched th1))" "length (cos s') = length (cos (sched th1))"
    using Yield_private [OF inv(1,2), of sp] st by auto
  with y st inv(3) show "co_stack s = [m]" "length (cos s) = length (cos (sched th1))" "thread_ok (th1\<lparr>sched := s\<rparr>)"
    by (auto simp: thread_ok_def)
qed

lemma run_co_answered:
  assumes ok: "thread_ok th1" and st: "co_stack (sched th1) = [m, c]"
    and r: "kernel_answer (GetHookEnable th1) (fst rs) (snd rs) = r" "\<not> (GetHookEnable th1 \<and> r = (-1, EAGAIN))"
    and w1: "closed w1 = closed w @ fds"
  shows "\<exists>th2 th3 s. do_io fd event sp [(fst rs, snd rs, id)] th1 = Inr (Some r, th2) \<and>
    finish_step w w1 th2 = Inr (w1, th3) \<and> Yield sp' (sched th3) = Inr s \<and> thread_ok (th3\<lparr>sched := s\<rparr>) \<and> co_stack s = [m] \<and>
    length (cos s) = length (cos (sched th1)) \<and> GetHookEnable th3 = GetHookEnable th1 \<and> closed_fds th3 = closed_fds th1 @ fds"
proof -
  obtain th2 where th2: "do_io fd event sp [(fst rs, snd rs, id)] th1 = Inr (Some r, th2)" "sched th2 = sched th1" "steady th1 0 [] th2"
    using do_io_answered [OF ok r] by blast
  obtain th3 where th3: "finish_step w w1 th2 = Inr (w1, th3)" "sched th3 = sched th2" "steady th2 0 fds th3"
    using finish_step_ok [OF _ w1, of th2] th2(3) by (auto simp: steady_def)
  then have ok3: "thread_ok th3" "co_stack (sched th3) = [m, c]" using th2 st by (simp_all add: steady_def)
  obtain s where s: "Yield sp' (sched th3) = Inr s"
    using Yield_private [of "sched th3" sp'] ok3 by (auto simp: thread_ok_def)
  with th2 th3 yield_back [OF ok3 s] show ?thesis by (auto simp: steady_def)
qed

lemma run_co_ok:
  assumes ok: "thread_ok th" and st: "co_stack (sched th) = [m]" and mem: "malloc 65536"
    and r: "kernel_answer (GetHookEnable th) (fst rs) (snd rs) = r" and body: "body r = Inr (q, w1)" "closed w1 = closed w @ fds"
    and idle: "r = (-1, EAGAIN) \<Longrightarrow> w1 = w"
  shows "\<exists>th'. run_co malloc sp call fd rs body w th = Inr (w1, th') \<and> steady th 1 fds th'"
proof -
  let ?c = "length (cos (sched th))"
  obtain s attr th1 where th1: "CreateCoroutine malloc CoroutineAttr (sched th) = Inr (?c, attr, s)"
      "lift_co th (Coroutine.Resume ?c (at_resume sp) s) = Inr th1" "thread_ok th1" "co_stack (sched th1) = [m, ?c]"
      "length (cos (sched th1)) = Suc ?c" "GetHookEnable th1 = GetHookEnable th" "closed_fds th1 = closed_fds th"
    using create_and_resume [where sp = "at_resume sp" and malloc = malloc, OF ok st mem] by blast
  show ?thesis
  proof (cases "GetHookEnable th \<and> r = (-1, EAGAIN)")
    case True
    have h: "GetHookEnable th1" "kernel_answer True (fst rs) (snd rs) = (-1, EAGAIN)" "2 \<le> length (co_stack (sched th1))"
      using True r th1(4,6) by simp_all
    obtain th2 where th2: "do_io fd (snd (wrapper call)) (at_io sp) [(fst rs, snd rs, id)] th1 = Inr (None, th2)" "thread_ok th2"
        "GetHookEnable th2 = GetHookEnable th1" "closed_fds th2 = closed_fds th1" "Yield (at_io sp) (sched th1) = Inr (sched th2)"
      using do_io_refused [OF th1(3) h(1) wrapper_event h(2,3)] by blast
    note y = yield_back [OF th1(3,4) th2(5)]
    have "run_co malloc sp call fd rs body w th = Inr (w, th2)" using th1(1,2) th2(1) by (simp add: run_co_def)
    with True th1 th2 y st idle body(2) show ?thesis by (simp add: steady_def)
  next
    case False
    then have "\<not> (GetHookEnable th1 \<and> r = (-1, EAGAIN))" "kernel_answer (GetHookEnable th1) (fst rs) (snd rs) = r"
      using th1(6) r by simp_all
    from run_co_answered [OF th1(3,4) this(2,1) body(2)] obtain th2 th3 s' where
      R: "do_io fd (snd (wrapper call)) (at_io sp) [(fst rs, snd rs, id)] th1 = Inr (Some r, th2)"
      "finish_step w w1 th2 = Inr (w1, th3)" "Yield (at_yield sp) (sched th3) = Inr s'" "thread_ok (th3\<lparr>sched := s'\<rparr>)" "co_stack s' = [m]"
      "length (cos s') = length (cos (sched th1))" "GetHookEnable th3 = GetHookEnable th1" "closed_fds th3 = closed_fds th1 @ fds" by blast
    then have "run_co malloc sp call fd rs body w th = Inr (w1, th3\<lparr>sched := s'\<rparr>)"
      using th1(1,2) body(1) by (simp add: run_co_def lift_co_def)
    with R th1 st show ?thesis by (simp add: steady_def GetHookEnable_def)
  qed
qed

section \<open>The loops on a thread\<close>

text \<open>The event as the loop of \<open>Http_Server\<close> sees it, and whether it gets a coroutine.\<close>

definition seen :: "bool \<Rightarrow> hooked_event \<Rightarrow> u32 \<times> addr \<times> recv_result \<times> send_result" where
  "seen hook ev = (case ev of (events, p, r1, r2, bytes) \<Rightarrow>
     (events, p, recv_of bytes (kernel_answer hook r1 r2), send_of (kernel_answer hook r1 r2)))"

definition gets_co :: "hooked_event \<Rightarrow> bool" where
  "gets_co ev \<longleftrightarrow> fst ev AND EPOLLHUP = 0 \<and> fst ev AND EPOLLERR = 0 \<and> (fst ev AND EPOLLIN \<noteq> 0 \<or> fst ev AND EPOLLOUT \<noteq> 0)"

lemma hooked_event_co_ok:
  assumes ok: "thread_ok th" "co_stack (sched th) = [m]" and mem: "malloc 65536"
    and run: "loop_event_co ctl hs (seen (GetHookEnable th) ev) w = Inr w1"
  shows "\<exists>th' fds. hooked_event_co ctl hs malloc sp ev (w, th) = Inr (w1, th') \<and> closed w1 = closed w @ fds \<and>
    steady th (if gets_co ev then 1 else 0) fds th'"
proof -
  obtain events p r1 r2 bytes where ev: "ev = (events, p, r1, r2, bytes)" by (cases ev)
  let ?r = "kernel_answer (GetHookEnable th) r1 r2"
  obtain d where d: "deref p w = Inr d" using run by (auto simp: loop_event_co_def seen_def ev res_bind_eq_Inr)
  consider (hup) "\<not> gets_co ev" | (rd) "gets_co ev" "events AND EPOLLIN \<noteq> 0" | (wr) "gets_co ev" "events AND EPOLLIN = 0" by blast
  then show ?thesis
  proof cases
    case hup
    then have drop: "drop_client ctl (ed_fd d) p w = Inr w1" using run d by (auto simp: loop_event_co_def seen_def ev gets_co_def split: if_splits)
    note c = drop_client_closed [OF drop]
    from finish_step_ok [OF ok(1) c] hup d drop c show ?thesis by (auto simp: hooked_event_co_def ev gets_co_def)
  next
    case rd
    then obtain q where b: "HandleReadEvent ctl hs (recv_of bytes ?r) (ed_fd d) p w = Inr (q, w1)"
      using run d by (auto simp: loop_event_co_def seen_def ev gets_co_def res_bind_eq_Inr)
    obtain fds where c: "closed w1 = closed w @ fds" using HandleReadEvent_closed [OF b] by blast
    have idle: "?r = (-1, EAGAIN) \<Longrightarrow> w1 = w" using b by (simp add: HandleReadEvent_def recv_of_def res_bind_eq_Inr)
    from run_co_ok [where malloc = malloc, OF ok mem, of "(r1, r2)" ?r "\<lambda>r. HandleReadEvent ctl hs (recv_of bytes r) (ed_fd d) p w" q w1 w fds sp sys_recv "ed_fd d"]
      b c idle d rd show ?thesis by (auto simp: hooked_event_co_def ev gets_co_def)
  next
    case wr
    then obtain q where b: "HandleWriteEvent ctl (send_of ?r) (ed_fd d) p w = Inr (q, w1)"
      using run d by (auto simp: loop_event_co_def seen_def ev gets_co_def res_bind_eq_Inr)
    obtain fds where c: "closed w1 = closed w @ fds" using HandleWriteEvent_closed [OF b] by blast
    have idle: "?r = (-1, EAGAIN) \<Longrightarrow> w1 = w" using b by (simp add: HandleWriteEvent_def send_of_def res_bind_eq_Inr)
    from run_co_ok [where malloc = malloc, OF ok mem, of "(r1, r2)" ?r "\<lambda>r. HandleWriteEvent ctl (send_of r) (ed_fd d) p w" q w1 w fds sp sys_send "ed_fd d"]
      b c idle d wr show ?thesis by (auto simp: hooked_event_co_def ev gets_co_def)
  qed
qed

text \<open>
  C11: The loop with coroutines behaves on the hooked calls as it does on the original ones, whether the hook is
  enabled or not: the worker goes through the same states, every coroutine gives the thread back, also one
  whose call is refused, and the hooked closes keep the thread's own registry in step. Each readable or
  writable event leaves one suspended coroutine behind.
\<close>

theorem hooked_loop_co_refines:
  assumes "thread_ok th" and "co_stack (sched th) = [m]" and "malloc 65536"
    and "EventLoopWithCo ctl hs (map (seen (GetHookEnable th)) evs) w = Inr w'"
  shows "\<exists>th'. hooked_loop_co ctl hs malloc sp evs (w, th) = Inr (w', th') \<and> thread_ok th' \<and> co_stack (sched th') = [m] \<and>
    length (cos (sched th')) = length (cos (sched th)) + length (filter gets_co evs) \<and>
    closed_fds th' = closed_fds th @ drop (length (closed w)) (closed w')"
proof -
  have "\<exists>th' fds. hooked_loop_co ctl hs malloc sp evs (w, th) = Inr (w', th') \<and> closed w' = closed w @ fds \<and>
      steady th (length (filter gets_co evs)) fds th'"
    using assms(1,2,4)
  proof (induction evs arbitrary: w th)
    case Nil
    then show ?case by (simp add: steady_refl)
  next
    case (Cons ev evs)
    from Cons.prems(3) obtain w1 where w1: "loop_event_co ctl hs (seen (GetHookEnable th) ev) w = Inr w1"
        "EventLoopWithCo ctl hs (map (seen (GetHookEnable th)) evs) w1 = Inr w'" by (auto simp: res_bind_eq_Inr)
    obtain th1 fds where th1: "hooked_event_co ctl hs malloc sp ev (w, th) = Inr (w1, th1)" "closed w1 = closed w @ fds"
        "steady th (if gets_co ev then 1 else 0) fds th1"
      using hooked_event_co_ok [where malloc = malloc, OF Cons.prems(1,2) assms(3) w1(1)] by blast
    then have "thread_ok th1" "co_stack (sched th1) = [m]" "GetHookEnable th1 = GetHookEnable th"
      using Cons.prems(2) by (simp_all add: steady_def)
    with Cons.IH [of th1 w1] w1(2) obtain th' fds' where "hooked_loop_co ctl hs malloc sp evs (w1, th1) = Inr (w', th')"
        "closed w' = closed w1 @ fds'" "steady th1 (length (filter gets_co evs)) fds' th'" by auto
    with th1 steady_trans [OF th1(3)] show ?case by (auto simp: ac_simps)
  qed
  with assms(2) show ?thesis by (auto simp: steady_def)
qed

text \<open>A thread that is at its main coroutine, with a readable and then a hung-up connection on its worker.\<close>

definition main_demo :: "unit thread" where
  "main_demo = hook_demo\<lparr>sched := InitThreadSchedule Instance\<rparr>"

lemma main_demo_ok: "thread_ok main_demo" "co_stack (sched main_demo) = [0]" "GetHookEnable main_demo" "closed_fds main_demo = []"
    "length (cos (sched main_demo)) = 1"
  using epoll_inv_Epoll
  by (simp_all add: main_demo_def hook_demo_def thread_ok_def sched_inv_def private_stacks_def InitThreadSchedule_def Instance_def
      new_co_def GetHookEnable_def Let_def)

definition events_demo :: "hooked_event list" where
  "events_demo = [(EPOLLIN, 1, (-1, EINTR), (-1, EAGAIN), []), (EPOLLIN, 1, (-1, EAGAIN), (0, 0), []), (EPOLLHUP, 1, (0, 0), (0, 0), [])]"

lemma hooked_bits: "EPOLLIN AND EPOLLHUP = 0" "EPOLLIN AND EPOLLERR = 0" "EPOLLIN AND EPOLLIN \<noteq> 0" "EPOLLHUP AND EPOLLHUP \<noteq> 0"
  by (simp_all add: event_bits EPOLLHUP_def EPOLLERR_def)

definition dropped_demo :: worker where
  "dropped_demo = free 1 (close_fd 7 (demo_worker\<lparr>ctls := ctls demo_worker @ [ctl_arg CtlDel 7 0 0]\<rparr>))"

lemma demo_worker_drop: "deref 1 demo_worker = Inr (EventData\<lparr>ed_fd := 7\<rparr>)" "drop_client demo_kernel 7 1 demo_worker = Inr dropped_demo"
    "closed dropped_demo = closed demo_worker @ [7]"
proof -
  have "demo_kernel (ctls demo_worker) (ctl_arg CtlDel 7 0 0)"
    using demo_worker_ok(2) by (simp add: demo_kernel_def ctl_arg_def)
  then show "drop_client demo_kernel 7 1 demo_worker = Inr dropped_demo"
    by (simp add: drop_client_def ControlEpollEvent_def dropped_demo_def)
qed (simp_all add: deref_def demo_worker_def dropped_demo_def free_def close_fd_def)

theorem hooked_loop_co_refines_witness:
  "\<exists>w' th'. hooked_loop_co demo_kernel Map.empty (\<lambda>_. True) \<lparr>at_resume = 1, at_io = 2, at_yield = 3\<rparr> events_demo (demo_worker, main_demo) =
     Inr (w', th') \<and> co_stack (sched th') = [0] \<and> length (cos (sched th')) = 3 \<and> closed_fds th' = [7]"
proof -
  have run: "EventLoopWithCo demo_kernel Map.empty (map (seen True) events_demo) demo_worker = Inr dropped_demo"
    using demo_worker_drop
    by (simp add: events_demo_def seen_def loop_event_co_def hooked_bits kernel_answer_def recv_of_def HandleReadEvent_def EAGAIN_def EINTR_def)
  have "length (filter gets_co events_demo) = 2" by (simp add: events_demo_def gets_co_def hooked_bits)
  then show ?thesis
    using hooked_loop_co_refines [of main_demo 0 "\<lambda>_. True" demo_kernel Map.empty events_demo demo_worker dropped_demo
        "\<lparr>at_resume = 1, at_io = 2, at_yield = 3\<rparr>"] main_demo_ok run demo_worker_drop(3) by auto
qed

section \<open>The loop without coroutines waits\<close>

lemma io_loop_main:
  assumes "thread_ok th" and "co_stack (sched th) = [m]" and ev: "event = READ \<or> event = WRITE"
    and "\<forall>x\<in>set refused. kernel_answer True (fst x) (snd x) = (-1, EAGAIN)"
  shows "\<exists>th'. io_loop fd event sp (map (\<lambda>(r1, r2). (r1, r2, id)) refused @ script) th = io_loop fd event sp script th' \<and>
    thread_ok th' \<and> co_stack (sched th') = [m] \<and> closed_fds th' = closed_fds th"
  using assms(1,2,4)
proof (induction refused arbitrary: th)
  case (Cons x refused)
  obtain r1 r2 where x: "x = (r1, r2)" by (cases x)
  obtain th1 where th1: "wait_for fd event sp th = Inr (False, th1)" "thread_ok th1" "co_stack (sched th1) = [m]" "closed_fds th1 = closed_fds th"
    using wait_for_outcome [OF Cons.prems(1) ev, of fd sp] Cons.prems(2) by auto
  with Cons.IH [OF th1(2,3)] Cons.prems(3) show ?case by (auto simp: x kernel_answer_def Let_def split: if_splits)
qed auto

text \<open>
  C17: The loop without coroutines runs on the main coroutine, which cannot yield. With the hook enabled a call that
  the kernel refuses is repeated until it is answered: while it is refused, however often, the event is
  not finished and the worker is as before, so that no other connection is served. The first
  other answer is handled as on the original calls; the branches of \<^verbatim>\<open>HandleEpollEvent\<close> for a refused call
  are never taken.
\<close>

theorem hooked_event_blocks_worker:
  assumes "thread_ok th" and "GetHookEnable th" and "co_stack (sched th) = [m]" and "deref p w = Inr d"
    and "gets_co (events, p, (0, 0), (0, 0), bytes)"
    and "\<forall>x\<in>set refused. kernel_answer True (fst x) (snd x) = (-1, EAGAIN)"
    and "kernel_answer True r1 r2 = r" and "r \<noteq> (-1, EAGAIN)"
    and "HandleEpollEvent ctl hs (recv_of bytes r) (send_of r) events p w = Inr w'"
  shows "(\<exists>th1. hooked_event ctl hs sp events p refused bytes (w, th) = Inr ((w, th1), False) \<and> thread_ok th1) \<and>
    (\<exists>th2. hooked_event ctl hs sp events p (refused @ (r1, r2) # unused) bytes (w, th) = Inr ((w', th2), True) \<and> thread_ok th2 \<and>
       co_stack (sched th2) = [m] \<and> closed_fds th2 = closed_fds th @ drop (length (closed w)) (closed w'))"
proof -
  let ?th = "th\<lparr>registry := (registry th)\<lparr>nonblocking := insert (ed_fd d) (nonblocking (registry th))\<rparr>\<rparr>"
  let ?call = "if events AND EPOLLIN \<noteq> 0 then sys_recv else sys_send" and ?f = "\<lambda>(r1, r2). (r1, r2, id)"
  have ok: "thread_ok ?th" "co_stack (sched ?th) = [m]" using assms(1,3) by (simp_all add: thread_ok_def epoll_inv_def)
  note main = io_loop_main [OF ok wrapper_event [of ?call] assms(6), of "ed_fd d" sp]
  have kind: "\<not> (events AND EPOLLHUP \<noteq> 0 \<or> events AND EPOLLERR \<noteq> 0 \<or> events AND EPOLLIN = 0 \<and> events AND EPOLLOUT = 0)"
    using assms(5) by (auto simp: gets_co_def)
  obtain th1 where th1: "do_io (ed_fd d) (snd (wrapper ?call)) sp (map ?f refused) th = Inr (None, th1)" "thread_ok th1"
    using main [of "[]"] assms(2) by (auto simp: do_io_def)
  have answered: "io_loop fd event sp (map ?f ((r1, r2) # unused)) t = Inr (Some r, t)" for fd event and t :: "'a thread"
    using assms(7,8) by (simp add: kernel_answer_def Let_def split: if_splits)
  obtain th2 where th2: "do_io (ed_fd d) (snd (wrapper ?call)) sp (map ?f (refused @ (r1, r2) # unused)) th = Inr (Some r, th2)" "thread_ok th2"
      "co_stack (sched th2) = [m]" "closed_fds th2 = closed_fds th"
    using main [of "map ?f ((r1, r2) # unused)"] assms(2) unfolding answered by (auto simp: do_io_def)
  obtain fds where fds: "closed w' = closed w @ fds" using HandleEpollEvent_closed [OF assms(9)] by blast
  obtain th3 where "finish_step w w' th2 = Inr (w', th3)" "steady th2 0 fds th3" using finish_step_ok [OF th2(2) fds] by blast
  then show ?thesis
    using th1 th2 kind assms(4,9) fds unfolding hooked_event_def by (auto simp: steady_def)
qed

theorem hooked_event_blocks_worker_witness:
  "(\<exists>th1. hooked_event demo_kernel Map.empty 0 EPOLLIN 1 [((-1, EAGAIN), (0, 0))] [] (demo_worker, main_demo) =
      Inr ((demo_worker, th1), False)) \<and>
   (\<exists>th2. hooked_event demo_kernel Map.empty 0 EPOLLIN 1 [((-1, EAGAIN), (0, 0)), ((0, 0), (0, 0))] [] (demo_worker, main_demo) =
      Inr ((dropped_demo, th2), True) \<and> closed_fds th2 = [7])"
proof -
  have "HandleEpollEvent demo_kernel Map.empty (recv_of [] (0, 0)) (send_of (0, 0)) EPOLLIN 1 demo_worker = Inr dropped_demo"
    using demo_worker_drop by (simp add: HandleEpollEvent_def on_readable_def recv_of_def hooked_bits)
  then show ?thesis
    using hooked_event_blocks_worker [OF main_demo_ok(1,3,2) demo_worker_drop(1), of EPOLLIN "[]" "[((-1, EAGAIN), (0, 0))]" "(0, 0)" "(0, 0)"
        "(0, 0)" demo_kernel Map.empty dropped_demo 0 "[]"] main_demo_ok(4) demo_worker_drop(3)
    by (auto simp: gets_co_def hooked_bits kernel_answer_def EAGAIN_def EINTR_def)
qed

end
