(* ===== verification/Http_Lifecycle.thy ===== *)
theory Http_Lifecycle
  imports Http_Server Address_Laws
begin

text \<open>
  Starting and stopping the server: the constructor, \<^verbatim>\<open>Start\<close> and \<^verbatim>\<open>Stop\<close> of \<^verbatim>\<open>src/src/http_server.cc\<close>. The
  answers of the kernel are arguments. A thread is joinable from its start until it is
  joined; the loops of all threads end only when they see \<^verbatim>\<open>running_\<close> false.
\<close>

section \<open>State\<close>

record http_server =
  srv_host :: string
  srv_port :: u16
  srv_use_co :: bool
  srv_sock_fd :: int
  srv_running :: bool
  srv_epoll_fds :: "int list"
  srv_listener :: bool
  srv_workers :: "bool list"
  srv_bound :: "u8 list option"
  srv_closed :: "int list"

datatype srv_error = SrvRuntimeError string | SrvNotJoinable | SrvTerminated

text \<open>The constructor; \<^verbatim>\<open>running_\<close> is not initialised, so that its value is an argument.\<close>

definition HttpServer_new :: "int \<Rightarrow> bool \<Rightarrow> string \<Rightarrow> u16 \<Rightarrow> bool \<Rightarrow> srv_error + http_server" where
  "HttpServer_new fd mem host port use_co =
     (if fd < 0 then Inl (SrvRuntimeError ''[HttpServer::HttpServer] failed to create socket'')
      else Inr \<lparr>srv_host = host, srv_port = port, srv_use_co = use_co, srv_sock_fd = fd, srv_running = mem,
                srv_epoll_fds = replicate kThreadPoolSize 0, srv_listener = False,
                srv_workers = replicate kThreadPoolSize False, srv_bound = None, srv_closed = []\<rparr>)"

section \<open>Start\<close>

record start_script =
  r_setsockopt :: int
  r_bind :: int
  r_listen :: int
  r_epoll :: "nat \<Rightarrow> int"

text \<open>The address: zeroes, the family and the port; a host that cannot be read leaves the zeroes.\<close>

definition start_address :: "target \<Rightarrow> (string \<Rightarrow> pton_result) \<Rightarrow> string \<Rightarrow> u16 \<Rightarrow> sockaddr_in" where
  "start_address tg pton host port =
     \<lparr>sin_family = word_of_int AF_INET, sin_port = htons tg port,
      sin_addr = (case pton (c_str host) of PtonOk bs \<Rightarrow> bs | _ \<Rightarrow> replicate 4 0), sin_zero = replicate 8 0\<rparr>"

text \<open>The loop that creates the event queues stops at the first failure; it has stored the negative result.\<close>

function epoll_loop :: "(nat \<Rightarrow> int) \<Rightarrow> nat \<Rightarrow> int list \<Rightarrow> bool \<times> int list" where
  "epoll_loop r i fds =
     (if i < kThreadPoolSize
      then let fds1 = fds[i := r i] in if r i < 0 then (False, fds1) else epoll_loop r (Suc i) fds1
      else (True, fds))"
  by pat_completeness auto
termination
  by (relation "measure (\<lambda>(r, i, fds). kThreadPoolSize - i)") auto

declare epoll_loop.simps [simp del]

text \<open>Assigning to a thread that is joinable terminates the program.\<close>

definition Start :: "target \<Rightarrow> (string \<Rightarrow> pton_result) \<Rightarrow> start_script \<Rightarrow> http_server \<Rightarrow> srv_error option \<times> http_server" where
  "Start tg pton r srv =
     (if r_setsockopt r < 0 then (Some (SrvRuntimeError ''[HttpServer::HttpServer] set socketopt failed''), srv)
      else if r_bind r < 0 then (Some (SrvRuntimeError ''[HttpServer::HttpServer] socket bind failed''), srv)
      else let srv1 = srv\<lparr>srv_bound := Some (in_bytes tg (start_address tg pton (srv_host srv) (srv_port srv)))\<rparr> in
        if r_listen r < 0 then (Some (SrvRuntimeError ''[HttpServer::HttpServer] socket listen failed''), srv1)
        else (case epoll_loop (r_epoll r) 0 (srv_epoll_fds srv1) of
                (False, fds) \<Rightarrow> (Some (SrvRuntimeError ''[HttpServer::HttpServer] epoll create failed''), srv1\<lparr>srv_epoll_fds := fds\<rparr>)
              | (True, fds) \<Rightarrow>
                  (let srv2 = srv1\<lparr>srv_epoll_fds := fds, srv_running := True\<rparr> in
                   if srv_listener srv2 \<or> True \<in> set (srv_workers srv2) then (Some SrvTerminated, srv2)
                   else (None, srv2\<lparr>srv_listener := True, srv_workers := replicate kThreadPoolSize True\<rparr>))))"

section \<open>Stop\<close>

text \<open>
  The head of a thread's loop, \<^verbatim>\<open>while (running_)\<close>, which is all that \<^verbatim>\<open>join\<close> sees of it: each round ends by testing \<^verbatim>\<open>running_\<close>, which nothing changes while
  the caller of \<^verbatim>\<open>Stop\<close> waits. \<open>None\<close> means that it does not end.
\<close>

partial_function (option) thread_loop :: "bool \<Rightarrow> unit option" where
  "thread_loop running = (if running then thread_loop running else Some ())"

definition join :: "bool \<Rightarrow> bool \<Rightarrow> (srv_error + unit) option" where
  "join joinable running =
     (if \<not> joinable then Some (Inl SrvNotJoinable) else map_option Inr (thread_loop running))"

fun join_all :: "bool list \<Rightarrow> bool \<Rightarrow> (srv_error + unit) option" where
  "join_all [] running = Some (Inr ())"
| "join_all (t # ts) running =
     Option.bind (join t running) (\<lambda>r. case r of Inl e \<Rightarrow> Some (Inl e) | Inr _ \<Rightarrow> join_all ts running)"

definition Stop :: "http_server \<Rightarrow> (srv_error option \<times> http_server) option" where
  "Stop srv =
     map_option (\<lambda>r. case r of
         Inl e \<Rightarrow> (Some e, srv)
       | Inr _ \<Rightarrow> (None, srv\<lparr>srv_listener := False, srv_workers := replicate kThreadPoolSize False,
                        srv_closed := srv_closed srv @ srv_epoll_fds srv @ [srv_sock_fd srv]\<rparr>))
       (join_all (srv_listener srv # srv_workers srv) (srv_running srv))"

section \<open>Laws\<close>

lemma thread_loop_runs: "thread_loop True = None"
proof (rule ccontr)
  assume "thread_loop True \<noteq> None"
  then obtain u where "thread_loop True = Some u" by blast
  then have "True \<longrightarrow> False" by (rule thread_loop.raw_induct [where P = "\<lambda>r u. r \<longrightarrow> False", rotated]) (auto split: if_splits)
  then show False by simp
qed

lemma epoll_loop_ok:
  assumes "\<And>k. k < kThreadPoolSize \<Longrightarrow> 0 \<le> r k" and "length fds = kThreadPoolSize" and "i \<le> kThreadPoolSize"
  shows "epoll_loop r i fds = (True, take i fds @ map r [i..<kThreadPoolSize])"
  using assms(2,3)
proof (induction "kThreadPoolSize - i" arbitrary: i fds)
  case 0
  then have "i = kThreadPoolSize" by simp
  with 0 show ?case using epoll_loop.simps [of r kThreadPoolSize fds] by simp
next
  case (Suc n)
  then have i: "i < kThreadPoolSize" by simp
  have "epoll_loop r (Suc i) (fds[i := r i]) = (True, take (Suc i) (fds[i := r i]) @ map r [Suc i..<kThreadPoolSize])"
    using Suc i by (intro Suc.hyps(1)) auto
  with i Suc.prems assms(1) [OF i] show ?case
    by (simp add: epoll_loop.simps [of r i] Let_def upt_conv_Cons take_Suc_conv_app_nth)
qed

lemma Start_ok:
  assumes "HttpServer_new fd mem host port use_co = Inr srv" and "0 \<le> r_setsockopt r" and "0 \<le> r_bind r" and "0 \<le> r_listen r"
    and "\<forall>k<kThreadPoolSize. 0 \<le> r_epoll r k" and "\<forall>t bs. pton t = PtonOk bs \<longrightarrow> length bs = 4"
  shows "\<exists>srv' bound a. Start tg pton r srv = (None, srv') \<and> srv_running srv' \<and> srv_listener srv' \<and>
    srv_workers srv' = replicate kThreadPoolSize True \<and> srv_epoll_fds srv' = map (r_epoll r) [0..<kThreadPoolSize] \<and>
    srv_bound srv' = Some bound \<and> Create tg (Some bound) = Inr (Some (IPv4Address a)) \<and>
    GetPort tg (IPv4Address a) = ucast port \<and>
    sin_addr a = (case pton (c_str host) of PtonOk bs \<Rightarrow> bs | _ \<Rightarrow> [0, 0, 0, 0])"
proof -
  let ?a = "start_address tg pton host port"
  have ok: "address_ok (IPv4Address ?a)"
    using assms(6) [rule_format, of "c_str host"] by (auto simp: start_address_def AF_INET_def split: pton_result.split)
  then have create: "Create tg (Some (in_bytes tg ?a)) = Inr (Some (IPv4Address ?a))"
    using Create_GetSockaddr [of "IPv4Address ?a" tg "[]"] by simp
  have addr: "sin_addr ?a = (case pton (c_str host) of PtonOk bs \<Rightarrow> bs | _ \<Rightarrow> [0, 0, 0, 0])"
    by (simp add: start_address_def numeral_eq_Suc split: pton_result.split)
  have srv: "srv_host srv = host" "srv_port srv = port" "srv_epoll_fds srv = replicate kThreadPoolSize 0" "\<not> srv_listener srv"
    "srv_workers srv = replicate kThreadPoolSize False"
    using assms(1) by (auto simp: HttpServer_new_def split: if_splits)
  have loop: "epoll_loop (r_epoll r) 0 (replicate kThreadPoolSize 0) = (True, map (r_epoll r) [0..<kThreadPoolSize])"
    using epoll_loop_ok [of "r_epoll r" "replicate kThreadPoolSize 0" 0] assms(5) by simp
  show ?thesis
    using assms(2-4) create addr by (simp add: Start_def srv loop Let_def not_less [symmetric] start_address_def)
qed

section \<open>Properties of starting and stopping\<close>

text \<open>
  C36: A successful start of a new server: the socket is bound to the address of the host and the port,
  as \<^verbatim>\<open>Address\<close> reads them back, with the address 0.0.0.0 for a host that is not a numeric
  address; there is an event queue for every worker, and the listener and all workers run.
\<close>

theorem Start_succeeds:
  assumes "HttpServer_new fd mem host port use_co = Inr srv" and "0 \<le> r_setsockopt r" and "0 \<le> r_bind r" and "0 \<le> r_listen r"
    and "\<forall>k<kThreadPoolSize. 0 \<le> r_epoll r k" and "\<forall>t bs. pton t = PtonOk bs \<longrightarrow> length bs = 4"
  shows "\<exists>srv' bound a. Start tg pton r srv = (None, srv') \<and> srv_running srv' \<and> srv_listener srv' \<and>
    srv_workers srv' = replicate kThreadPoolSize True \<and> srv_epoll_fds srv' = map (r_epoll r) [0..<kThreadPoolSize] \<and>
    srv_bound srv' = Some bound \<and> Create tg (Some bound) = Inr (Some (IPv4Address a)) \<and>
    GetPort tg (IPv4Address a) = ucast port \<and>
    sin_addr a = (case pton (c_str host) of PtonOk bs \<Rightarrow> bs | _ \<Rightarrow> [0, 0, 0, 0])"
  using assms by (rule Start_ok)

definition start_demo :: start_script where
  "start_demo = \<lparr>r_setsockopt = 0, r_bind = 0, r_listen = 0, r_epoll = (\<lambda>k. int k + 4)\<rparr>"

lemma server_demo: "\<exists>srv. HttpServer_new 3 False ''localhost'' 80 True = Inr srv"
  by (simp add: HttpServer_new_def)

theorem Start_succeeds_witness:
  "\<exists>srv srv' bound a. HttpServer_new 3 False ''localhost'' 80 True = Inr srv \<and>
    Start \<lparr>host_order = SYLAR_LITTLE_ENDIAN, sylar_order = SYLAR_BIG_ENDIAN\<rparr> (\<lambda>t. PtonInvalid) start_demo srv = (None, srv') \<and>
    srv_bound srv' = Some bound \<and>
    Create \<lparr>host_order = SYLAR_LITTLE_ENDIAN, sylar_order = SYLAR_BIG_ENDIAN\<rparr> (Some bound) = Inr (Some (IPv4Address a)) \<and> sin_addr a = [0, 0, 0, 0]"
proof -
  obtain srv where srv: "HttpServer_new 3 False ''localhost'' 80 True = Inr srv" using server_demo by blast
  from Start_succeeds [OF this, of start_demo "\<lambda>t. PtonInvalid" "\<lparr>host_order = SYLAR_LITTLE_ENDIAN, sylar_order = SYLAR_BIG_ENDIAN\<rparr>"]
  show ?thesis using srv by (auto simp: start_demo_def)
qed

text \<open>
  C22: A server that was started cannot be stopped: \<^verbatim>\<open>Stop\<close> waits for threads whose loops run while
  \<^verbatim>\<open>running_\<close> is true, and nothing ever sets it to false, so that the call does not return. On a server that was
  not started it throws.
\<close>

theorem Stop_never_returns:
  assumes "HttpServer_new fd mem host port use_co = Inr srv"
  shows "(\<forall>r srv'. Start tg pton r srv = (None, srv') \<longrightarrow> Stop srv' = None) \<and> Stop srv = Some (Some SrvNotJoinable, srv)"
proof (intro conjI allI impI)
  fix r srv' assume "Start tg pton r srv = (None, srv')"
  then have "srv_listener srv'" "srv_running srv'"
    by (auto simp: Start_def Let_def split: if_splits prod.splits bool.splits)
  then show "Stop srv' = None" by (simp add: Stop_def join_def thread_loop_runs)
next
  show "Stop srv = Some (Some SrvNotJoinable, srv)"
    using assms by (auto simp: HttpServer_new_def Stop_def join_def split: if_splits)
qed

theorem Stop_never_returns_witness:
  "\<exists>srv srv'. HttpServer_new 3 False ''localhost'' 80 True = Inr srv \<and>
    Start \<lparr>host_order = SYLAR_LITTLE_ENDIAN, sylar_order = SYLAR_BIG_ENDIAN\<rparr> (\<lambda>t. PtonInvalid) start_demo srv = (None, srv') \<and>
    Stop srv' = None"
proof -
  let ?tg = "\<lparr>host_order = SYLAR_LITTLE_ENDIAN, sylar_order = SYLAR_BIG_ENDIAN\<rparr>"
  obtain srv where srv: "HttpServer_new 3 False ''localhost'' 80 True = Inr srv" using server_demo by blast
  from Start_ok [OF this, of start_demo "\<lambda>t. PtonInvalid" ?tg]
  obtain srv' where start: "Start ?tg (\<lambda>t. PtonInvalid) start_demo srv = (None, srv')" by (auto simp: start_demo_def)
  from Stop_never_returns [OF srv, of ?tg "\<lambda>t. PtonInvalid"] start have "Stop srv' = None" by blast
  with srv start show ?thesis by blast
qed

end
