(* ===== verification/Locks.thy ===== *)
theory Locks
  imports Sylar_Prelude
begin

text \<open>
  The locks of \<^verbatim>\<open>src/src/include/mutex.hh\<close>: the spin lock on an atomic flag, and the scope objects that
  lock and unlock any of the lock classes. What a scope object needs of its lock is a locale,
  interpreted for the atomic flag; threads take their steps in any order.
\<close>

section \<open>The lock on an atomic flag\<close>

text \<open>One test-and-set of the loop in \<^verbatim>\<open>Lock\<close>: whether the loop ends, and the flag.\<close>

definition CASLock :: bool where "CASLock = False"

definition CASLock_Lock :: "bool \<Rightarrow> bool \<times> bool" where
  "CASLock_Lock mu = (\<not> mu, True)"

definition CASLock_Unlock :: "bool \<Rightarrow> bool" where
  "CASLock_Unlock mu = False"

text \<open>The lock that does not lock.\<close>

definition NullMutex_Lock :: "unit \<Rightarrow> bool \<times> unit" where
  "NullMutex_Lock mu = (True, ())"

definition NullMutex_Unlock :: "unit \<Rightarrow> unit" where
  "NullMutex_Unlock mu = ()"

section \<open>Scope objects\<close>

text \<open>
  A lock shared by threads, each with a scope object. A thread calls the constructor or
  \<^verbatim>\<open>Lock\<close> (the same calls for an object that is not locked), or \<^verbatim>\<open>Unlock\<close> or the destructor. A call
  of \<^verbatim>\<open>Lock\<close> that has to wait stays in its loop, so that the thread tries again in a later step.
\<close>

record 'm scoped =
  mu :: 'm
  is_locked :: "nat \<Rightarrow> bool"

definition ScopeLock_Lock :: "('m \<Rightarrow> bool \<times> 'm) \<Rightarrow> nat \<Rightarrow> 'm scoped \<Rightarrow> 'm scoped" where
  "ScopeLock_Lock lock t s =
     (if \<not> is_locked s t
      then (case lock (mu s) of
              (True, m) \<Rightarrow> s\<lparr>mu := m, is_locked := (is_locked s)(t := True)\<rparr>
            | (False, m) \<Rightarrow> s\<lparr>mu := m\<rparr>)
      else s)"

definition ScopeLock_Unlock :: "('m \<Rightarrow> 'm) \<Rightarrow> nat \<Rightarrow> 'm scoped \<Rightarrow> 'm scoped" where
  "ScopeLock_Unlock unlock t s =
     (if is_locked s t then s\<lparr>mu := unlock (mu s), is_locked := (is_locked s)(t := False)\<rparr> else s)"

definition scoped_init :: "'m \<Rightarrow> 'm scoped" where
  "scoped_init m = \<lparr>mu = m, is_locked = (\<lambda>_. False)\<rparr>"

inductive scope_step :: "('m \<Rightarrow> bool \<times> 'm) \<Rightarrow> ('m \<Rightarrow> 'm) \<Rightarrow> 'm scoped \<Rightarrow> 'm scoped \<Rightarrow> bool" for lock unlock where
  lock: "scope_step lock unlock s (ScopeLock_Lock lock t s)"
| unlock: "scope_step lock unlock s (ScopeLock_Unlock unlock t s)"

inductive_cases scope_stepE: "scope_step lock unlock s s'"

section \<open>The contract of a lock\<close>

locale exclusive_lock =
  fixes lock :: "'m \<Rightarrow> bool \<times> 'm" and unlock :: "'m \<Rightarrow> 'm" and free :: "'m \<Rightarrow> bool"
  assumes lock_free: "free m \<Longrightarrow> fst (lock m) \<and> \<not> free (snd (lock m))"
    and lock_held: "\<not> free m \<Longrightarrow> \<not> fst (lock m) \<and> \<not> free (snd (lock m))"
    and unlock_free: "\<not> free m \<Longrightarrow> free (unlock m)"
begin

lemma lock_cases:
  obtains "free m" "\<not> free (snd (lock m))" "lock m = (True, snd (lock m))"
    | "\<not> free m" "\<not> free (snd (lock m))" "lock m = (False, snd (lock m))"
  using lock_free [of m] lock_held [of m] by (cases "free m"; cases "lock m") auto

text \<open>The lock is free exactly when no scope object is locked, and at most one is.\<close>

lemma scope_step_inv:
  assumes "scope_step lock unlock s s'"
    and "free (mu s) \<longleftrightarrow> (\<forall>t. \<not> is_locked s t)" and "\<forall>t u. is_locked s t \<longrightarrow> is_locked s u \<longrightarrow> t = u"
  shows "(free (mu s') \<longleftrightarrow> (\<forall>t. \<not> is_locked s' t)) \<and> (\<forall>t u. is_locked s' t \<longrightarrow> is_locked s' u \<longrightarrow> t = u)"
  using assms(1)
proof (rule scope_stepE)
  fix t assume "s' = ScopeLock_Lock lock t s"
  with assms(2,3) show ?thesis
    by (cases "mu s" rule: lock_cases) (auto simp: ScopeLock_Lock_def split: prod.splits bool.splits)
next
  fix t assume "s' = ScopeLock_Unlock unlock t s"
  with assms(2,3) unlock_free [of "mu s"] show ?thesis by (auto simp: ScopeLock_Unlock_def)
qed

lemma scope_inv:
  assumes "(scope_step lock unlock)\<^sup>*\<^sup>* (scoped_init m) s" and "free m"
  shows "(free (mu s) \<longleftrightarrow> (\<forall>t. \<not> is_locked s t)) \<and> (\<forall>t u. is_locked s t \<longrightarrow> is_locked s u \<longrightarrow> t = u)"
  using assms(1)
proof (induction rule: rtranclp_induct)
  case base
  with assms(2) show ?case by (simp add: scoped_init_def)
next
  case (step s s')
  then show ?case using scope_step_inv by blast
qed

lemma lock_when_free:
  assumes "(scope_step lock unlock)\<^sup>*\<^sup>* (scoped_init m) s" "free m" "\<forall>u. \<not> is_locked s u"
  shows "is_locked (ScopeLock_Lock lock t s) t"
  using scope_inv [OF assms(1,2)] assms(3)
  by (cases "mu s" rule: lock_cases) (auto simp: ScopeLock_Lock_def split: prod.splits bool.splits)

end

interpretation cas: exclusive_lock CASLock_Lock CASLock_Unlock Not
  by unfold_locales (auto simp: CASLock_Lock_def CASLock_Unlock_def)

section \<open>Properties of the locks\<close>

text \<open>
  C12: however threads interleave constructing, locking, unlocking and destroying scope objects of one
  \<^verbatim>\<open>CASLock\<close>, at most one of the objects is locked, the flag is set exactly while one is, and
  a thread that tries while none is locked gets the lock with its next test-and-set.
\<close>

theorem CASLock_mutual_exclusion:
  assumes "(scope_step CASLock_Lock CASLock_Unlock)\<^sup>*\<^sup>* (scoped_init CASLock) s"
  shows "(\<forall>t u. is_locked s t \<longrightarrow> is_locked s u \<longrightarrow> t = u) \<and> (mu s \<longleftrightarrow> (\<exists>t. is_locked s t)) \<and>
     ((\<forall>u. \<not> is_locked s u) \<longrightarrow> (\<forall>t. is_locked (ScopeLock_Lock CASLock_Lock t s) t))"
  using cas.scope_inv [OF assms] cas.lock_when_free [OF assms] by (auto simp: CASLock_def)

theorem CASLock_mutual_exclusion_witness:
  "\<not> is_locked (ScopeLock_Lock CASLock_Lock 2 (ScopeLock_Lock CASLock_Lock 1 (scoped_init CASLock))) 2"
proof -
  let ?s1 = "ScopeLock_Lock CASLock_Lock 1 (scoped_init CASLock)"
  let ?s2 = "ScopeLock_Lock CASLock_Lock 2 ?s1"
  have "(scope_step CASLock_Lock CASLock_Unlock)\<^sup>*\<^sup>* (scoped_init CASLock) ?s2"
    by (rule rtranclp.rtrancl_into_rtrancl [OF r_into_rtranclp]; rule scope_step.lock)
  from CASLock_mutual_exclusion [OF this] have "is_locked ?s2 1 \<longrightarrow> is_locked ?s2 2 \<longrightarrow> (1::nat) = 2" by blast
  moreover have "is_locked ?s2 1"
    by (simp add: ScopeLock_Lock_def scoped_init_def CASLock_def CASLock_Lock_def)
  ultimately show ?thesis by simp
qed

text \<open>Scope objects of the null lock exclude nobody.\<close>

lemma NullMutex_no_exclusion:
  "is_locked (ScopeLock_Lock NullMutex_Lock 2 (ScopeLock_Lock NullMutex_Lock 1 (scoped_init ()))) t \<longleftrightarrow> t = 1 \<or> t = 2"
  by (auto simp: ScopeLock_Lock_def scoped_init_def NullMutex_Lock_def)

end
