(* ===== verification/Shared_Locks.thy ===== *)
theory Shared_Locks
  imports Locks
begin

text \<open>
  The other locks of \<^verbatim>\<open>src/src/include/mutex.hh\<close> and the semaphore of \<^verbatim>\<open>src/src/mutex.cc\<close>, wrappers of the POSIX
  primitives. A call that has to wait is an attempt that does not return; the thread tries again in
  a later step. The wrappers drop the error codes of the primitives, which return
  at once with an error in some states.
\<close>

section \<open>Mutex and spin lock\<close>

text \<open>
  A primitive returns its error code and the new state, or no code when the caller has to wait. The
  state of \<^verbatim>\<open>pthread_mutex_t\<close> and \<^verbatim>\<open>pthread_spinlock_t\<close> with default attributes: whether it is held.
\<close>

definition pthread_mutex_lock :: "bool \<Rightarrow> int option \<times> bool" where
  "pthread_mutex_lock held = (if held then (None, True) else (Some 0, True))"

definition Mutex :: bool where "Mutex = False"

definition Mutex_Lock :: "bool \<Rightarrow> bool \<times> bool" where
  "Mutex_Lock held = (case pthread_mutex_lock held of (r, held') \<Rightarrow> (r \<noteq> None, held'))"

definition Mutex_Unlock :: "bool \<Rightarrow> bool" where
  "Mutex_Unlock held = False"

definition pthread_spin_lock :: "bool \<Rightarrow> int option \<times> bool" where
  "pthread_spin_lock held = (if held then (None, True) else (Some 0, True))"

definition SpinLock :: bool where "SpinLock = False"

definition SpinLock_Lock :: "bool \<Rightarrow> bool \<times> bool" where
  "SpinLock_Lock held = (case pthread_spin_lock held of (r, held') \<Rightarrow> (r \<noteq> None, held'))"

definition SpinLock_Unlock :: "bool \<Rightarrow> bool" where
  "SpinLock_Unlock held = False"

interpretation mutex: exclusive_lock Mutex_Lock Mutex_Unlock Not
  by unfold_locales (auto simp: Mutex_Lock_def pthread_mutex_lock_def Mutex_Unlock_def)

interpretation spin: exclusive_lock SpinLock_Lock SpinLock_Unlock Not
  by unfold_locales (auto simp: SpinLock_Lock_def pthread_spin_lock_def SpinLock_Unlock_def)

lemma Mutex_mutual_exclusion:
  assumes "(scope_step Mutex_Lock Mutex_Unlock)\<^sup>*\<^sup>* (scoped_init Mutex) s" "is_locked s t" "is_locked s u"
  shows "t = u"
  using mutex.scope_inv [OF assms(1)] assms(2,3) by (simp add: Mutex_def)

lemma SpinLock_mutual_exclusion:
  assumes "(scope_step SpinLock_Lock SpinLock_Unlock)\<^sup>*\<^sup>* (scoped_init SpinLock) s" "is_locked s t" "is_locked s u"
  shows "t = u"
  using spin.scope_inv [OF assms(1)] assms(2,3) by (simp add: SpinLock_def)

section \<open>Readers and writers\<close>

text \<open>
  \<^verbatim>\<open>pthread_rwlock_t\<close>: the thread that holds it for writing, and the number of read locks. The
  primitives refuse a thread that holds the lock for writing (\<^verbatim>\<open>EDEADLK\<close>); the wrapper drops the error
  and returns as if it had the lock. A reader gets the lock whenever no thread writes, the default
  preference of the library.
\<close>

definition EDEADLK :: int where "EDEADLK = 35"

record rwlock =
  rw_writer :: "nat option"
  rw_readers :: nat

definition pthread_rwlock_rdlock :: "nat \<Rightarrow> rwlock \<Rightarrow> int option \<times> rwlock" where
  "pthread_rwlock_rdlock t m =
     (case rw_writer m of
        None \<Rightarrow> (Some 0, m\<lparr>rw_readers := Suc (rw_readers m)\<rparr>)
      | Some u \<Rightarrow> (if u = t then Some EDEADLK else None, m))"

definition pthread_rwlock_wrlock :: "nat \<Rightarrow> rwlock \<Rightarrow> int option \<times> rwlock" where
  "pthread_rwlock_wrlock t m =
     (case rw_writer m of
        None \<Rightarrow> if rw_readers m = 0 then (Some 0, m\<lparr>rw_writer := Some t\<rparr>) else (None, m)
      | Some u \<Rightarrow> (if u = t then Some EDEADLK else None, m))"

definition RWMutex :: rwlock where
  "RWMutex = \<lparr>rw_writer = None, rw_readers = 0\<rparr>"

definition RWMutex_Rdlock :: "nat \<Rightarrow> rwlock \<Rightarrow> bool \<times> rwlock" where
  "RWMutex_Rdlock t m = (case pthread_rwlock_rdlock t m of (r, m') \<Rightarrow> (r \<noteq> None, m'))"

definition RWMutex_Wrlock :: "nat \<Rightarrow> rwlock \<Rightarrow> bool \<times> rwlock" where
  "RWMutex_Wrlock t m = (case pthread_rwlock_wrlock t m of (r, m') \<Rightarrow> (r \<noteq> None, m'))"

definition RWMutex_Unlock :: "nat \<Rightarrow> rwlock \<Rightarrow> rwlock" where
  "RWMutex_Unlock t m =
     (if rw_writer m \<noteq> None then m\<lparr>rw_writer := None\<rparr> else m\<lparr>rw_readers := rw_readers m - 1\<rparr>)"

lemmas rwlock_defs = RWMutex_Rdlock_def RWMutex_Wrlock_def RWMutex_Unlock_def
  pthread_rwlock_rdlock_def pthread_rwlock_wrlock_def

definition NullRWMutex_Rdlock :: "nat \<Rightarrow> unit \<Rightarrow> bool \<times> unit" where
  "NullRWMutex_Rdlock t m = (True, ())"

definition NullRWMutex_Wrlock :: "nat \<Rightarrow> unit \<Rightarrow> bool \<times> unit" where
  "NullRWMutex_Wrlock t m = (True, ())"

definition NullRWMutex_Unlock :: "nat \<Rightarrow> unit \<Rightarrow> unit" where
  "NullRWMutex_Unlock t m = ()"

text \<open>
  The scope objects: each thread has one for reading and one for writing. The constructor of the
  one for writing does the same as its \<^verbatim>\<open>Lock\<close> on an unlocked object. The constructor of the one for
  reading calls a member \<^verbatim>\<open>Lock\<close> that \<^verbatim>\<open>RWMutex\<close> does not have, so that no such object can be constructed
  for it; the methods of the object, which call \<^verbatim>\<open>Rdlock\<close> and \<^verbatim>\<open>Unlock\<close>, are modelled from an unlocked object.
  At the start the lock has just been initialised and no thread has a scope.
\<close>

record 'm rw_scoped =
  rw_mu :: 'm
  reading :: "nat \<Rightarrow> bool"
  writing :: "nat \<Rightarrow> bool"

definition rw_init :: "'m \<Rightarrow> 'm rw_scoped" where
  "rw_init m = \<lparr>rw_mu = m, reading = (\<lambda>_. False), writing = (\<lambda>_. False)\<rparr>"

definition ReadScope_Lock :: "(nat \<Rightarrow> 'm \<Rightarrow> bool \<times> 'm) \<Rightarrow> nat \<Rightarrow> 'm rw_scoped \<Rightarrow> 'm rw_scoped" where
  "ReadScope_Lock rdlock t s =
     (if \<not> reading s t
      then (case rdlock t (rw_mu s) of
              (True, m) \<Rightarrow> s\<lparr>rw_mu := m, reading := (reading s)(t := True)\<rparr>
            | (False, m) \<Rightarrow> s\<lparr>rw_mu := m\<rparr>)
      else s)"

definition ReadScope_Unlock :: "(nat \<Rightarrow> 'm \<Rightarrow> 'm) \<Rightarrow> nat \<Rightarrow> 'm rw_scoped \<Rightarrow> 'm rw_scoped" where
  "ReadScope_Unlock unlock t s =
     (if reading s t then s\<lparr>rw_mu := unlock t (rw_mu s), reading := (reading s)(t := False)\<rparr> else s)"

definition WriteScope_Lock :: "(nat \<Rightarrow> 'm \<Rightarrow> bool \<times> 'm) \<Rightarrow> nat \<Rightarrow> 'm rw_scoped \<Rightarrow> 'm rw_scoped" where
  "WriteScope_Lock wrlock t s =
     (if \<not> writing s t
      then (case wrlock t (rw_mu s) of
              (True, m) \<Rightarrow> s\<lparr>rw_mu := m, writing := (writing s)(t := True)\<rparr>
            | (False, m) \<Rightarrow> s\<lparr>rw_mu := m\<rparr>)
      else s)"

definition WriteScope_Unlock :: "(nat \<Rightarrow> 'm \<Rightarrow> 'm) \<Rightarrow> nat \<Rightarrow> 'm rw_scoped \<Rightarrow> 'm rw_scoped" where
  "WriteScope_Unlock unlock t s =
     (if writing s t then s\<lparr>rw_mu := unlock t (rw_mu s), writing := (writing s)(t := False)\<rparr> else s)"

text \<open>The steps of threads that lock one scope object at a time.\<close>

inductive rw_step ::
  "(nat \<Rightarrow> 'm \<Rightarrow> bool \<times> 'm) \<Rightarrow> (nat \<Rightarrow> 'm \<Rightarrow> bool \<times> 'm) \<Rightarrow> (nat \<Rightarrow> 'm \<Rightarrow> 'm) \<Rightarrow> 'm rw_scoped \<Rightarrow> 'm rw_scoped \<Rightarrow> bool"
  for rdlock wrlock unlock where
  rd: "\<not> writing s t \<Longrightarrow> rw_step rdlock wrlock unlock s (ReadScope_Lock rdlock t s)"
| wr: "\<not> reading s t \<Longrightarrow> rw_step rdlock wrlock unlock s (WriteScope_Lock wrlock t s)"
| rd_end: "rw_step rdlock wrlock unlock s (ReadScope_Unlock unlock t s)"
| wr_end: "rw_step rdlock wrlock unlock s (WriteScope_Unlock unlock t s)"

inductive_cases rw_stepE: "rw_step rdlock wrlock unlock s s'"

section \<open>The contract of a lock for readers and writers\<close>

locale shared_lock =
  fixes rdlock wrlock :: "nat \<Rightarrow> 'm \<Rightarrow> bool \<times> 'm" and unlock :: "nat \<Rightarrow> 'm \<Rightarrow> 'm"
    and writer :: "'m \<Rightarrow> nat option" and readers :: "'m \<Rightarrow> nat"
  assumes rd_free: "writer m = None \<Longrightarrow> \<exists>m'. rdlock t m = (True, m') \<and> writer m' = None \<and> readers m' = Suc (readers m)"
    and rd_wait: "writer m = Some u \<Longrightarrow> u \<noteq> t \<Longrightarrow> rdlock t m = (False, m)"
    and wr_free: "writer m = None \<Longrightarrow> readers m = 0 \<Longrightarrow> \<exists>m'. wrlock t m = (True, m') \<and> writer m' = Some t \<and> readers m' = 0"
    and wr_wait: "writer m = None \<and> readers m \<noteq> 0 \<or> writer m = Some u \<and> u \<noteq> t \<Longrightarrow> wrlock t m = (False, m)"
    and unlock_writer: "writer m = Some u \<Longrightarrow> writer (unlock t m) = None \<and> readers (unlock t m) = readers m"
    and unlock_reader: "writer m = None \<Longrightarrow> writer (unlock t m) = None \<and> readers (unlock t m) = readers m - 1"
begin

text \<open>The lock knows its writer and the number of its readers, and never has both.\<close>

definition rw_inv :: "'m rw_scoped \<Rightarrow> bool" where
  "rw_inv s \<longleftrightarrow> (\<forall>t. writing s t \<longleftrightarrow> writer (rw_mu s) = Some t) \<and> finite {t. reading s t} \<and>
     readers (rw_mu s) = card {t. reading s t} \<and> (writer (rw_mu s) \<noteq> None \<longrightarrow> readers (rw_mu s) = 0)"

lemma rw_inv_init: "writer m = None \<Longrightarrow> readers m = 0 \<Longrightarrow> rw_inv (rw_init m)"
  by (simp add: rw_inv_def rw_init_def)

lemma reading_set:
  "{u. (f(t := True)) u} = insert t {u. f u}" "{u. (f(t := False)) u} = {u. f u} - {t}"
  by auto

lemma rd_inv: "rw_inv s \<Longrightarrow> \<not> writing s t \<Longrightarrow> rw_inv (ReadScope_Lock rdlock t s)"
proof (cases "writer (rw_mu s)")
  case None
  assume inv: "rw_inv s" and "\<not> writing s t"
  obtain m where "rdlock t (rw_mu s) = (True, m)" "writer m = None" "readers m = Suc (readers (rw_mu s))"
    using rd_free [OF None] by blast
  with inv None show ?thesis
    by (auto simp: rw_inv_def ReadScope_Lock_def reading_set card_insert_if simp del: fun_upd_apply)
next
  case (Some u)
  assume inv: "rw_inv s" and "\<not> writing s t"
  with Some have "u \<noteq> t" by (auto simp: rw_inv_def)
  from rd_wait [OF Some this] inv show ?thesis by (simp add: ReadScope_Lock_def)
qed

lemma wr_inv: "rw_inv s \<Longrightarrow> \<not> reading s t \<Longrightarrow> rw_inv (WriteScope_Lock wrlock t s)"
proof (cases "writer (rw_mu s) = None \<and> readers (rw_mu s) = 0")
  case True
  assume inv: "rw_inv s"
  obtain m where "wrlock t (rw_mu s) = (True, m)" "writer m = Some t" "readers m = 0"
    using wr_free [OF conjunct1 [OF True] conjunct2 [OF True]] by auto
  with inv True show ?thesis by (auto simp: rw_inv_def WriteScope_Lock_def)
next
  case False
  assume inv: "rw_inv s"
  show ?thesis
  proof (cases "writing s t")
    case True
    with inv show ?thesis by (simp add: WriteScope_Lock_def)
  next
    assume "\<not> writing s t"
    with inv False have "writer (rw_mu s) = None \<and> readers (rw_mu s) \<noteq> 0 \<or> (\<exists>u. writer (rw_mu s) = Some u \<and> u \<noteq> t)"
      by (cases "writer (rw_mu s)") (auto simp: rw_inv_def)
    then have "wrlock t (rw_mu s) = (False, rw_mu s)" using wr_wait by blast
    with inv show ?thesis by (simp add: WriteScope_Lock_def)
  qed
qed

lemma rd_end_inv: "rw_inv s \<Longrightarrow> rw_inv (ReadScope_Unlock unlock t s)"
proof (cases "reading s t")
  case True
  assume inv: "rw_inv s"
  with True have "readers (rw_mu s) \<noteq> 0" by (auto simp: rw_inv_def)
  with inv have none: "writer (rw_mu s) = None" by (auto simp: rw_inv_def)
  show ?thesis using inv True none unlock_reader [OF none, of t]
    by (auto simp: rw_inv_def ReadScope_Unlock_def reading_set simp del: fun_upd_apply)
qed (simp add: ReadScope_Unlock_def)

lemma wr_end_inv: "rw_inv s \<Longrightarrow> rw_inv (WriteScope_Unlock unlock t s)"
proof (cases "writing s t")
  case True
  assume inv: "rw_inv s"
  with True have some: "writer (rw_mu s) = Some t" by (auto simp: rw_inv_def)
  show ?thesis using inv some unlock_writer [OF some, of t] by (auto simp: rw_inv_def WriteScope_Unlock_def)
qed (simp add: WriteScope_Unlock_def)

lemma rw_reach:
  assumes "(rw_step rdlock wrlock unlock)\<^sup>*\<^sup>* (rw_init m) s" and "writer m = None" "readers m = 0"
  shows "rw_inv s"
  using assms(1)
proof (induction rule: rtranclp_induct)
  case base
  show ?case by (rule rw_inv_init [OF assms(2,3)])
next
  case (step s s')
  from step.hyps(2) show ?case by (rule rw_stepE) (use step.IH rd_inv wr_inv rd_end_inv wr_end_inv in auto)
qed

end

interpretation rw: shared_lock RWMutex_Rdlock RWMutex_Wrlock RWMutex_Unlock rw_writer rw_readers
  by unfold_locales (auto simp: rwlock_defs)

section \<open>The semaphore\<close>

text \<open>
  \<^verbatim>\<open>sem_t\<close> holds a count of at most \<^verbatim>\<open>SEM_VALUE_MAX\<close>. \<^verbatim>\<open>sem_init\<close> leaves the memory of the object as
  it is when it refuses the count, \<^verbatim>\<open>sem_wait\<close> fails when a signal interrupts it while it waits, and
  \<^verbatim>\<open>sem_post\<close> when the count is at its limit. The members of \<^verbatim>\<open>Semaphore\<close> build an exception in these cases and do not
  throw it, so that they return as on success.
\<close>

definition SEM_VALUE_MAX :: nat where "SEM_VALUE_MAX = 2147483647"

definition sem_init :: "nat \<Rightarrow> 32 word \<Rightarrow> int \<times> nat" where
  "sem_init memory cnt = (if SEM_VALUE_MAX < unat cnt then (-1, memory) else (0, unat cnt))"

definition sem_wait :: "bool \<Rightarrow> nat \<Rightarrow> int option \<times> nat" where
  "sem_wait signal v = (if 0 < v then (Some 0, v - 1) else if signal then (Some (-1), v) else (None, v))"

definition sem_post :: "nat \<Rightarrow> int \<times> nat" where
  "sem_post v = (if v = SEM_VALUE_MAX then (-1, v) else (0, Suc v))"

definition Semaphore :: "nat \<Rightarrow> 32 word \<Rightarrow> nat" where
  "Semaphore memory cnt = (case sem_init memory cnt of (_, v) \<Rightarrow> v)"

definition Semaphore_Wait :: "bool \<Rightarrow> nat \<Rightarrow> bool \<times> nat" where
  "Semaphore_Wait signal v = (case sem_wait signal v of (r, v') \<Rightarrow> (r \<noteq> None, v'))"

definition Semaphore_Notify :: "nat \<Rightarrow> nat" where
  "Semaphore_Notify v = (case sem_post v of (_, v') \<Rightarrow> v')"

text \<open>
  The calls of all threads on one semaphore in the order they take effect, with the numbers of calls
  of \<^verbatim>\<open>Wait\<close> that returned, of calls of \<^verbatim>\<open>Notify\<close>, and of signals that met a waiting thread.
\<close>

datatype sem_op = SemWait bool | SemNotify

record sem_run =
  sem :: nat
  passed :: nat
  posted :: nat
  interrupted :: nat

definition sem_start :: "nat \<Rightarrow> sem_run" where
  "sem_start v = \<lparr>sem = v, passed = 0, posted = 0, interrupted = 0\<rparr>"

fun sem_do :: "sem_op \<Rightarrow> sem_run \<Rightarrow> sem_run" where
  "sem_do (SemWait signal) s =
     (case Semaphore_Wait signal (sem s) of
        (ret, v) \<Rightarrow> s\<lparr>sem := v, passed := passed s + (if ret then 1 else 0),
                      interrupted := interrupted s + (if signal \<and> sem s = 0 then 1 else 0)\<rparr>)"
| "sem_do SemNotify s = s\<lparr>sem := Semaphore_Notify (sem s), posted := Suc (posted s)\<rparr>"

lemmas sem_defs = Semaphore_def Semaphore_Wait_def Semaphore_Notify_def sem_init_def sem_wait_def sem_post_def

lemma sem_do_count:
  assumes "sem s \<le> SEM_VALUE_MAX" "sem s + passed s \<le> c + posted s + interrupted s"
  shows "sem (sem_do a s) \<le> SEM_VALUE_MAX \<and>
    sem (sem_do a s) + passed (sem_do a s) \<le> c + posted (sem_do a s) + interrupted (sem_do a s)"
  using assms by (cases a) (auto simp: sem_defs)

lemma sem_fold_count:
  assumes "sem s \<le> SEM_VALUE_MAX" "sem s + passed s \<le> c + posted s + interrupted s"
  shows "sem (fold sem_do ops s) \<le> SEM_VALUE_MAX \<and>
    sem (fold sem_do ops s) + passed (fold sem_do ops s) \<le> c + posted (fold sem_do ops s) + interrupted (fold sem_do ops s)"
  using assms by (induction ops arbitrary: s) (simp_all add: sem_do_count del: sem_do.simps)

text \<open>While the counts stay below the limit no notification is lost, so that the bound is exact.\<close>

lemma sem_fold_exact:
  assumes "sem s + passed s = c + posted s + interrupted s"
    and "c + posted s + interrupted s + length ops \<le> SEM_VALUE_MAX"
  shows "sem (fold sem_do ops s) + passed (fold sem_do ops s) = c + posted (fold sem_do ops s) + interrupted (fold sem_do ops s)"
  using assms
proof (induction ops arbitrary: s)
  case (Cons a ops)
  have "sem (sem_do a s) + passed (sem_do a s) = c + posted (sem_do a s) + interrupted (sem_do a s)"
    using Cons.prems by (cases a) (auto simp: sem_defs)
  moreover have "posted (sem_do a s) + interrupted (sem_do a s) \<le> Suc (posted s + interrupted s)"
    by (cases a) (auto simp: sem_defs)
  ultimately show ?case using Cons.prems(2) by (auto intro!: Cons.IH)
qed simp

section \<open>Properties of the shared locks\<close>

text \<open>
  C13: However threads interleave locking and unlocking an \<^verbatim>\<open>RWMutex\<close> for reading and writing,
  each through one scope object at a time: at most one thread writes, none reads meanwhile, the lock
  counts its readers, a thread that wants to read gets the lock at once unless another writes, and
  one that wants to write gets it at once when nobody reads or writes.
\<close>

theorem RWMutex_exclusion:
  assumes "(rw_step RWMutex_Rdlock RWMutex_Wrlock RWMutex_Unlock)\<^sup>*\<^sup>* (rw_init RWMutex) s"
  shows "(\<forall>t u. writing s t \<longrightarrow> (writing s u \<longrightarrow> t = u) \<and> \<not> reading s u) \<and>
    finite {t. reading s t} \<and> rw_readers (rw_mu s) = card {t. reading s t} \<and>
    ((\<forall>u. \<not> writing s u) \<longrightarrow> (\<forall>t. reading (ReadScope_Lock RWMutex_Rdlock t s) t)) \<and>
    ((\<forall>u. \<not> writing s u \<and> \<not> reading s u) \<longrightarrow> (\<forall>t. writing (WriteScope_Lock RWMutex_Wrlock t s) t))"
proof -
  have inv: "rw.rw_inv s" by (rule rw.rw_reach [OF assms]) (simp_all add: RWMutex_def)
  then have some: "\<forall>t. writing s t \<longleftrightarrow> rw_writer (rw_mu s) = Some t" and fin: "finite {t. reading s t}"
    and rd: "rw_readers (rw_mu s) = card {t. reading s t}"
    and none: "rw_writer (rw_mu s) \<noteq> None \<longrightarrow> rw_readers (rw_mu s) = 0"
    unfolding rw.rw_inv_def by auto
  have "\<not> reading s u" if "writing s t" for t u
    using some none rd fin that by (metis (full_types) card_0_eq empty_iff mem_Collect_eq option.discI)
  moreover have "reading (ReadScope_Lock RWMutex_Rdlock t s) t" if "\<forall>u. \<not> writing s u" for t
    using that some by (cases "rw_writer (rw_mu s)") (auto simp: ReadScope_Lock_def rwlock_defs)
  moreover have "writing (WriteScope_Lock RWMutex_Wrlock t s) t" if "\<forall>u. \<not> writing s u \<and> \<not> reading s u" for t
    using that some rd by (cases "rw_writer (rw_mu s)") (auto simp: WriteScope_Lock_def rwlock_defs)
  ultimately show ?thesis using some fin rd by auto
qed

theorem RWMutex_exclusion_witness:
  "\<not> reading (ReadScope_Lock RWMutex_Rdlock 2 (WriteScope_Lock RWMutex_Wrlock 1 (rw_init RWMutex))) 2"
proof -
  let ?s1 = "WriteScope_Lock RWMutex_Wrlock 1 (rw_init RWMutex)"
  let ?s2 = "ReadScope_Lock RWMutex_Rdlock 2 ?s1"
  have "rw_step RWMutex_Rdlock RWMutex_Wrlock RWMutex_Unlock (rw_init RWMutex) ?s1"
    by (rule rw_step.wr) (simp add: rw_init_def)
  moreover have "rw_step RWMutex_Rdlock RWMutex_Wrlock RWMutex_Unlock ?s1 ?s2"
    by (rule rw_step.rd) (simp add: rw_init_def RWMutex_def WriteScope_Lock_def rwlock_defs)
  ultimately have "(rw_step RWMutex_Rdlock RWMutex_Wrlock RWMutex_Unlock)\<^sup>*\<^sup>* (rw_init RWMutex) ?s2" by auto
  from RWMutex_exclusion [OF this] have "writing ?s2 1 \<longrightarrow> \<not> reading ?s2 2" by blast
  moreover have "writing ?s2 1"
    by (simp add: ReadScope_Lock_def WriteScope_Lock_def rw_init_def RWMutex_def rwlock_defs)
  ultimately show ?thesis by blast
qed

text \<open>
  A thread that reads inside its own write lock loses the lock: the refused \<^verbatim>\<open>Rdlock\<close> returns as if
  it had succeeded, and the end of the reading scope releases the write lock, so that another thread
  writes at the same time.
\<close>

lemma nested_read_breaks_exclusion:
  defines "s1 \<equiv> ReadScope_Lock RWMutex_Rdlock 1 (WriteScope_Lock RWMutex_Wrlock 1 (rw_init RWMutex))"
  defines "s2 \<equiv> WriteScope_Lock RWMutex_Wrlock 2 (ReadScope_Unlock RWMutex_Unlock 1 s1)"
  shows "writing s2 1 \<and> writing s2 2"
  by (simp add: s1_def s2_def ReadScope_Lock_def ReadScope_Unlock_def WriteScope_Lock_def rw_init_def
      RWMutex_def rwlock_defs)

lemma NullRWMutex_no_exclusion:
  "writing (WriteScope_Lock NullRWMutex_Wrlock 2 (WriteScope_Lock NullRWMutex_Wrlock 1 (rw_init ()))) t \<longleftrightarrow> t = 1 \<or> t = 2"
  by (auto simp: WriteScope_Lock_def rw_init_def NullRWMutex_Wrlock_def)

text \<open>
  C14: However the calls of the threads interleave, the calls of \<^verbatim>\<open>Wait\<close> on a semaphore constructed with a count
  of at most \<^verbatim>\<open>SEM_VALUE_MAX\<close> that have returned exceed the count and the notifications by at most the number
  of signals that met a waiting thread; the count stays within its limit, and as long as fewer calls were made
  than remain to the limit the bound is exact, so that no notification is lost.
\<close>

theorem Semaphore_bounds_waits:
  assumes "unat cnt \<le> SEM_VALUE_MAX" and r: "r = fold sem_do ops (sem_start (Semaphore memory cnt))"
  shows "passed r + sem r \<le> unat cnt + posted r + interrupted r \<and> sem r \<le> SEM_VALUE_MAX \<and>
    (unat cnt + length ops \<le> SEM_VALUE_MAX \<longrightarrow> passed r + sem r = unat cnt + posted r + interrupted r) \<and>
    ((\<forall>a \<in> set ops. a \<noteq> SemWait True) \<longrightarrow> passed r \<le> unat cnt + posted r)"
proof -
  let ?s = "sem_start (Semaphore memory cnt)"
  have v: "sem ?s = unat cnt" "passed ?s = 0" "posted ?s = 0" "interrupted ?s = 0"
    using assms(1) by (simp_all add: sem_start_def sem_defs)
  have count: "sem r \<le> SEM_VALUE_MAX \<and> sem r + passed r \<le> unat cnt + posted r + interrupted r"
    unfolding r by (rule sem_fold_count) (use assms(1) v in simp_all)
  have exact: "unat cnt + length ops \<le> SEM_VALUE_MAX \<longrightarrow> sem r + passed r = unat cnt + posted r + interrupted r"
    unfolding r by (rule impI, rule sem_fold_exact) (simp_all add: v)
  have quiet: "interrupted (fold sem_do ops s) = interrupted s" if "\<forall>a \<in> set ops. a \<noteq> SemWait True" for s
    using that
  proof (induction ops arbitrary: s)
    case (Cons a ops)
    have "interrupted (sem_do a s) = interrupted s" using Cons.prems by (cases a) (auto simp: sem_defs)
    with Cons show ?case by (simp del: sem_do.simps)
  qed simp
  have "(\<forall>a \<in> set ops. a \<noteq> SemWait True) \<longrightarrow> interrupted r = 0" using quiet [of ?s] v(4) unfolding r by simp
  with count exact show ?thesis by linarith
qed

theorem Semaphore_bounds_waits_witness:
  "passed (fold sem_do [SemWait False, SemNotify, SemWait False, SemWait False] (sem_start (Semaphore 0 1))) \<le> 2"
proof -
  let ?ops = "[SemWait False, SemNotify, SemWait False, SemWait False]"
  let ?r = "fold sem_do ?ops (sem_start (Semaphore 0 1))"
  have "passed ?r \<le> unat (1 :: 32 word) + posted ?r"
    using Semaphore_bounds_waits [OF _ refl, of 1 ?ops 0] by (simp add: SEM_VALUE_MAX_def del: fold.simps sem_do.simps)
  moreover have "posted ?r = 1" by (simp add: SEM_VALUE_MAX_def sem_start_def sem_defs)
  ultimately show ?thesis by (simp del: fold.simps sem_do.simps)
qed

text \<open>A signal lets a second thread into a section meant for one.\<close>

lemma signal_passes_Wait:
  "passed (fold sem_do [SemWait False, SemWait True] (sem_start (Semaphore 0 1))) = 2"
  by (simp add: SEM_VALUE_MAX_def sem_start_def sem_defs)

text \<open>A count above the limit leaves whatever the memory held.\<close>

lemma Semaphore_refused: "SEM_VALUE_MAX < unat cnt \<Longrightarrow> Semaphore memory cnt = memory"
  by (simp add: sem_defs)

end
