(* ===== verification/Log.thy ===== *)
theory Log
  imports Sylar_Strings
begin

text \<open>
  The logging module: \<^verbatim>\<open>src/src/log.cc\<close> and its header. Levels, events, the formatter with its
  pattern language, appenders, loggers and the manager of named loggers. Loggers and appenders
  live in lists, and a shared pointer is an index. Standard output and error are part of the
  state; a file appender keeps what was written to its stream since it was opened. What the
  environment decides is an argument: the text of a formatted time, and what the file system
  answers, whose calls are taken not to throw.
\<close>

section \<open>Levels\<close>

datatype Level = UNKNOW | DEBUG | INFO | WARN | ERROR | FATAL

fun level_number :: "Level \<Rightarrow> nat" where
  "level_number UNKNOW = 0" | "level_number DEBUG = 1" | "level_number INFO = 2"
| "level_number WARN = 3" | "level_number ERROR = 4" | "level_number FATAL = 5"

lemma level_number_inject [simp]: "level_number l = level_number k \<longleftrightarrow> l = k"
  by (cases l; cases k) auto

instantiation Level :: linorder
begin

definition less_eq_Level :: "Level \<Rightarrow> Level \<Rightarrow> bool" where
  "less_eq_Level l k \<longleftrightarrow> level_number l \<le> level_number k"

definition less_Level :: "Level \<Rightarrow> Level \<Rightarrow> bool" where
  "less_Level l k \<longleftrightarrow> level_number l < level_number k"

instance
  by standard (auto simp: less_eq_Level_def less_Level_def)

end

definition LevelToString :: "Level \<Rightarrow> string" where
  "LevelToString l = (case l of
       UNKNOW \<Rightarrow> ''UNKNOW'' | DEBUG \<Rightarrow> ''DEBUG'' | INFO \<Rightarrow> ''INFO'' | WARN \<Rightarrow> ''WARN''
     | ERROR \<Rightarrow> ''ERROR'' | FATAL \<Rightarrow> ''FATAL'')"

definition LevelFromString :: "string \<Rightarrow> Level" where
  "LevelFromString str =
     (let s = map toupper str in
      if s = ''DEBUG'' then DEBUG else if s = ''INFO'' then INFO else if s = ''WARN'' then WARN
      else if s = ''ERROR'' then ERROR else if s = ''FATAL'' then FATAL else UNKNOW)"

section \<open>Events\<close>

record log_event =
  le_logger_name :: string
  le_filename :: string
  le_level :: Level
  le_line :: u32
  le_eplase :: u32
  le_thread_id :: u32
  le_coroutine_id :: u32
  le_timestamp :: u64
  le_stream :: string

definition LogEvent ::
  "string \<Rightarrow> string \<Rightarrow> Level \<Rightarrow> u32 \<Rightarrow> u32 \<Rightarrow> u32 \<Rightarrow> u32 \<Rightarrow> u64 \<Rightarrow> log_event" where
  "LogEvent name filename level line eplase thread_id coroutine_id timestamp =
     \<lparr>le_logger_name = name, le_filename = filename, le_level = level, le_line = line, le_eplase = eplase,
      le_thread_id = thread_id, le_coroutine_id = coroutine_id, le_timestamp = timestamp, le_stream = []\<rparr>"

text \<open>\<^verbatim>\<open>LogEvent::Format\<close>, given the text \<^verbatim>\<open>vasprintf\<close> produces.\<close>

definition EventFormat :: "string \<Rightarrow> log_event \<Rightarrow> log_event" where
  "EventFormat txt ev = ev\<lparr>le_stream := le_stream ev @ txt\<rparr>"

section \<open>The formatter\<close>

datatype formatter_item =
    MessageFormatterItem | LevelFormatterItem | TimestampFormatterItem string | TabFormatterItem
  | ThreadIdFormatterItem | CoroutineIdFormatterItem | LoggernameFormatterItem | FilenameFormatterItem
  | LineFormatterItem | BreaksFormatterItem | EplaseFormatterItem | StringFormatterItem string

fun ItemFormat :: "(string \<Rightarrow> u64 \<Rightarrow> string) \<Rightarrow> formatter_item \<Rightarrow> log_event \<Rightarrow> string" where
  "ItemFormat strftime MessageFormatterItem ev = le_stream ev"
| "ItemFormat strftime LoggernameFormatterItem ev = le_logger_name ev"
| "ItemFormat strftime FilenameFormatterItem ev = le_filename ev"
| "ItemFormat strftime LevelFormatterItem ev = LevelToString (le_level ev)"
| "ItemFormat strftime LineFormatterItem ev = dec_string (unat (le_line ev))"
| "ItemFormat strftime EplaseFormatterItem ev = dec_string (unat (le_eplase ev))"
| "ItemFormat strftime ThreadIdFormatterItem ev = dec_string (unat (le_thread_id ev))"
| "ItemFormat strftime CoroutineIdFormatterItem ev = dec_string (unat (le_coroutine_id ev))"
| "ItemFormat strftime (TimestampFormatterItem fmt) ev = strftime fmt (le_timestamp ev)"
| "ItemFormat strftime TabFormatterItem ev = [CHR 0x09]"
| "ItemFormat strftime BreaksFormatterItem ev = [LF]"
| "ItemFormat strftime (StringFormatterItem str) ev = str"

text \<open>
  The inner loop of \<^verbatim>\<open>Init\<close>: from position \<open>idx\<close> of pattern \<open>p\<close>, after the percent sign at \<open>i\<close>. The result
  is the position after the directive, its name, its details, and whether a brace is open.
\<close>

function scan_loop ::
  "string \<Rightarrow> nat \<Rightarrow> nat \<Rightarrow> nat \<Rightarrow> bool \<Rightarrow> string \<Rightarrow> string \<Rightarrow> nat \<times> string \<times> string \<times> bool" where
  "scan_loop p i idx start flag character details =
     (if idx < length p then
        (let c = p ! idx in
         if \<not> flag \<and> \<not> isalpha c \<and> c \<noteq> CHR ''{'' \<and> c \<noteq> CHR ''}''
         then (idx, substr (i + 1) (idx - i - 1) p, details, flag)
         else if \<not> flag \<and> c = CHR ''{''
         then scan_loop p i (idx + 1) idx True (substr (i + 1) (idx - i - 1) p) details
         else if flag \<and> c = CHR ''}''
         then (idx + 1, character, substr (start + 1) (idx - start - 1) p, False)
         else if idx + 1 = length p
         then (idx + 1, substr (i + 1) (idx + 1 - i - 1) p, details, flag)
         else scan_loop p i (idx + 1) start flag character details)
      else (idx, character, details, flag))"
  by pat_completeness auto
termination
  by (relation "measure (\<lambda>(p, i, idx, start, flag, character, details). length p - idx)") auto

declare scan_loop.simps [simp del]

lemma scan_loop_end [simp]: "length p \<le> idx \<Longrightarrow> scan_loop p i idx start flag ch det = (idx, ch, det, flag)"
  by (simp add: scan_loop.simps)

lemma scan_loop_bound: "idx \<le> fst (scan_loop p i idx start flag ch det)"
proof (induction "length p - idx" arbitrary: idx start flag ch det rule: less_induct)
  case less
  have "idx < length p \<Longrightarrow> Suc idx \<le> fst (scan_loop p i (idx + 1) st fl c dt)" for st fl c dt
    using less [of "idx + 1"] by simp
  then have "idx < length p \<Longrightarrow> idx \<le> fst (scan_loop p i (idx + 1) st fl c dt)" for st fl c dt
    using Suc_leD by blast
  then show ?case
    by (subst scan_loop.simps) (simp add: Let_def)
qed

lemma scan_loop_pos: "(j, r) = scan_loop p i idx start flag ch det \<Longrightarrow> idx \<le> j"
  using scan_loop_bound [of idx p i start flag ch det] by (metis fst_conv)

text \<open>The outer loop: the tuples collected so far, and the plain characters before the next directive.\<close>

type_synonym pattern_part = "string \<times> string \<times> nat"

function init_loop :: "string \<Rightarrow> nat \<Rightarrow> string \<Rightarrow> pattern_part list \<Rightarrow> pattern_part list" where
  "init_loop p i nstr vec =
     (if i < length p then
        if p ! i \<noteq> CHR ''%'' then init_loop p (i + 1) (nstr @ [p ! i]) vec
        else if i + 1 < length p \<and> p ! (i + 1) = CHR ''%'' then init_loop p (i + 2) (nstr @ ''%'') vec
        else (case scan_loop p i (i + 1) 0 False [] [] of
                (idx, character, details, flag) \<Rightarrow>
                  (let vec1 = (if nstr \<noteq> [] then vec @ [(nstr, [], 0)] else vec) in
                   if \<not> flag then init_loop p idx [] (vec1 @ [(character, details, 1)])
                   else init_loop p (i + 1) [] (vec1 @ [(''<<parse-error>>'', [], 0)])))
      else vec)"
  by pat_completeness auto
termination
  by (relation "measure (\<lambda>(p, i, nstr, vec). length p - i)") (auto dest!: scan_loop_pos)

declare init_loop.simps [simp del]

definition directive :: "string \<Rightarrow> string \<Rightarrow> formatter_item option" where
  "directive str details =
     (if str = ''m'' then Some MessageFormatterItem else if str = ''p'' then Some LevelFormatterItem
      else if str = ''d'' then Some (TimestampFormatterItem details) else if str = ''T'' then Some TabFormatterItem
      else if str = ''t'' then Some ThreadIdFormatterItem else if str = ''F'' then Some CoroutineIdFormatterItem
      else if str = ''c'' then Some LoggernameFormatterItem else if str = ''f'' then Some FilenameFormatterItem
      else if str = ''l'' then Some LineFormatterItem else if str = ''n'' then Some BreaksFormatterItem
      else if str = ''u'' then Some EplaseFormatterItem else None)"

fun part_item :: "pattern_part \<Rightarrow> formatter_item" where
  "part_item (str, details, kind) =
     (if kind = 1 then (case directive str details of Some it \<Rightarrow> it | None \<Rightarrow> StringFormatterItem ''<<parse-error>>'')
      else StringFormatterItem str)"

definition LogFormatter :: "string \<Rightarrow> formatter_item list" where
  "LogFormatter pattern = map part_item (init_loop pattern 0 [] [])"

definition default_pattern :: string where
  "default_pattern = ''%d{%Y-%m-%d %H:%M:%S}%T%u%T%t%T%F%T[%p]%T[%c]%T%f:%l%T%m%n''"

definition FormatterFormat :: "(string \<Rightarrow> u64 \<Rightarrow> string) \<Rightarrow> formatter_item list \<Rightarrow> log_event \<Rightarrow> string" where
  "FormatterFormat strftime items ev = concat (map (\<lambda>it. ItemFormat strftime it ev) items)"

section \<open>Appenders, loggers and their manager\<close>

datatype sink = LogAppenderToStd | LogAppenderToFile string

text \<open>
  An appender: where it writes, its formatter, and for its file stream whether it is open, what was
  written to it since it was opened, and how much of that was flushed to the file.
\<close>

record appender =
  sink :: sink
  formatter :: "formatter_item list"
  ofs_open :: bool
  ofs :: string
  ofs_flushed :: nat

record logger =
  lg_name :: string
  max_level :: Level
  lg_appenders :: "nat list"

record log_state =
  apds :: "appender list"
  lgs :: "logger list"
  loggers :: "(string \<times> nat) list"
  root :: nat
  cout :: string
  cout_flushed :: nat
  cerr :: string

datatype log_error = InvalidArgument string | InvalidIterator

text \<open>The answers of the file system: whether a path exists, and whether directories and a file can be created.\<close>

record file_system =
  exists_path :: "string \<Rightarrow> bool"
  create_directories :: "string \<Rightarrow> bool"
  opens :: "string \<Rightarrow> bool"

definition parent_path :: "string \<Rightarrow> string" where
  "parent_path p =
     (let d = dropWhile (\<lambda>c. c \<noteq> CHR ''/'') (rev p); e = dropWhile (\<lambda>c. c = CHR ''/'') d
      in if d = [] then [] else if e = [] then ''/'' else rev e)"

text \<open>\<^verbatim>\<open>LogAppenderToFile::Reopen\<close>, on the appender and the text on standard error.\<close>

definition Reopen :: "file_system \<Rightarrow> string \<Rightarrow> appender \<times> string \<Rightarrow> appender \<times> string" where
  "Reopen fs filename s =
     (case s of (apd, err) \<Rightarrow>
        (let dir = parent_path filename;
             err1 = (if dir \<noteq> [] \<and> \<not> exists_path fs dir \<and> \<not> create_directories fs dir
                     then err @ ''file path create failed'' @ [LF] else err);
             opened = opens fs filename
         in (apd\<lparr>ofs_open := opened, ofs := [], ofs_flushed := 0\<rparr>,
             if opened then err1 else err1 @ ''file: '' @ filename @ '' open failed'' @ [LF])))"

definition LogAppender :: "sink \<Rightarrow> appender" where
  "LogAppender k =
     \<lparr>sink = k, formatter = LogFormatter default_pattern, ofs_open = False, ofs = [], ofs_flushed = 0\<rparr>"

definition new_std_appender :: "log_state \<Rightarrow> nat \<times> log_state" where
  "new_std_appender st = (length (apds st), st\<lparr>apds := apds st @ [LogAppender LogAppenderToStd]\<rparr>)"

definition new_file_appender :: "file_system \<Rightarrow> string \<Rightarrow> log_state \<Rightarrow> nat \<times> log_state" where
  "new_file_appender fs filename st =
     (case Reopen fs filename (LogAppender (LogAppenderToFile filename), cerr st) of
        (apd, err) \<Rightarrow> (length (apds st), st\<lparr>apds := apds st @ [apd], cerr := err\<rparr>))"

definition SetFormatter :: "nat \<Rightarrow> formatter_item list \<Rightarrow> log_state \<Rightarrow> log_state" where
  "SetFormatter a items st = st\<lparr>apds := (apds st)[a := (apds st ! a)\<lparr>formatter := items\<rparr>]\<rparr>"

text \<open>\<^verbatim>\<open>Log\<close> of an appender. A stream that could not be opened takes no text.\<close>

definition AppenderLog ::
  "(string \<Rightarrow> u64 \<Rightarrow> string) \<Rightarrow> file_system \<Rightarrow> log_event \<Rightarrow> nat \<Rightarrow> log_state \<Rightarrow> log_state" where
  "AppenderLog strftime fs ev a st =
     (let apd = apds st ! a; txt = FormatterFormat strftime (formatter apd) ev in
      case sink apd of
        LogAppenderToStd \<Rightarrow> st\<lparr>cout := cout st @ txt\<rparr>
      | LogAppenderToFile f \<Rightarrow>
          (case (if exists_path fs f then (apd, cerr st)
                 else Reopen fs f (apd, cerr st @ ''file: '' @ f @ '' is deleted, try to reopen it'' @ [LF])) of
             (apd1, err) \<Rightarrow>
               st\<lparr>apds := (apds st)[a := (if ofs_open apd1 then apd1\<lparr>ofs := ofs apd1 @ txt\<rparr> else apd1)], cerr := err\<rparr>))"

definition AppenderFlush :: "nat \<Rightarrow> log_state \<Rightarrow> log_state" where
  "AppenderFlush a st =
     (case sink (apds st ! a) of
        LogAppenderToStd \<Rightarrow> st\<lparr>cout_flushed := length (cout st)\<rparr>
      | LogAppenderToFile f \<Rightarrow> st\<lparr>apds := (apds st)[a := (apds st ! a)\<lparr>ofs_flushed := length (ofs (apds st ! a))\<rparr>]\<rparr>)"

definition GetAppenderName :: "sink \<Rightarrow> string" where
  "GetAppenderName k = (case k of LogAppenderToStd \<Rightarrow> ''LogAppenderToStd'' | LogAppenderToFile _ \<Rightarrow> ''LogAppenderToFile'')"

definition Logger :: "string \<Rightarrow> logger" where
  "Logger name = \<lparr>lg_name = name, max_level = DEBUG, lg_appenders = []\<rparr>"

definition set_logger :: "nat \<Rightarrow> (logger \<Rightarrow> logger) \<Rightarrow> log_state \<Rightarrow> log_state" where
  "set_logger l f st = st\<lparr>lgs := (lgs st)[l := f (lgs st ! l)]\<rparr>"

definition SetMaxLevel :: "nat \<Rightarrow> Level \<Rightarrow> log_state \<Rightarrow> log_state" where
  "SetMaxLevel l level = set_logger l (\<lambda>lg. lg\<lparr>max_level := level\<rparr>)"

definition AddAppender :: "nat \<Rightarrow> nat \<Rightarrow> log_state \<Rightarrow> log_state" where
  "AddAppender l a = set_logger l (\<lambda>lg. lg\<lparr>lg_appenders := lg_appenders lg @ [a]\<rparr>)"

text \<open>
  \<^verbatim>\<open>DelAppender\<close> erases the element its iterator points to and increments the iterator, which is
  no longer valid.
\<close>

definition DelAppender :: "nat \<Rightarrow> nat \<Rightarrow> log_state \<Rightarrow> log_error + log_state" where
  "DelAppender l a st = (if a \<in> set (lg_appenders (lgs st ! l)) then Inl InvalidIterator else Inr st)"

definition LoggerLog ::
  "(string \<Rightarrow> u64 \<Rightarrow> string) \<Rightarrow> file_system \<Rightarrow> nat \<Rightarrow> log_event \<Rightarrow> log_state \<Rightarrow> log_state" where
  "LoggerLog strftime fs l ev st =
     fold (\<lambda>a st. if le_level ev \<le> max_level (lgs st ! l) then AppenderLog strftime fs ev a st else st)
       (lg_appenders (lgs st ! l)) st"

definition LoggerFlush :: "nat \<Rightarrow> log_event \<Rightarrow> log_state \<Rightarrow> log_state" where
  "LoggerFlush l ev st =
     fold (\<lambda>a st. if le_level ev \<le> max_level (lgs st ! l) then AppenderFlush a st else st)
       (lg_appenders (lgs st ! l)) st"

text \<open>Each line of \<^verbatim>\<open>CheckAppenders\<close> ends with \<^verbatim>\<open>std::endl\<close>, which flushes.\<close>

definition CheckAppenders :: "nat \<Rightarrow> log_state \<Rightarrow> log_state" where
  "CheckAppenders l st =
     fold (\<lambda>a st. let out = cout st @ GetAppenderName (sink (apds st ! a)) @ [LF]
                  in st\<lparr>cout := out, cout_flushed := length out\<rparr>)
       (lg_appenders (lgs st ! l)) st"

text \<open>The destructor of \<^verbatim>\<open>LogEventWrapper\<close> logs the event it holds.\<close>

definition LogEventWrapper_end ::
  "(string \<Rightarrow> u64 \<Rightarrow> string) \<Rightarrow> file_system \<Rightarrow> nat \<Rightarrow> log_event \<Rightarrow> log_state \<Rightarrow> log_state" where
  "LogEventWrapper_end strftime fs l ev st = LoggerLog strftime fs l ev st"

text \<open>
  The macros \<^verbatim>\<open>SYLAR_LOG\<close> and \<^verbatim>\<open>SYLAR_FMT_LOG\<close>: the event is built, filled and logged only when the level
  is enabled; the text is what the user writes to the stream, or what \<^verbatim>\<open>vasprintf\<close> produces.
\<close>

definition SYLAR_LOG ::
  "(string \<Rightarrow> u64 \<Rightarrow> string) \<Rightarrow> file_system \<Rightarrow> nat \<Rightarrow> Level \<Rightarrow> string \<Rightarrow> u32 \<Rightarrow> u32 \<Rightarrow> u64 \<Rightarrow> string \<Rightarrow> log_state \<Rightarrow> log_state" where
  "SYLAR_LOG strftime fs l level file line tid now txt st =
     (if level \<le> max_level (lgs st ! l)
      then LogEventWrapper_end strftime fs l
             ((LogEvent (lg_name (lgs st ! l)) file level line 0 tid 0 now)\<lparr>le_stream := txt\<rparr>) st
      else st)"

definition SYLAR_FMT_LOG ::
  "(string \<Rightarrow> u64 \<Rightarrow> string) \<Rightarrow> file_system \<Rightarrow> nat \<Rightarrow> Level \<Rightarrow> string \<Rightarrow> u32 \<Rightarrow> u32 \<Rightarrow> u64 \<Rightarrow> string \<Rightarrow> log_state \<Rightarrow> log_state" where
  "SYLAR_FMT_LOG strftime fs l level file line tid now txt st =
     (if level \<le> max_level (lgs st ! l)
      then LogEventWrapper_end strftime fs l
             (EventFormat txt (LogEvent (lg_name (lgs st ! l)) file level line 0 tid 0 now)) st
      else st)"

definition LoggerManager :: log_state where
  "LoggerManager =
     (let st0 = \<lparr>apds = [], lgs = [Logger ''root''], loggers = [], root = 0, cout = [], cout_flushed = 0, cerr = []\<rparr>;
          st1 = SetMaxLevel 0 FATAL st0
      in case new_std_appender st1 of
           (a, st2) \<Rightarrow> (AddAppender 0 a st2)\<lparr>loggers := map_put ''root'' 0 (loggers st2)\<rparr>)"

definition GetRoot :: "log_state \<Rightarrow> nat" where "GetRoot st = root st"

definition SetRoot :: "nat \<Rightarrow> log_state \<Rightarrow> log_state" where "SetRoot l st = st\<lparr>root := l\<rparr>"

definition GetLogger :: "string \<Rightarrow> log_state \<Rightarrow> log_error + nat" where
  "GetLogger name st = (case map_of (loggers st) name of None \<Rightarrow> Inl (InvalidArgument name) | Some l \<Rightarrow> Inr l)"

definition NewLogger :: "string \<Rightarrow> log_state \<Rightarrow> nat \<times> log_state" where
  "NewLogger name st =
     (case map_of (loggers st) name of
        None \<Rightarrow> (length (lgs st), st\<lparr>lgs := lgs st @ [Logger name], loggers := map_put name (length (lgs st)) (loggers st)\<rparr>)
      | Some l \<Rightarrow> (l, st))"

definition DelLogger :: "string \<Rightarrow> log_state \<Rightarrow> log_state" where
  "DelLogger name st =
     (if map_of (loggers st) name = None then st else st\<lparr>loggers := map_erase name (loggers st)\<rparr>)"

section \<open>Configuration records\<close>

record log_appender_conf =
  ac_type :: string
  ac_file :: string
  ac_formatter :: string

record logger_conf =
  lc_name :: string
  lc_level :: string
  lc_appenders :: "log_appender_conf list"

definition log_appender_conf_eq :: "log_appender_conf \<Rightarrow> log_appender_conf \<Rightarrow> bool" where
  "log_appender_conf_eq l r \<longleftrightarrow> ac_type l = ac_type r \<and> ac_file l = ac_file r \<and> ac_formatter l = ac_formatter r"

definition logger_conf_eq :: "logger_conf \<Rightarrow> logger_conf \<Rightarrow> bool" where
  "logger_conf_eq l r \<longleftrightarrow> lc_name l = lc_name r \<and> lc_level l = lc_level r \<and>
     list_all2 log_appender_conf_eq (lc_appenders l) (lc_appenders r)"

text \<open>The comparisons decide equality of the configurations, which \<^verbatim>\<open>ConfigVar::SetValue\<close> relies on.\<close>

lemma log_appender_conf_eq_iff [simp]: "log_appender_conf_eq l r \<longleftrightarrow> l = r"
  by (cases l; cases r) (simp add: log_appender_conf_eq_def)

lemma logger_conf_eq_iff [simp]: "logger_conf_eq l r \<longleftrightarrow> l = r"
proof -
  have "log_appender_conf_eq = (=)" by (simp add: fun_eq_iff)
  then show ?thesis by (cases l; cases r) (simp add: logger_conf_eq_def list.rel_eq)
qed

text \<open>\<^verbatim>\<open>operator<\<close> of \<^verbatim>\<open>LoggerConf\<close>, which orders sets of configurations by name.\<close>

definition logger_conf_less :: "logger_conf \<Rightarrow> logger_conf \<Rightarrow> bool" where
  "logger_conf_less l r \<longleftrightarrow> lc_name l < lc_name r"

end
