(* ===== verification/Log_Laws.thy ===== *)
theory Log_Laws
  imports Log
begin

text \<open>
  Laws of the logging module. The pattern parser, which walks over the pattern with indices and
  flags, equals a short recursive parser; with that, patterns parse back to the directives
  and texts they were written from. The manager of loggers keeps its names.
\<close>

section \<open>The pattern parser\<close>

text \<open>The parser as a recursion over the text: a name, and details when a brace follows.\<close>

definition name_char :: "char \<Rightarrow> bool" where
  "name_char c \<longleftrightarrow> isalpha c \<or> c = CHR ''}''"

definition plain :: "string \<Rightarrow> pattern_part list" where
  "plain nstr = (if nstr = [] then [] else [(nstr, [], 0)])"

lemma length_tl_dropWhile: "length (tl (dropWhile P xs)) \<le> length xs"
  using length_dropWhile_le [of P xs] by simp

function pattern_parts :: "string \<Rightarrow> string \<Rightarrow> pattern_part list" where
  "pattern_parts nstr [] = []"
| "pattern_parts nstr (c # cs) =
     (if c \<noteq> CHR ''%'' then pattern_parts (nstr @ [c]) cs
      else if cs \<noteq> [] \<and> hd cs = CHR ''%'' then pattern_parts (nstr @ ''%'') (tl cs)
      else let name = takeWhile name_char cs; rest = dropWhile name_char cs in
        if rest \<noteq> [] \<and> hd rest = CHR ''{'' then
          if CHR ''}'' \<in> set (tl rest)
          then plain nstr @ (name, takeWhile (\<lambda>c. c \<noteq> CHR ''}'') (tl rest), 1) #
                 pattern_parts [] (tl (dropWhile (\<lambda>c. c \<noteq> CHR ''}'') (tl rest)))
          else plain nstr @ (''<<parse-error>>'', [], 0) # pattern_parts [] cs
        else plain nstr @ (name, [], 1) # pattern_parts [] rest)"
  by pat_completeness auto

termination
proof (relation "measure (\<lambda>(nstr, cs). length cs)", goal_cases)
  case (4 nstr c cs)
  then show ?case
    using length_tl_dropWhile [of "\<lambda>c. c \<noteq> CHR ''}''" "tl (dropWhile name_char cs)"]
      length_tl_dropWhile [of name_char cs] by simp
next
  case (6 nstr c cs)
  then show ?case using length_dropWhile_le [of name_char cs] by (simp add: less_Suc_eq_le)
qed auto

declare pattern_parts.simps [simp del]

text \<open>The two phases of the inner loop.\<close>

lemma scan_details:
  "idx \<le> length p \<Longrightarrow>
   (if CHR ''}'' \<in> set (drop idx p)
    then let j = idx + length (takeWhile (\<lambda>c. c \<noteq> CHR ''}'') (drop idx p)) in
      scan_loop p i idx start True ch det = (j + 1, ch, substr (start + 1) (j - start - 1) p, False)
    else snd (snd (snd (scan_loop p i idx start True ch det))))"
proof (induction "length p - idx" arbitrary: idx ch)
  case 0
  then show ?case by simp
next
  case (Suc n)
  then have lt: "idx < length p" by simp
  then have cons: "drop idx p = p ! idx # drop (idx + 1) p" by (simp add: Cons_nth_drop_Suc)
  show ?case
  proof (cases "p ! idx = CHR ''}''")
    case True
    with lt cons show ?thesis by (simp add: scan_loop.simps [of p i idx] Let_def)
  next
    case False
    show ?thesis
    proof (cases "idx + 1 = length p")
      case True
      with False lt cons show ?thesis by (simp add: scan_loop.simps [of p i idx] Let_def)
    next
      case not_end: False
      with False lt have "scan_loop p i idx start True ch det = scan_loop p i (idx + 1) start True ch det"
        by (simp add: scan_loop.simps [of p i idx] Let_def)
      moreover have "n = length p - (idx + 1)" "idx + 1 \<le> length p" using Suc(2) lt by simp_all
      note Suc(1) [OF this, of ch]
      ultimately show ?thesis using False cons by (auto simp: Let_def split: if_splits)
    qed
  qed
qed

lemma scan_name:
  "idx < length p \<Longrightarrow>
   scan_loop p i idx start False ch det =
     (let j = idx + length (takeWhile name_char (drop idx p)) in
      if j < length p \<and> p ! j = CHR ''{''
      then scan_loop p i (j + 1) j True (substr (i + 1) (j - i - 1) p) det
      else (j, substr (i + 1) (j - i - 1) p, det, False))"
proof (induction "length p - idx" arbitrary: idx)
  case 0
  then show ?case by simp
next
  case (Suc n)
  note lt = Suc(3)
  then have cons: "drop idx p = p ! idx # drop (idx + 1) p" by (simp add: Cons_nth_drop_Suc)
  have brace: "\<not> isalpha (CHR ''{'')" "\<not> name_char (CHR ''{'')" by (simp_all add: name_char_def isalpha_def of_char_def)
  show ?case
  proof (cases "name_char (p ! idx)")
    case False
    with lt cons brace show ?thesis
      by (auto simp: scan_loop.simps [of p i idx] Let_def name_char_def)
  next
    case True
    then have ok: "p ! idx \<noteq> CHR ''{''" "isalpha (p ! idx) \<or> p ! idx = CHR ''}''"
      using brace by (auto simp: name_char_def)
    show ?thesis
    proof (cases "idx + 1 = length p")
      case True
      with ok lt cons \<open>name_char (p ! idx)\<close> show ?thesis by (auto simp: scan_loop.simps [of p i idx] Let_def)
    next
      case False
      with ok lt have "scan_loop p i idx start False ch det = scan_loop p i (idx + 1) start False ch det"
        by (auto simp: scan_loop.simps [of p i idx] Let_def)
      moreover have "n = length p - (idx + 1)" "idx + 1 < length p" using Suc(2) lt False by simp_all
      note Suc(1) [OF this]
      ultimately show ?thesis using True cons by (simp add: Let_def)
    qed
  qed
qed

text \<open>The outer loop.\<close>

lemma substr_here: "substr k (length w) (p) = w" if "drop k p = w @ r"
  using that by (simp add: substr_def)

lemma takeWhile_split: "xs = takeWhile P xs @ dropWhile P xs" by simp

lemma drop_after: "drop k p = w @ r \<Longrightarrow> drop (k + length w) p = r"
  by (metis append_eq_conv_conj add.commute drop_drop)

text \<open>What the inner loop returns after the percent sign at position \<open>i\<close>.\<close>

lemma scan_directive:
  assumes "i < length p"
  defines "cs \<equiv> drop (i + 1) p"
  defines "name \<equiv> takeWhile name_char cs" and "rest \<equiv> dropWhile name_char cs"
  defines "det \<equiv> takeWhile (\<lambda>c. c \<noteq> CHR ''}'') (tl rest)"
  shows "if rest \<noteq> [] \<and> hd rest = CHR ''{''
     then if CHR ''}'' \<in> set (tl rest)
          then scan_loop p i (i + 1) 0 False [] [] = (i + 1 + length name + 1 + length det + 1, name, det, False)
          else snd (snd (snd (scan_loop p i (i + 1) 0 False [] [])))
     else scan_loop p i (i + 1) 0 False [] [] = (i + 1 + length name, name, [], False)"
proof (cases "i + 1 < length p")
  case False
  then show ?thesis by (simp add: cs_def name_def rest_def)
next
  case True
  define j where "j = i + 1 + length name"
  have cs: "drop (i + 1) p = name @ rest" by (simp add: cs_def name_def rest_def)
  have j: "drop j p = rest" unfolding j_def by (rule drop_after [OF cs])
  have sub: "substr (i + 1) (j - i - 1) p = name" using substr_here [OF cs] by (simp add: j_def)
  have scan: "scan_loop p i (i + 1) 0 False [] [] =
      (if j < length p \<and> p ! j = CHR ''{'' then scan_loop p i (j + 1) j True name [] else (j, name, [], False))"
    using scan_name [OF True, of i 0 "[]" "[]"] sub by (simp add: Let_def j_def name_def cs_def)
  have ends: "j < length p \<longleftrightarrow> rest \<noteq> []" using j by auto
  have hd: "rest \<noteq> [] \<Longrightarrow> hd rest = p ! j" using j ends by (metis hd_drop_conv_nth)
  have tl: "drop (j + 1) p = tl rest" using j by (metis drop_Suc drop_tl Suc_eq_plus1)
  show ?thesis
  proof (cases "rest \<noteq> [] \<and> hd rest = CHR ''{''")
    case False
    with scan ends hd show ?thesis by (auto simp: j_def)
  next
    case brace: True
    with ends have "j + 1 \<le> length p" by simp
    note D = scan_details [OF this, of i j name "[]", unfolded tl]
    have "substr (j + 1) (length det) p = det"
      using substr_here [of "j + 1" p det "dropWhile (\<lambda>c. c \<noteq> CHR ''}'') (tl rest)"] tl by (simp add: det_def)
    moreover have "scan_loop p i (i + 1) 0 False [] [] = scan_loop p i (j + 1) j True name []"
      using brace scan ends hd by simp
    ultimately show ?thesis using D brace
      by (cases "CHR ''}'' \<in> set (tl rest)") (simp_all add: Let_def j_def flip: det_def)
  qed
qed

lemma init_loop_parts: "init_loop p i nstr vec = vec @ pattern_parts nstr (drop i p)"
proof (induction "length p - i" arbitrary: i nstr vec rule: less_induct)
  case less
  show ?case
  proof (cases "i < length p")
    case False
    then show ?thesis by (simp add: init_loop.simps pattern_parts.simps)
  next
    case True
    define cs where "cs = drop (i + 1) p"
    define name where "name = takeWhile name_char cs"
    define rest where "rest = dropWhile name_char cs"
    define det where "det = takeWhile (\<lambda>c. c \<noteq> CHR ''}'') (tl rest)"
    have cons: "drop i p = p ! i # cs" using True by (simp add: cs_def Cons_nth_drop_Suc)
    have pct: "i + 1 < length p \<and> p ! (i + 1) = CHR ''%'' \<longleftrightarrow> cs \<noteq> [] \<and> hd cs = CHR ''%''"
      by (auto simp: cs_def hd_drop_conv_nth)
    have IH: "i < k \<Longrightarrow> init_loop p k ns v = v @ pattern_parts ns (drop k p)" for k ns v
      using less [of k ns v] True by simp
    have two: "drop (i + 2) p = tl cs" by (simp add: cs_def tl_drop drop_Suc)
    have csplit: "drop (i + 1) p = name @ rest" by (simp add: cs_def name_def rest_def)
    note S = scan_directive [OF True, folded cs_def, folded name_def rest_def, folded det_def]
    have vec: "(if nstr \<noteq> [] then vec @ [(nstr, [], 0)] else vec) = vec @ plain nstr" by (simp add: plain_def)
    consider (char) "p ! i \<noteq> CHR ''%''" | (escape) "p ! i = CHR ''%''" "cs \<noteq> [] \<and> hd cs = CHR ''%''"
      | (dir) "p ! i = CHR ''%''" "\<not> (cs \<noteq> [] \<and> hd cs = CHR ''%'')" by blast
    then show ?thesis
    proof cases
      case char
      with True IH [of "i + 1"] cons show ?thesis
        by (simp add: init_loop.simps [of p i] pattern_parts.simps cs_def)
    next
      case escape
      with True IH [of "i + 2"] cons pct two show ?thesis
        by (simp add: init_loop.simps [of p i] pattern_parts.simps)
    next
      case dir
      obtain idx ch dt fl where sc: "scan_loop p i (i + 1) 0 False [] [] = (idx, ch, dt, fl)"
        by (metis prod_cases4)
      from dir(2) pct have "\<not> (i + 1 < length p \<and> p ! (i + 1) = CHR ''%'')" by blast
      then have step: "init_loop p i nstr vec =
          (if \<not> fl then init_loop p idx [] (vec @ plain nstr @ [(ch, dt, 1)])
           else init_loop p (i + 1) [] (vec @ plain nstr @ [(''<<parse-error>>'', [], 0)]))"
        using dir(1) True sc vec by (simp only: init_loop.simps [of p i] Let_def) simp
      have ref: "pattern_parts nstr (drop i p) =
          (if rest \<noteq> [] \<and> hd rest = CHR ''{'' then
             if CHR ''}'' \<in> set (tl rest)
             then plain nstr @ (name, det, 1) # pattern_parts [] (tl (dropWhile (\<lambda>c. c \<noteq> CHR ''}'') (tl rest)))
             else plain nstr @ (''<<parse-error>>'', [], 0) # pattern_parts [] cs
           else plain nstr @ (name, [], 1) # pattern_parts [] rest)"
        unfolding cons dir(1) pattern_parts.simps if_not_P [OF dir(2)] Let_def name_def rest_def det_def by simp
      have after: "drop (i + 1 + length name) p = rest" by (rule drop_after [OF csplit])
      have tail: "rest \<noteq> [] \<Longrightarrow> drop (i + 1 + length name + 1 + length det + 1) p =
          tl (dropWhile (\<lambda>c. c \<noteq> CHR ''}'') (tl rest))"
      proof -
        have "drop (i + 1 + length name + 1) p = det @ dropWhile (\<lambda>c. c \<noteq> CHR ''}'') (tl rest)"
          using after by (metis det_def drop_Suc drop_tl Suc_eq_plus1 takeWhile_dropWhile_id)
        from drop_after [OF this] show ?thesis by (metis drop_Suc drop_tl Suc_eq_plus1)
      qed
      show ?thesis
        using S [unfolded sc] step ref tail after IH [of idx] IH [of "i + 1"]
        by (cases "rest \<noteq> [] \<and> hd rest = CHR ''{''"; cases "CHR ''}'' \<in> set (tl rest)") (auto simp: cs_def)
    qed
  qed
qed

section \<open>Patterns as they are written\<close>

text \<open>Plain text, a directive, and a directive with details; percent signs in texts are doubled.\<close>

datatype pattern_token = Text string | Directive string | Detailed string string

definition escape :: "string \<Rightarrow> string" where
  "escape t = concat (map (\<lambda>c. if c = CHR ''%'' then ''%%'' else [c]) t)"

fun token_text :: "pattern_token \<Rightarrow> string" where
  "token_text (Text t) = escape t"
| "token_text (Directive n) = CHR ''%'' # n"
| "token_text (Detailed n d) = CHR ''%'' # n @ CHR ''{'' # d @ ''}''"

definition pattern_of :: "pattern_token list \<Rightarrow> string" where
  "pattern_of ts = concat (map token_text ts)"

fun token_part :: "pattern_token \<Rightarrow> pattern_part" where
  "token_part (Text t) = (t, [], 0)"
| "token_part (Directive n) = (n, [], 1)"
| "token_part (Detailed n d) = (n, d, 1)"

fun is_text :: "pattern_token \<Rightarrow> bool" where
  "is_text (Text t) = True"
| "is_text _ = False"

definition name_ok :: "string \<Rightarrow> bool" where
  "name_ok n \<longleftrightarrow> n \<noteq> [] \<and> list_all isalpha n"

text \<open>
  Texts are not empty and not next to each other, names are letters, details have no closing
  brace, and the text after a bare directive does not go on its name.
\<close>

fun tokens_ok :: "pattern_token list \<Rightarrow> bool" where
  "tokens_ok [] = True"
| "tokens_ok (Text t # ts) = (t \<noteq> [] \<and> (ts \<noteq> [] \<longrightarrow> \<not> is_text (hd ts)) \<and> tokens_ok ts)"
| "tokens_ok (Directive n # ts) =
     (name_ok n \<and> tokens_ok ts \<and>
      (case ts of Text (c # t) # _ \<Rightarrow> \<not> name_char c \<and> c \<noteq> CHR ''{'' | _ \<Rightarrow> True))"
| "tokens_ok (Detailed n d # ts) = (name_ok n \<and> CHR ''}'' \<notin> set d \<and> tokens_ok ts)"

text \<open>The parser drops the text behind the last directive.\<close>

definition kept :: "pattern_token list \<Rightarrow> pattern_token list" where
  "kept ts = (if ts \<noteq> [] \<and> is_text (last ts) then butlast ts else ts)"

lemma isalpha_not: "\<not> isalpha (CHR ''%'')" "\<not> isalpha (CHR ''{'')" "\<not> name_char (CHR ''%'')" "\<not> name_char (CHR ''{'')"
  by (simp_all add: isalpha_def name_char_def of_char_def)

lemma pattern_parts_escape: "pattern_parts nstr (escape t @ r) = pattern_parts (nstr @ t) r"
  by (induction t arbitrary: nstr) (simp_all add: escape_def pattern_parts.simps)

lemma name_ok_takeWhile:
  assumes "name_ok n" "r = [] \<or> \<not> name_char (hd r)"
  shows "takeWhile name_char (n @ r) = n" "dropWhile name_char (n @ r) = r" "hd (n @ r) \<noteq> CHR ''%''"
proof -
  have n: "\<forall>c\<in>set n. name_char c" "n \<noteq> []"
    using assms(1) by (auto simp: name_ok_def name_char_def list_all_iff)
  then show "takeWhile name_char (n @ r) = n" "dropWhile name_char (n @ r) = r"
    using assms(2) by (cases r; auto)+
  show "hd (n @ r) \<noteq> CHR ''%''"
    using n isalpha_not(3) by (cases n) auto
qed

lemma pattern_parts_directive:
  assumes "name_ok n" "r = [] \<or> \<not> name_char (hd r) \<and> hd r \<noteq> CHR ''{''"
  shows "pattern_parts nstr (CHR ''%'' # n @ r) = plain nstr @ (n, [], 1) # pattern_parts [] r"
proof -
  have r: "r = [] \<or> \<not> name_char (hd r)" using assms(2) by blast
  note T = name_ok_takeWhile [OF assms(1) r]
  have no: "\<not> (n @ r \<noteq> [] \<and> hd (n @ r) = CHR ''%'')" "\<not> (r \<noteq> [] \<and> hd r = CHR ''{'')"
    using T(3) assms(2) by auto
  show ?thesis
    unfolding pattern_parts.simps Let_def if_not_P [OF no(1)] T(1,2) if_not_P [OF no(2)] by simp
qed

lemma pattern_parts_detailed:
  assumes "name_ok n" "CHR ''}'' \<notin> set d"
  shows "pattern_parts nstr (CHR ''%'' # n @ CHR ''{'' # d @ CHR ''}'' # r) = plain nstr @ (n, d, 1) # pattern_parts [] r"
proof -
  have "takeWhile (\<lambda>c. c \<noteq> CHR ''}'') (d @ CHR ''}'' # r) = d" "dropWhile (\<lambda>c. c \<noteq> CHR ''}'') (d @ CHR ''}'' # r) = CHR ''}'' # r"
    using assms(2) by (induction d) auto
  then show ?thesis
    using name_ok_takeWhile [OF assms(1), of "CHR ''{'' # d @ CHR ''}'' # r"] isalpha_not(4)
    by (simp add: pattern_parts.simps Let_def)
qed

lemma kept_Cons: "ts \<noteq> [] \<Longrightarrow> kept (t # ts) = t # kept ts"
  by (simp add: kept_def)

lemma after_directive:
  assumes "tokens_ok (Directive n # ts)"
  shows "pattern_of ts = [] \<or> \<not> name_char (hd (pattern_of ts)) \<and> hd (pattern_of ts) \<noteq> CHR ''{''"
proof (cases ts)
  case (Cons t us)
  with assms isalpha_not(3) show ?thesis
    by (cases t) (auto simp: pattern_of_def escape_def split: list.splits)
qed (simp add: pattern_of_def)

lemma pattern_of_Cons: "pattern_of (t # ts) = token_text t @ pattern_of ts"
  by (simp add: pattern_of_def)

lemma pattern_parts_tokens:
  "tokens_ok ts \<Longrightarrow> (nstr \<noteq> [] \<longrightarrow> ts \<noteq> [] \<longrightarrow> \<not> is_text (hd ts)) \<Longrightarrow>
   pattern_parts nstr (pattern_of ts) = (if ts = [] then [] else if kept ts = [] then [] else plain nstr @ map token_part (kept ts))"
proof (induction ts arbitrary: nstr rule: tokens_ok.induct)
  case 1
  then show ?case by (simp add: pattern_of_def pattern_parts.simps)
next
  case (2 t ts)
  then have "pattern_parts t (pattern_of ts) = (if ts = [] then [] else if kept ts = [] then [] else plain t @ map token_part (kept ts))"
    by simp
  moreover have "ts \<noteq> [] \<Longrightarrow> kept ts \<noteq> []"
    using 2(2) by (cases ts rule: rev_cases) (auto simp: kept_def hd_append split: if_splits)
  moreover have "nstr = []" "t \<noteq> []" using 2(2,3) by auto
  ultimately show ?case
    by (cases "ts = []") (auto simp: pattern_of_Cons pattern_parts_escape plain_def kept_Cons, simp_all add: kept_def)
next
  case (3 n ts)
  have "pattern_parts [] (pattern_of ts) = (if ts = [] then [] else if kept ts = [] then [] else map token_part (kept ts))"
    using 3 by (simp add: plain_def)
  moreover have "pattern_parts nstr (pattern_of (Directive n # ts)) = plain nstr @ (n, [], 1) # pattern_parts [] (pattern_of ts)"
    using pattern_parts_directive [OF _ after_directive [OF 3(2)]] 3(2) by (simp add: pattern_of_Cons)
  ultimately show ?case by (cases "ts = []") (auto simp: kept_Cons, simp_all add: kept_def)
next
  case (4 n d ts)
  have "pattern_parts [] (pattern_of ts) = (if ts = [] then [] else if kept ts = [] then [] else map token_part (kept ts))"
    using 4 by (simp add: plain_def)
  moreover have "pattern_parts nstr (pattern_of (Detailed n d # ts)) = plain nstr @ (n, d, 1) # pattern_parts [] (pattern_of ts)"
    using pattern_parts_detailed 4(2) by (simp add: pattern_of_Cons)
  ultimately show ?case by (cases "ts = []") (auto simp: kept_Cons, simp_all add: kept_def)
qed

section \<open>Loggers\<close>

lemma AppenderLog_other:
  "lgs (AppenderLog sf fs ev a st) = lgs st" "loggers (AppenderLog sf fs ev a st) = loggers st"
  "length (apds (AppenderLog sf fs ev a st)) = length (apds st)"
  "formatter (apds (AppenderLog sf fs ev a st) ! b) = formatter (apds st ! b)"
  "sink (apds (AppenderLog sf fs ev a st) ! b) = sink (apds st ! b)"
  "b \<noteq> a \<Longrightarrow> apds (AppenderLog sf fs ev a st) ! b = apds st ! b"
  by (cases "b = a"; cases "a < length (apds st)";
      simp add: AppenderLog_def Let_def Reopen_def list_update_beyond split: sink.split prod.split)+

definition text_of :: "(string \<Rightarrow> u64 \<Rightarrow> string) \<Rightarrow> log_event \<Rightarrow> log_state \<Rightarrow> nat \<Rightarrow> string" where
  "text_of sf ev st a = FormatterFormat sf (formatter (apds st ! a)) ev"

text \<open>What the stream of a file appender holds after an event: opened anew when the file is gone.\<close>

definition file_text ::
  "(string \<Rightarrow> u64 \<Rightarrow> string) \<Rightarrow> file_system \<Rightarrow> log_event \<Rightarrow> log_state \<Rightarrow> nat \<Rightarrow> string \<Rightarrow> string" where
  "file_text sf fs ev st a f =
     (if exists_path fs f
      then ofs (apds st ! a) @ (if ofs_open (apds st ! a) then text_of sf ev st a else [])
      else if opens fs f then text_of sf ev st a else [])"

text \<open>A run of appenders, each once.\<close>

lemma fold_AppenderLog:
  assumes "distinct as" "set as \<subseteq> {..<length (apds st)}"
  shows "let st' = fold (AppenderLog sf fs ev) as st in
     cout st' = cout st @ concat (map (text_of sf ev st) (filter (\<lambda>a. sink (apds st ! a) = LogAppenderToStd) as)) \<and>
     (\<forall>a f. a \<in> set as \<longrightarrow> sink (apds st ! a) = LogAppenderToFile f \<longrightarrow>
        ofs (apds st' ! a) = file_text sf fs ev st a f) \<and>
     (\<forall>a. a \<notin> set as \<longrightarrow> apds st' ! a = apds st ! a)"
  using assms
proof (induction as arbitrary: st)
  case Nil
  then show ?case by simp
next
  case (Cons a as)
  define st1 where "st1 = AppenderLog sf fs ev a st"
  note other = AppenderLog_other [where sf = sf and fs = fs and ev = ev and a = a and st = st, folded st1_def]
  have same: "text_of sf ev st1 = text_of sf ev st" by (simp add: text_of_def other fun_eq_iff)
  have filed: "b \<noteq> a \<Longrightarrow> file_text sf fs ev st1 b f = file_text sf fs ev st b f" for b f
    by (simp add: file_text_def same other)
  have first: "sink (apds st ! a) = LogAppenderToStd \<Longrightarrow> cout st1 = cout st @ text_of sf ev st a"
    "sink (apds st ! a) = LogAppenderToFile f \<Longrightarrow> cout st1 = cout st \<and>
      ofs (apds st1 ! a) = file_text sf fs ev st a f" for f
    using Cons.prems by (simp_all add: st1_def AppenderLog_def Reopen_def text_of_def file_text_def Let_def)
  from Cons.IH [of st1] Cons.prems other have IH:
    "cout (fold (AppenderLog sf fs ev) as st1) =
       cout st1 @ concat (map (text_of sf ev st) (filter (\<lambda>a. sink (apds st ! a) = LogAppenderToStd) as))"
    "\<And>b f. b \<in> set as \<Longrightarrow> sink (apds st ! b) = LogAppenderToFile f \<Longrightarrow>
       ofs (apds (fold (AppenderLog sf fs ev) as st1) ! b) = file_text sf fs ev st1 b f"
    "\<And>b. b \<notin> set as \<Longrightarrow> apds (fold (AppenderLog sf fs ev) as st1) ! b = apds st1 ! b"
    by (simp_all add: Let_def same)
  have "cout st1 = cout st @ (if sink (apds st ! a) = LogAppenderToStd then text_of sf ev st a else [])"
    using first by (cases "sink (apds st ! a)") auto
  moreover have "b \<noteq> a" if "b \<in> set as" for b using that Cons.prems by auto
  ultimately show ?case
    using IH first other(6) filed Cons.prems by (auto simp: Let_def st1_def [symmetric])
qed

lemma fold_level:
  "fold (\<lambda>a st. if le_level ev \<le> max_level (lgs st ! l) then AppenderLog sf fs ev a st else st) as st =
   (if le_level ev \<le> max_level (lgs st ! l) then fold (AppenderLog sf fs ev) as st else st)"
  by (induction as arbitrary: st) (auto simp: AppenderLog_other)

section \<open>Named loggers\<close>

text \<open>
  What users of the manager rely on: names, their creation and deletion. Replacing one set of
  names by another, as a change of the configuration does, is derived once.
\<close>

locale named_objects =
  fixes found :: "'st \<Rightarrow> string \<Rightarrow> 'ob option"
    and create :: "string \<Rightarrow> 'st \<Rightarrow> 'ob \<times> 'st"
    and delete :: "string \<Rightarrow> 'st \<Rightarrow> 'st"
  assumes create_found: "found (snd (create n st)) = (found st)(n \<mapsto> fst (create n st))"
    and create_again: "found st n = Some x \<Longrightarrow> create n st = (x, st)"
    and delete_found: "found (delete n st) = (found st)(n := None)"
begin

lemma delete_all: "dom (found (fold delete ns st)) = dom (found st) - set ns"
  by (induction ns arbitrary: st) (auto simp: delete_found)

lemma create_all: "dom (found (fold (\<lambda>n st. snd (create n st)) ns st)) = dom (found st) \<union> set ns"
  by (induction ns arbitrary: st) (auto simp: create_found)

lemma create_keeps: "m \<noteq> n \<Longrightarrow> found (snd (create n st)) m = found st m"
  by (simp add: create_found)

end

interpretation manager: named_objects "\<lambda>st. map_of (loggers st)" NewLogger DelLogger
proof
  show "map_of (loggers (snd (NewLogger n st))) = (map_of (loggers st))(n \<mapsto> fst (NewLogger n st))" for n st
    by (auto simp: NewLogger_def split: option.split)
  show "map_of (loggers st) n = Some x \<Longrightarrow> NewLogger n st = (x, st)" for st n x
    by (simp add: NewLogger_def)
  show "map_of (loggers (DelLogger n st)) = (map_of (loggers st))(n := None)" for n st
    by (auto simp: DelLogger_def)
qed

section \<open>Properties of the logging module\<close>

text \<open>
  C38: the formatter the index-based parser builds from any pattern is the one of the recursive
  parser: plain characters, doubled percent signs, directives with a name of letters and
  details in braces, and a parse error for a brace that is not closed.
\<close>

theorem Init_equals_recursive_parser:
  "LogFormatter pattern = map part_item (pattern_parts [] pattern)"
  by (simp add: LogFormatter_def init_loop_parts)

text \<open>
  A pattern written from texts and directives is parsed back into exactly those, in order,
  except that a text behind the last directive is dropped.
\<close>

theorem Init_reads_tokens:
  assumes "tokens_ok ts"
  shows "LogFormatter (pattern_of ts) = map (\<lambda>t. part_item (token_part t)) (kept ts)"
  using pattern_parts_tokens [OF assms, of "[]"] by (auto simp: LogFormatter_def init_loop_parts plain_def kept_def)

theorem Init_reads_tokens_witness:
  "LogFormatter ''[%p]%T%d{%H}%m end'' =
     [StringFormatterItem ''['', LevelFormatterItem, StringFormatterItem '']'', TabFormatterItem,
      TimestampFormatterItem ''%H'', MessageFormatterItem]"
proof -
  let ?ts = "[Text ''['', Directive ''p'', Text '']'', Directive ''T'', Detailed ''d'' ''%H'', Directive ''m'', Text '' end'']"
  have "tokens_ok ?ts" by (simp add: name_ok_def name_char_def isalpha_def of_char_def)
  from Init_reads_tokens [OF this] show ?thesis
    by (simp add: pattern_of_def escape_def kept_def directive_def)
qed

text \<open>
  C39: logging an event on a logger with distinct appenders does nothing when the event's level is above the
  logger's; otherwise every appender gets the event in its own format exactly once: standard
  output in the order of the appenders, each file stream at its end, after being opened anew
  when its file is gone, unless it cannot be opened.
\<close>

theorem LoggerLog_output:
  assumes "distinct (lg_appenders (lgs st ! l))" and "set (lg_appenders (lgs st ! l)) \<subseteq> {..<length (apds st)}"
  shows "let st' = LoggerLog strftime fs l ev st; as = lg_appenders (lgs st ! l) in
     if max_level (lgs st ! l) < le_level ev then st' = st
     else cout st' = cout st @ concat (map (text_of strftime ev st) (filter (\<lambda>a. sink (apds st ! a) = LogAppenderToStd) as)) \<and>
       (\<forall>a f. a \<in> set as \<longrightarrow> sink (apds st ! a) = LogAppenderToFile f \<longrightarrow>
          ofs (apds st' ! a) = file_text strftime fs ev st a f) \<and>
       (\<forall>a. a \<notin> set as \<longrightarrow> apds st' ! a = apds st ! a)"
  using fold_AppenderLog [OF assms, of strftime fs ev]
  by (auto simp: LoggerLog_def fold_level Let_def not_le)

definition every_path :: file_system where
  "every_path = \<lparr>exists_path = (\<lambda>_. True), create_directories = (\<lambda>_. True), opens = (\<lambda>_. True)\<rparr>"

theorem LoggerLog_output_witness:
  "cout (LoggerLog (\<lambda>f t. []) every_path 0 (LogEvent ''root'' ''a.cc'' INFO 7 0 1 0 0) LoggerManager) =
   text_of (\<lambda>f t. []) (LogEvent ''root'' ''a.cc'' INFO 7 0 1 0 0) LoggerManager 0"
proof -
  have st: "lg_appenders (lgs LoggerManager ! 0) = [0]" "length (apds LoggerManager) = 1"
    "max_level (lgs LoggerManager ! 0) = FATAL" "sink (apds LoggerManager ! 0) = LogAppenderToStd" "cout LoggerManager = []"
    by (simp_all add: LoggerManager_def Let_def SetMaxLevel_def set_logger_def new_std_appender_def LogAppender_def AddAppender_def Logger_def)
  have "\<not> FATAL < le_level (LogEvent ''root'' ''a.cc'' INFO 7 0 1 0 0)" by (simp add: LogEvent_def less_Level_def)
  with LoggerLog_output [of LoggerManager 0 "\<lambda>f t. []" every_path "LogEvent ''root'' ''a.cc'' INFO 7 0 1 0 0"] st
  show ?thesis by (simp add: Let_def)
qed

text \<open>
  Flushing a logger for an event that is enabled leaves nothing unflushed in the streams of its
  appenders, and changes no text; for one that is not enabled it does nothing.
\<close>

lemma AppenderFlush_other [simp]:
  "lgs (AppenderFlush a st) = lgs st" "cout (AppenderFlush a st) = cout st" "cerr (AppenderFlush a st) = cerr st"
  "length (apds (AppenderFlush a st)) = length (apds st)" "loggers (AppenderFlush a st) = loggers st"
  "sink (apds (AppenderFlush a st) ! b) = sink (apds st ! b)" "ofs (apds (AppenderFlush a st) ! b) = ofs (apds st ! b)"
  "b \<noteq> a \<Longrightarrow> apds (AppenderFlush a st) ! b = apds st ! b"
  by (cases "b = a"; cases "a < length (apds st)"; simp add: AppenderFlush_def list_update_beyond split: sink.split)+

definition flushed :: "log_state \<Rightarrow> nat \<Rightarrow> bool" where
  "flushed st a \<longleftrightarrow> (case sink (apds st ! a) of
       LogAppenderToStd \<Rightarrow> cout_flushed st = length (cout st)
     | LogAppenderToFile f \<Rightarrow> ofs_flushed (apds st ! a) = length (ofs (apds st ! a)))"

lemma flushed_AppenderFlush:
  "a < length (apds st) \<Longrightarrow> flushed (AppenderFlush a st) a" "flushed st b \<Longrightarrow> flushed (AppenderFlush a st) b"
  by (cases "b = a"; cases "a < length (apds st)"; simp add: flushed_def AppenderFlush_def list_update_beyond split: sink.splits)+

lemma fold_AppenderFlush:
  assumes "set as \<subseteq> {..<length (apds st)}"
  shows "(\<forall>a. a \<in> set as \<or> flushed st a \<longrightarrow> flushed (fold AppenderFlush as st) a) \<and>
    cout (fold AppenderFlush as st) = cout st \<and> (\<forall>b. ofs (apds (fold AppenderFlush as st) ! b) = ofs (apds st ! b))"
  using assms by (induction as arbitrary: st) (auto simp: flushed_AppenderFlush)

lemma LoggerFlush_complete:
  assumes "set (lg_appenders (lgs st ! l)) \<subseteq> {..<length (apds st)}"
  shows "if max_level (lgs st ! l) < le_level ev then LoggerFlush l ev st = st
    else (\<forall>a \<in> set (lg_appenders (lgs st ! l)). flushed (LoggerFlush l ev st) a) \<and>
      cout (LoggerFlush l ev st) = cout st \<and> (\<forall>b. ofs (apds (LoggerFlush l ev st) ! b) = ofs (apds st ! b))"
proof -
  have "fold (\<lambda>a st. if le_level ev \<le> max_level (lgs st ! l) then AppenderFlush a st else st) as st =
    (if le_level ev \<le> max_level (lgs st ! l) then fold AppenderFlush as st else st)" for as
    by (induction as arbitrary: st) auto
  with fold_AppenderFlush [OF assms] show ?thesis by (auto simp: LoggerFlush_def not_le)
qed

text \<open>The formatted macro logs what the stream macro logs.\<close>

lemma SYLAR_FMT_LOG_text: "SYLAR_FMT_LOG sf fs l level file line tid now msg = SYLAR_LOG sf fs l level file line tid now msg"
  by (simp add: fun_eq_iff SYLAR_FMT_LOG_def SYLAR_LOG_def EventFormat_def LogEvent_def)

text \<open>Level names parse back in any case; \<^verbatim>\<open>UNKNOW\<close> stands for everything else.\<close>

lemma LevelFromString_LevelToString: "LevelFromString (LevelToString l) = l"
  by (cases l) (simp_all add: LevelFromString_def LevelToString_def toupper_upper of_char_def)

end
