(* ===== verification/Guarded.thy ===== *)
theory Guarded
  imports Shared_Locks Log_Laws
begin

text \<open>
  Objects shared by threads behind a lock. The operations of \<^verbatim>\<open>Logger\<close> in \<^verbatim>\<open>src/src/log.cc\<close> open with
  \<^verbatim>\<open>SpinLock::ScopeLock l(mu_)\<close> and then work in several steps, between which other threads run. What
  the contract of a lock gives for such an object is proved once, in the locale \<open>exclusive_lock\<close>: every
  interleaving is equivalent to running the calls one after the other, in the order in which
  they took the lock.
\<close>

section \<open>Calls in steps\<close>

text \<open>
  A lock, the object it guards, the steps each thread has still to do inside its call, and the calls
  in the order in which they took the lock. The steps of a call are fixed when it has the lock.
\<close>

record ('m, 's, 'c) guarded =
  g_lock :: 'm
  g_object :: 's
  g_pc :: "nat \<Rightarrow> ('s \<Rightarrow> 's) list option"
  g_calls :: "'c list"

definition guarded_init :: "'m \<Rightarrow> 's \<Rightarrow> ('m, 's, 'c) guarded" where
  "guarded_init m s = \<lparr>g_lock = m, g_object = s, g_pc = (\<lambda>_. None), g_calls = []\<rparr>"

inductive guarded_step ::
  "('m \<Rightarrow> bool \<times> 'm) \<Rightarrow> ('m \<Rightarrow> 'm) \<Rightarrow> ('c \<Rightarrow> 's \<Rightarrow> ('s \<Rightarrow> 's) list) \<Rightarrow> ('m, 's, 'c) guarded \<Rightarrow> ('m, 's, 'c) guarded \<Rightarrow> bool"
  for lock unlock body where
  enter: "g_pc s t = None \<Longrightarrow> lock (g_lock s) = (True, m) \<Longrightarrow>
    guarded_step lock unlock body s
      (s\<lparr>g_lock := m, g_pc := (g_pc s)(t \<mapsto> body c (g_object s)), g_calls := g_calls s @ [c]\<rparr>)"
| spin: "g_pc s t = None \<Longrightarrow> lock (g_lock s) = (False, m) \<Longrightarrow> guarded_step lock unlock body s (s\<lparr>g_lock := m\<rparr>)"
| work: "g_pc s t = Some (f # fs) \<Longrightarrow>
    guarded_step lock unlock body s (s\<lparr>g_object := f (g_object s), g_pc := (g_pc s)(t \<mapsto> fs)\<rparr>)"
| leave: "g_pc s t = Some [] \<Longrightarrow>
    guarded_step lock unlock body s (s\<lparr>g_lock := unlock (g_lock s), g_pc := (g_pc s)(t := None)\<rparr>)"

inductive_cases guarded_stepE: "guarded_step lock unlock body s s'"

text \<open>The sequential meaning of a call, and of a sequence of calls.\<close>

definition run_steps :: "('s \<Rightarrow> 's) list \<Rightarrow> 's \<Rightarrow> 's" where
  "run_steps fs s = fold (\<lambda>f. f) fs s"

lemma run_steps_simps [simp]: "run_steps [] s = s" "run_steps (f # fs) s = run_steps fs (f s)"
  by (simp_all add: run_steps_def)

lemma run_steps_map: "run_steps (map g xs) s = fold g xs s"
  by (induction xs arbitrary: s) simp_all

definition run_calls :: "('c \<Rightarrow> 's \<Rightarrow> ('s \<Rightarrow> 's) list) \<Rightarrow> 'c list \<Rightarrow> 's \<Rightarrow> 's" where
  "run_calls body cs s = fold (\<lambda>c s. run_steps (body c s) s) cs s"

lemma run_calls_snoc: "run_calls body (cs @ [c]) s = run_steps (body c (run_calls body cs s)) (run_calls body cs s)"
  by (simp add: run_calls_def)

context exclusive_lock
begin

text \<open>
  The lock is free exactly when no thread is inside, at most one is, and finishing its call gives what
  the calls give in sequence.
\<close>

definition guarded_inv :: "('c \<Rightarrow> 's \<Rightarrow> ('s \<Rightarrow> 's) list) \<Rightarrow> 's \<Rightarrow> ('m, 's, 'c) guarded \<Rightarrow> bool" where
  "guarded_inv body s0 s \<longleftrightarrow>
     (free (g_lock s) \<longleftrightarrow> (\<forall>t. g_pc s t = None)) \<and>
     (\<forall>t u. g_pc s t \<noteq> None \<longrightarrow> g_pc s u \<noteq> None \<longrightarrow> t = u) \<and>
     (\<forall>t fs. g_pc s t = Some fs \<longrightarrow> run_calls body (g_calls s) s0 = run_steps fs (g_object s)) \<and>
     ((\<forall>t. g_pc s t = None) \<longrightarrow> run_calls body (g_calls s) s0 = g_object s)"

lemma guarded_inv_init: "free m \<Longrightarrow> guarded_inv body s0 (guarded_init m s0)"
  by (simp add: guarded_inv_def guarded_init_def run_calls_def)

lemma guarded_invD:
  assumes "guarded_inv body s0 s"
  shows "free (g_lock s) \<longleftrightarrow> (\<forall>t. g_pc s t = None)"
    and "g_pc s t = Some fs \<Longrightarrow> u \<noteq> t \<Longrightarrow> g_pc s u = None"
    and "g_pc s t = Some fs \<Longrightarrow> run_calls body (g_calls s) s0 = run_steps fs (g_object s)"
    and "\<forall>t. g_pc s t = None \<Longrightarrow> run_calls body (g_calls s) s0 = g_object s"
proof -
  note inv = assms [unfolded guarded_inv_def]
  from inv show "free (g_lock s) \<longleftrightarrow> (\<forall>t. g_pc s t = None)" by blast
  show "g_pc s u = None" if "g_pc s t = Some fs" "u \<noteq> t"
    using conjunct1 [OF conjunct2 [OF inv]] that by (metis option.distinct(1))
  from inv show "run_calls body (g_calls s) s0 = run_steps fs (g_object s)" if "g_pc s t = Some fs" using that by blast
  from inv show "run_calls body (g_calls s) s0 = g_object s" if "\<forall>t. g_pc s t = None" using that by blast
qed

lemma guarded_inv_idle:
  assumes "free m" and "\<forall>t. pc t = None" and "run_calls body cs s0 = ob"
  shows "guarded_inv body s0 \<lparr>g_lock = m, g_object = ob, g_pc = pc, g_calls = cs\<rparr>"
  using assms by (simp add: guarded_inv_def)

lemma guarded_inv_busy:
  assumes "\<not> free m" and "pc t = Some fs" and "\<And>u. u \<noteq> t \<Longrightarrow> pc u = None" and "run_calls body cs s0 = run_steps fs ob"
  shows "guarded_inv body s0 \<lparr>g_lock = m, g_object = ob, g_pc = pc, g_calls = cs\<rparr>"
proof -
  have "u = t" if "pc u \<noteq> None" for u using assms(3) [of u] that by auto
  then have one: "u = v" if "pc u \<noteq> None" "pc v \<noteq> None" for u v using that by metis
  have only: "run_calls body cs s0 = run_steps fs' ob" if "pc u = Some fs'" for u fs'
    using one [of u t] that assms(2,4) by simp
  have "pc t \<noteq> None" using assms(2) by simp
  then have "\<not> (\<forall>u. pc u = None)" by (rule contrapos_nn) (erule spec)
  with assms(1) one only show ?thesis unfolding guarded_inv_def by (simp only: guarded.simps simp_thms) metis
qed

lemma guarded_step_inv:
  assumes "guarded_step lock unlock body s s'" and inv: "guarded_inv body s0 s"
  shows "guarded_inv body s0 s'"
  using assms(1)
proof (rule guarded_stepE)
  fix t m c
  assume s': "s' = s\<lparr>g_lock := m, g_pc := (g_pc s)(t \<mapsto> body c (g_object s)), g_calls := g_calls s @ [c]\<rparr>"
    and l: "lock (g_lock s) = (True, m)"
  have "free (g_lock s)" "\<not> free m" using lock_free [of "g_lock s"] lock_held [of "g_lock s"] l by auto
  then have "\<forall>t. g_pc s t = None" using guarded_invD(1) [OF inv] by simp
  with guarded_invD(4) [OF inv this] \<open>\<not> free m\<close> show ?thesis
    unfolding s' by (cases s) (auto intro!: guarded_inv_busy [where t = t] simp: run_calls_snoc)
next
  fix t m
  assume s': "s' = s\<lparr>g_lock := m\<rparr>" and l: "lock (g_lock s) = (False, m)"
  have "\<not> free (g_lock s)" "\<not> free m" using lock_free [of "g_lock s"] lock_held [of "g_lock s"] l by auto
  with inv show ?thesis by (simp add: guarded_inv_def s')
next
  fix t f fs
  assume s': "s' = s\<lparr>g_object := f (g_object s), g_pc := (g_pc s)(t \<mapsto> fs)\<rparr>" and pc: "g_pc s t = Some (f # fs)"
  have "\<not> free (g_lock s)" using guarded_invD(1) [OF inv] pc by auto
  with guarded_invD(2,3) [OF inv pc] show ?thesis
    unfolding s' by (cases s) (auto intro!: guarded_inv_busy [where t = t])
next
  fix t
  assume s': "s' = s\<lparr>g_lock := unlock (g_lock s), g_pc := (g_pc s)(t := None)\<rparr>" and pc: "g_pc s t = Some []"
  have "\<not> free (g_lock s)" using guarded_invD(1) [OF inv] pc by auto
  then have "free (unlock (g_lock s))" by (rule unlock_free)
  with guarded_invD(2,3) [OF inv pc] show ?thesis
    unfolding s' by (cases s) (auto intro!: guarded_inv_idle)
qed

lemma guarded_reach:
  assumes "(guarded_step lock unlock body)\<^sup>*\<^sup>* (guarded_init m s0) s" and "free m"
  shows "guarded_inv body s0 s"
  using assms(1)
proof (induction rule: rtranclp_induct)
  case base
  show ?case by (rule guarded_inv_init [OF assms(2)])
next
  case (step s s')
  show ?case by (rule guarded_step_inv [OF step.hyps(2) step.IH])
qed

end

section \<open>The operations of a logger\<close>

text \<open>
  The calls of \<^verbatim>\<open>Logger\<close> that take its lock, with the answers of the file system during a call. Logging and
  flushing do one appender after the other. \<^verbatim>\<open>DelAppender\<close> takes the lock as well; what it does to an
  appender of the logger is undefined, and it is left out.
\<close>

datatype logger_call = CallLog file_system log_event | CallFlush log_event | CallAdd nat | CallCheck

fun logger_body :: "(string \<Rightarrow> u64 \<Rightarrow> string) \<Rightarrow> nat \<Rightarrow> logger_call \<Rightarrow> log_state \<Rightarrow> (log_state \<Rightarrow> log_state) list" where
  "logger_body sf l (CallLog fs ev) st =
     map (\<lambda>a st. if le_level ev \<le> max_level (lgs st ! l) then AppenderLog sf fs ev a st else st) (lg_appenders (lgs st ! l))"
| "logger_body sf l (CallFlush ev) st =
     map (\<lambda>a st. if le_level ev \<le> max_level (lgs st ! l) then AppenderFlush a st else st) (lg_appenders (lgs st ! l))"
| "logger_body sf l (CallAdd a) st = [AddAppender l a]"
| "logger_body sf l CallCheck st =
     map (\<lambda>a st. let out = cout st @ GetAppenderName (sink (apds st ! a)) @ [LF]
                  in st\<lparr>cout := out, cout_flushed := length out\<rparr>) (lg_appenders (lgs st ! l))"

fun logger_call_spec :: "(string \<Rightarrow> u64 \<Rightarrow> string) \<Rightarrow> nat \<Rightarrow> logger_call \<Rightarrow> log_state \<Rightarrow> log_state" where
  "logger_call_spec sf l (CallLog fs ev) st = LoggerLog sf fs l ev st"
| "logger_call_spec sf l (CallFlush ev) st = LoggerFlush l ev st"
| "logger_call_spec sf l (CallAdd a) st = AddAppender l a st"
| "logger_call_spec sf l CallCheck st = CheckAppenders l st"

lemma logger_body_spec: "run_steps (logger_body sf l c st) st = logger_call_spec sf l c st"
  by (cases c) (simp_all add: run_steps_map LoggerLog_def LoggerFlush_def CheckAppenders_def)

lemma run_calls_logger: "run_calls (logger_body sf l) cs st = fold (logger_call_spec sf l) cs st"
  by (simp add: run_calls_def logger_body_spec)

text \<open>
  C15: Threads that log, flush, add appenders and list them on one logger at the same time never mix: whenever
  no thread is inside a call, the state is the one that the calls give when they run one after the
  other, in the order in which they got the spin lock; at any moment at most one thread is inside,
  and when it finishes the same holds.
\<close>

theorem Logger_calls_linearize:
  assumes "(guarded_step SpinLock_Lock SpinLock_Unlock (logger_body sf l))\<^sup>*\<^sup>* (guarded_init SpinLock st) s"
  shows "(\<forall>t u. g_pc s t \<noteq> None \<longrightarrow> g_pc s u \<noteq> None \<longrightarrow> t = u) \<and>
    ((\<forall>t. g_pc s t = None) \<longrightarrow> g_object s = fold (logger_call_spec sf l) (g_calls s) st) \<and>
    (\<forall>t fs. g_pc s t = Some fs \<longrightarrow> run_steps fs (g_object s) = fold (logger_call_spec sf l) (g_calls s) st)"
  using spin.guarded_reach [OF assms] unfolding spin.guarded_inv_def run_calls_logger
  by (auto simp: SpinLock_def)

theorem Logger_calls_linearize_witness:
  "\<exists>s. (guarded_step SpinLock_Lock SpinLock_Unlock (logger_body (\<lambda>f t. []) 0))\<^sup>*\<^sup>* (guarded_init SpinLock LoggerManager) s \<and>
    g_calls s = [CallAdd 0] \<and> g_object s = AddAppender 0 0 LoggerManager"
proof -
  let ?step = "guarded_step SpinLock_Lock SpinLock_Unlock (logger_body (\<lambda>f t. []) 0)"
  define s0 :: "(bool, log_state, logger_call) guarded" where "s0 = guarded_init SpinLock LoggerManager"
  define s1 where "s1 = s0\<lparr>g_lock := True, g_pc := (g_pc s0)(1 \<mapsto> logger_body (\<lambda>f t. []) 0 (CallAdd 0) (g_object s0)), g_calls := g_calls s0 @ [CallAdd 0]\<rparr>"
  define s2 where "s2 = s1\<lparr>g_object := AddAppender 0 0 (g_object s1), g_pc := (g_pc s1)(1 \<mapsto> [])\<rparr>"
  define s3 where "s3 = s2\<lparr>g_lock := SpinLock_Unlock (g_lock s2), g_pc := (g_pc s2)(1 := None)\<rparr>"
  have "?step s0 s1"
    unfolding s1_def
    by (rule guarded_step.enter) (simp_all add: s0_def guarded_init_def SpinLock_def SpinLock_Lock_def pthread_spin_lock_def)
  moreover have "?step s1 s2" unfolding s2_def by (rule guarded_step.work) (simp add: s1_def)
  moreover have "?step s2 s3" unfolding s3_def by (rule guarded_step.leave) (simp add: s2_def)
  ultimately have reach: "?step\<^sup>*\<^sup>* (guarded_init SpinLock LoggerManager) s3"
    unfolding s0_def by (meson r_into_rtranclp rtranclp_trans)
  have idle: "\<forall>t. g_pc s3 t = None" and calls: "g_calls s3 = [CallAdd 0]"
    by (simp_all add: s3_def s2_def s1_def s0_def guarded_init_def)
  from Logger_calls_linearize [OF reach] idle have "g_object s3 = fold (logger_call_spec (\<lambda>f t. []) 0) (g_calls s3) LoggerManager" by blast
  with reach calls show ?thesis by (intro exI [of _ s3]) simp
qed

end
