(* ===== verification/Config.thy ===== *)
theory Config
  imports Log
begin

text \<open>
  The configuration module: \<^verbatim>\<open>src/src/config.cc\<close> and its header. Casts between values and YAML text,
  configuration variables with their listeners, the registry of variables, loading from a
  YAML tree, and the listener that rebuilds the loggers. The YAML library is outside: a tree
  is what the code sees of a node, and the parameters \<open>load\<close> and \<open>dump\<close> parse and print. Listeners act
  on an environment and may throw.
\<close>

section \<open>YAML trees and casts\<close>

datatype yaml = Null | Scalar string | Sequence "yaml list" | Map "(string \<times> yaml) list"

text \<open>
  Exceptions; \<open>NotASequence\<close> marks iterating over a map as if it were a sequence, which the library
  does not describe, and \<open>NullVar\<close> a call through a null pointer.
\<close>

datatype config_exn =
  YamlError | BadCast | ConfInvalidArgument string | ConfLogicError string | BadFunctionCall | NotASequence | NullVar

type_synonym load = "string \<Rightarrow> config_exn + yaml"
type_synonym dump = "yaml \<Rightarrow> string"

fun map_res :: "('a \<Rightarrow> 'e + 'b) \<Rightarrow> 'a list \<Rightarrow> 'e + 'b list" where
  "map_res f [] = Inr []"
| "map_res f (x # xs) = res_bind (f x) (\<lambda>y. res_bind (map_res f xs) (\<lambda>ys. Inr (y # ys)))"

fun seq_items :: "yaml \<Rightarrow> config_exn + yaml list" where
  "seq_items (Sequence ns) = Inr ns"
| "seq_items (Map []) = Inr []"
| "seq_items (Map _) = Inl NotASequence"
| "seq_items _ = Inr []"

fun map_entries :: "yaml \<Rightarrow> config_exn + (string \<times> yaml) list" where
  "map_entries (Map kvs) = Inr kvs"
| "map_entries (Sequence []) = Inr []"
| "map_entries (Sequence _) = Inl NotASequence"
| "map_entries _ = Inr []"

text \<open>Vectors.\<close>

definition vector_from_string ::
  "load \<Rightarrow> dump \<Rightarrow> (string \<Rightarrow> config_exn + 'a) \<Rightarrow> string \<Rightarrow> config_exn + 'a list" where
  "vector_from_string load dump cast str =
     res_bind (load str) (\<lambda>node. res_bind (seq_items node) (map_res (\<lambda>n. cast (dump n))))"

definition vector_to_string ::
  "load \<Rightarrow> dump \<Rightarrow> ('a \<Rightarrow> config_exn + string) \<Rightarrow> 'a list \<Rightarrow> config_exn + string" where
  "vector_to_string load dump cast v =
     res_bind (map_res (\<lambda>x. res_bind (cast x) load) v)
       (\<lambda>ns. Inr (dump (if ns = [] then Null else Sequence ns)))"

text \<open>Lists have the same casts, with another container.\<close>

definition list_from_string ::
  "load \<Rightarrow> dump \<Rightarrow> (string \<Rightarrow> config_exn + 'a) \<Rightarrow> string \<Rightarrow> config_exn + 'a list" where
  "list_from_string load dump cast str =
     res_bind (load str) (\<lambda>node. res_bind (seq_items node) (map_res (\<lambda>n. cast (dump n))))"

definition list_to_string ::
  "load \<Rightarrow> dump \<Rightarrow> ('a \<Rightarrow> config_exn + string) \<Rightarrow> 'a list \<Rightarrow> config_exn + string" where
  "list_to_string load dump cast v =
     res_bind (map_res (\<lambda>x. res_bind (cast x) load) v)
       (\<lambda>ns. Inr (dump (if ns = [] then Null else Sequence ns)))"

text \<open>
  Ordered sets: the elements in ascending order of \<open>lt\<close>; \<^verbatim>\<open>insert\<close> leaves an element that is equivalent
  to the new one.
\<close>

fun set_insert :: "('a \<Rightarrow> 'a \<Rightarrow> bool) \<Rightarrow> 'a \<Rightarrow> 'a list \<Rightarrow> 'a list" where
  "set_insert lt x [] = [x]"
| "set_insert lt x (y # ys) =
     (if lt x y then x # y # ys else if lt y x then y # set_insert lt x ys else y # ys)"

definition set_from_string ::
  "load \<Rightarrow> dump \<Rightarrow> ('a \<Rightarrow> 'a \<Rightarrow> bool) \<Rightarrow> (string \<Rightarrow> config_exn + 'a) \<Rightarrow> string \<Rightarrow> config_exn + 'a list" where
  "set_from_string load dump lt cast str =
     res_bind (vector_from_string load dump cast str) (\<lambda>xs. Inr (fold (set_insert lt) xs []))"

definition set_to_string ::
  "load \<Rightarrow> dump \<Rightarrow> ('a \<Rightarrow> config_exn + string) \<Rightarrow> 'a list \<Rightarrow> config_exn + string" where
  "set_to_string = vector_to_string"

text \<open>Maps: \<^verbatim>\<open>insert\<close> keeps the first value of a key; a value is stored as a scalar with its text.\<close>

definition map_insert :: "string \<times> 'a \<Rightarrow> (string \<times> 'a) list \<Rightarrow> (string \<times> 'a) list" where
  "map_insert kv m = (if map_of m (fst kv) = None then map_put (fst kv) (snd kv) m else m)"

definition map_from_string ::
  "load \<Rightarrow> dump \<Rightarrow> (string \<Rightarrow> config_exn + 'a) \<Rightarrow> string \<Rightarrow> config_exn + (string \<times> 'a) list" where
  "map_from_string load dump cast str =
     res_bind (load str) (\<lambda>node. res_bind (map_entries node) (\<lambda>kvs.
       res_bind (map_res (\<lambda>(k, n). res_bind (cast (dump n)) (\<lambda>v. Inr (k, v))) kvs)
         (\<lambda>ents. Inr (fold map_insert ents []))))"

definition map_to_string ::
  "dump \<Rightarrow> ('a \<Rightarrow> config_exn + string) \<Rightarrow> (string \<times> 'a) list \<Rightarrow> config_exn + string" where
  "map_to_string dump cast m =
     res_bind (map_res (\<lambda>(k, v). res_bind (cast v) (\<lambda>s. Inr (k, Scalar s))) m)
       (\<lambda>kvs. Inr (dump (if kvs = [] then Null else Map kvs)))"

text \<open>
  Unordered containers: the elements as a set, the entries as a map. \<open>iter\<close> is the order in which the
  library's container iterates; \<^verbatim>\<open>insert\<close> keeps the first value of a key here as well.
\<close>

definition unordered_set_from_string ::
  "load \<Rightarrow> dump \<Rightarrow> (string \<Rightarrow> config_exn + 'a) \<Rightarrow> string \<Rightarrow> config_exn + 'a set" where
  "unordered_set_from_string load dump cast str =
     res_bind (load str) (\<lambda>node. res_bind (seq_items node) (\<lambda>ns.
       res_bind (map_res (\<lambda>n. cast (dump n)) ns) (\<lambda>xs. Inr (fold insert xs {}))))"

definition unordered_set_to_string ::
  "load \<Rightarrow> dump \<Rightarrow> ('a set \<Rightarrow> 'a list) \<Rightarrow> ('a \<Rightarrow> config_exn + string) \<Rightarrow> 'a set \<Rightarrow> config_exn + string" where
  "unordered_set_to_string load dump iter cast v =
     res_bind (map_res (\<lambda>x. res_bind (cast x) load) (iter v))
       (\<lambda>ns. Inr (dump (if ns = [] then Null else Sequence ns)))"

definition unordered_map_insert :: "string \<times> 'a \<Rightarrow> (string \<rightharpoonup> 'a) \<Rightarrow> (string \<rightharpoonup> 'a)" where
  "unordered_map_insert kv m = (if m (fst kv) = None then m(fst kv \<mapsto> snd kv) else m)"

definition unordered_map_from_string ::
  "load \<Rightarrow> dump \<Rightarrow> (string \<Rightarrow> config_exn + 'a) \<Rightarrow> string \<Rightarrow> config_exn + (string \<rightharpoonup> 'a)" where
  "unordered_map_from_string load dump cast str =
     res_bind (load str) (\<lambda>node. res_bind (map_entries node) (\<lambda>kvs.
       res_bind (map_res (\<lambda>(k, n). res_bind (cast (dump n)) (\<lambda>v. Inr (k, v))) kvs)
         (\<lambda>ents. Inr (fold unordered_map_insert ents Map.empty))))"

definition unordered_map_to_string ::
  "dump \<Rightarrow> ((string \<rightharpoonup> 'a) \<Rightarrow> (string \<times> 'a) list) \<Rightarrow> ('a \<Rightarrow> config_exn + string) \<Rightarrow> (string \<rightharpoonup> 'a) \<Rightarrow> config_exn + string" where
  "unordered_map_to_string dump iter cast m =
     res_bind (map_res (\<lambda>(k, v). res_bind (cast v) (\<lambda>s. Inr (k, Scalar s))) (iter m))
       (\<lambda>kvs. Inr (dump (if kvs = [] then Null else Map kvs)))"

text \<open>Logger configurations.\<close>

definition field :: "string \<Rightarrow> yaml \<Rightarrow> config_exn + yaml option" where
  "field k n = (case n of Map kvs \<Rightarrow> Inr (map_of kvs k) | Scalar _ \<Rightarrow> Inl YamlError | _ \<Rightarrow> Inr None)"

fun as_string :: "yaml \<Rightarrow> config_exn + string" where
  "as_string (Scalar s) = Inr s"
| "as_string _ = Inl YamlError"

definition opt_string :: "string \<Rightarrow> yaml \<Rightarrow> config_exn + string" where
  "opt_string k n = res_bind (field k n) (\<lambda>x. case x of None \<Rightarrow> Inr [] | Some v \<Rightarrow> as_string v)"

definition required :: "string \<Rightarrow> string \<Rightarrow> yaml \<Rightarrow> config_exn + yaml" where
  "required k err n = res_bind (field k n) (\<lambda>x. case x of None \<Rightarrow> Inl (ConfLogicError err) | Some v \<Rightarrow> Inr v)"

definition appender_conf_of :: "yaml \<Rightarrow> config_exn + log_appender_conf" where
  "appender_conf_of n =
     res_bind (required ''type'' (''log config logic error: appenders'' @ [CHR 0x27] @ ''s type is not defined'') n) (\<lambda>ty.
     res_bind (as_string ty) (\<lambda>t.
     res_bind (opt_string ''formatter'' n) (\<lambda>fmt.
     res_bind (opt_string ''file'' n) (\<lambda>file.
       Inr \<lparr>ac_type = map tolower t, ac_file = file, ac_formatter = fmt\<rparr>))))"

definition logger_conf_from_string :: "load \<Rightarrow> string \<Rightarrow> config_exn + logger_conf" where
  "logger_conf_from_string load str =
     res_bind (load str) (\<lambda>node.
     res_bind (required ''name'' ''log config logic error: name is not defined'' node) (\<lambda>nm.
     res_bind (as_string nm) (\<lambda>name.
     res_bind (required ''level'' ''log config logic error: level is not defined'' node) (\<lambda>lv.
     res_bind (as_string lv) (\<lambda>level.
     res_bind (required ''appenders'' ''log config logic error: appenders is not defined'' node) (\<lambda>apps.
     res_bind (case apps of Sequence ns \<Rightarrow> Inr ns
               | _ \<Rightarrow> Inl (ConfLogicError ''log config logic error: appenders is not sequence'')) (\<lambda>ns.
     res_bind (map_res appender_conf_of ns) (\<lambda>as.
       Inr \<lparr>lc_name = name, lc_level = LevelToString (LevelFromString level), lc_appenders = as\<rparr>))))))))"

definition appender_conf_node :: "log_appender_conf \<Rightarrow> yaml" where
  "appender_conf_node a =
     (let kvs = (if ac_type a \<noteq> [] then [(''type'', Scalar (ac_type a))] else []) @
                (if ac_formatter a \<noteq> [] then [(''formatter'', Scalar (ac_formatter a))] else []) @
                (if ac_file a \<noteq> [] then [(''file'', Scalar (ac_file a))] else [])
      in if kvs = [] then Null else Map kvs)"

definition logger_conf_to_string :: "dump \<Rightarrow> logger_conf \<Rightarrow> string" where
  "logger_conf_to_string dump lc =
     dump (Map ([(''name'', Scalar (lc_name lc)), (''level'', Scalar (lc_level lc))] @
       (if lc_appenders lc = [] then [] else [(''appenders'', Sequence (map appender_conf_node (lc_appenders lc)))])))"

section \<open>Configuration variables\<close>

text \<open>A listener gets the old and the new value; an empty function throws when it is called.\<close>

type_synonym ('a, 'e) listener = "'a \<Rightarrow> 'a \<Rightarrow> 'e \<Rightarrow> config_exn option \<times> 'e"

record config_var_base =
  var_name :: string
  var_description :: string

record ('a, 'e) config_var = config_var_base +
  var_value :: 'a
  callbacks :: "(nat \<times> ('a, 'e) listener option) list"

definition ConfigVar :: "string \<Rightarrow> 'a \<Rightarrow> string \<Rightarrow> ('a, 'e) config_var" where
  "ConfigVar name val dscp = \<lparr>var_name = name, var_description = dscp, var_value = val, callbacks = []\<rparr>"

fun notify :: "(nat \<times> ('a, 'e) listener option) list \<Rightarrow> 'a \<Rightarrow> 'a \<Rightarrow> 'e \<Rightarrow> config_exn option \<times> 'e" where
  "notify [] old new e = (None, e)"
| "notify ((k, None) # cbs) old new e = (Some BadFunctionCall, e)"
| "notify ((k, Some f) # cbs) old new e =
     (case f old new e of (Some x, e') \<Rightarrow> (Some x, e') | (None, e') \<Rightarrow> notify cbs old new e')"

definition SetValue ::
  "'a \<Rightarrow> ('a, 'e) config_var \<times> 'e \<Rightarrow> config_exn option \<times> ('a, 'e) config_var \<times> 'e" where
  "SetValue val s =
     (case s of (v, e) \<Rightarrow>
        if val = var_value v then (None, v, e)
        else (case notify (callbacks v) (var_value v) val e of
                (Some x, e') \<Rightarrow> (Some x, v, e')
              | (None, e') \<Rightarrow> (None, v\<lparr>var_value := val\<rparr>, e')))"

definition FromString ::
  "(string \<Rightarrow> config_exn + 'a) \<Rightarrow> string \<Rightarrow> ('a, 'e) config_var \<times> 'e \<Rightarrow>
   config_exn option \<times> ('a, 'e) config_var \<times> 'e" where
  "FromString from_str str s =
     (case from_str str of
        Inl x \<Rightarrow> (Some (ConfInvalidArgument str), s)
      | Inr val \<Rightarrow>
          (case SetValue val s of
             (None, s') \<Rightarrow> (None, s')
           | (Some x, s') \<Rightarrow> (Some (ConfInvalidArgument str), s')))"

definition ToString :: "('a \<Rightarrow> config_exn + string) \<Rightarrow> ('a, 'e) config_var \<Rightarrow> string" where
  "ToString to_str v = (case to_str (var_value v) of Inl x \<Rightarrow> [] | Inr s \<Rightarrow> s)"

definition AddListener :: "nat \<Rightarrow> ('a, 'e) listener \<Rightarrow> ('a, 'e) config_var \<Rightarrow> ('a, 'e) config_var" where
  "AddListener key f v = v\<lparr>callbacks := map_put key (Some f) (callbacks v)\<rparr>"

definition DelListener :: "nat \<Rightarrow> ('a, 'e) config_var \<Rightarrow> ('a, 'e) config_var" where
  "DelListener key v = v\<lparr>callbacks := map_erase key (callbacks v)\<rparr>"

text \<open>\<^verbatim>\<open>operator[]\<close> of the map inserts an empty function for a key that is not there.\<close>

definition GetListener :: "nat \<Rightarrow> ('a, 'e) config_var \<Rightarrow> ('a, 'e) listener option \<times> ('a, 'e) config_var" where
  "GetListener key v =
     (case map_of (callbacks v) key of
        Some f \<Rightarrow> (f, v)
      | None \<Rightarrow> (None, v\<lparr>callbacks := map_put key None (callbacks v)\<rparr>))"

definition ClearListener :: "('a, 'e) config_var \<Rightarrow> ('a, 'e) config_var" where
  "ClearListener v = v\<lparr>callbacks := []\<rparr>"

section \<open>The registry\<close>

text \<open>
  Variables of all types, as objects with a type name; a null pointer is \<open>None\<close>. The legal
  characters of a name lack the digit 0.
\<close>

type_synonym 'o vars = "(string \<times> 'o option) list"

definition lower_chars :: string where
  "lower_chars = ''abcdefghijklmnopqrstuvwxyz._-123456789/''"

definition name_chars :: string where
  "name_chars = ''ABCDEFGHIJKLMNOPQRSTUVWXYZabcdefghijklmnopqrstuvwxyz._-123456789/''"

definition Lookup :: "('o \<Rightarrow> string) \<Rightarrow> string \<Rightarrow> string \<Rightarrow> 'o vars \<Rightarrow> 'o option" where
  "Lookup type_name ty name vs =
     (case map_of vs (map tolower name) of
        Some (Some v) \<Rightarrow> if type_name v = ty then Some v else None
      | _ \<Rightarrow> None)"

text \<open>The overload that creates the variable; \<open>mk\<close> is the constructor of the variable's type.\<close>

definition LookupCreate ::
  "('o \<Rightarrow> string) \<Rightarrow> string \<Rightarrow> string \<Rightarrow> (string \<Rightarrow> 'o) \<Rightarrow> 'o vars \<Rightarrow> config_exn + 'o option \<times> 'o vars" where
  "LookupCreate type_name ty name mk vs =
     (let key = map tolower name in
      case map_of vs key of
        Some v \<Rightarrow>
          (case v of
             Some x \<Rightarrow> if type_name x = ty then Inr (Some x, vs) else Inr (None, vs)
           | None \<Rightarrow> Inr (None, vs))
      | None \<Rightarrow>
          if \<not> set key \<subseteq> set lower_chars
          then Inl (ConfInvalidArgument (''input argument '' @ key @ '' is invalid''))
          else let ptr = mk key in Inr (Some ptr, map_put key (Some ptr) vs))"

text \<open>
  \<^verbatim>\<open>PrintAllVarsMap\<close>: the text for standard output. A variable whose pointer is null ends the program
  after its name.
\<close>

fun PrintAllVarsMap :: "('o \<Rightarrow> string) \<Rightarrow> ('o \<Rightarrow> string) \<Rightarrow> 'o vars \<Rightarrow> string \<Rightarrow> config_exn option \<times> string" where
  "PrintAllVarsMap description type_name [] out = (None, out)"
| "PrintAllVarsMap description type_name ((k, None) # vs) out = (Some NullVar, out @ ''['' @ k @ '', '')"
| "PrintAllVarsMap description type_name ((k, Some v) # vs) out =
     PrintAllVarsMap description type_name vs (out @ ''['' @ k @ '', '' @ description v @ '', '' @ type_name v @ '']'' @ [LF])"

lemma size_entry: "kv \<in> set kvs \<Longrightarrow> size (snd kv) < size (Map kvs)"
  by (induction kvs) (auto simp: less_Suc_eq_le trans_le_add1 trans_le_add2)

function YamlToList :: "string \<Rightarrow> yaml \<Rightarrow> (string \<times> yaml) list" where
  "YamlToList pref node =
     (if \<not> set pref \<subseteq> set name_chars then []
      else (pref, node) #
        (case node of
           Map kvs \<Rightarrow> concat (map (\<lambda>kv. YamlToList (if pref = [] then fst kv else pref @ ''.'' @ fst kv) (snd kv)) kvs)
         | _ \<Rightarrow> []))"
  by pat_completeness auto

termination
  by (relation "measure (\<lambda>(pref, node). size node)") (auto dest: size_entry)

declare YamlToList.simps [simp del]

text \<open>
  One entry of \<^verbatim>\<open>LoadFromYaml\<close>. The search uses the key in lower case, but the scalar branch uses the
  key as written with \<^verbatim>\<open>operator[]\<close>, which inserts a null pointer when it is not there.
  \<open>from_string\<close> is the virtual call on the object; the variable stays at its address.
\<close>

definition load_entry ::
  "dump \<Rightarrow> ('o \<Rightarrow> string \<Rightarrow> 'e \<Rightarrow> config_exn option \<times> 'o \<times> 'e) \<Rightarrow> string \<times> yaml \<Rightarrow> 'o vars \<times> 'e \<Rightarrow>
   config_exn option \<times> 'o vars \<times> 'e" where
  "load_entry dump from_string kv s =
     (case (kv, s) of ((k, n), (vs, e)) \<Rightarrow>
        let key = map tolower k in
        if k = [] \<or> map_of vs key = None then (None, vs, e)
        else let (at, str) = (case n of Scalar x \<Rightarrow> (k, x) | _ \<Rightarrow> (key, dump n)) in
             (case map_of vs at of
                Some (Some v) \<Rightarrow> (case from_string v str e of (err, v', e') \<Rightarrow> (err, map_put at (Some v') vs, e'))
              | Some None \<Rightarrow> (Some NullVar, vs, e)
              | None \<Rightarrow> (Some NullVar, map_put at None vs, e)))"

fun load_entries ::
  "dump \<Rightarrow> ('o \<Rightarrow> string \<Rightarrow> 'e \<Rightarrow> config_exn option \<times> 'o \<times> 'e) \<Rightarrow> (string \<times> yaml) list \<Rightarrow> 'o vars \<times> 'e \<Rightarrow>
   config_exn option \<times> 'o vars \<times> 'e" where
  "load_entries dump from_string [] s = (None, s)"
| "load_entries dump from_string (kv # kvs) s =
     (case load_entry dump from_string kv s of
        (Some x, s') \<Rightarrow> (Some x, s')
      | (None, s') \<Rightarrow> load_entries dump from_string kvs s')"

definition LoadFromYaml ::
  "dump \<Rightarrow> ('o \<Rightarrow> string \<Rightarrow> 'e \<Rightarrow> config_exn option \<times> 'o \<times> 'e) \<Rightarrow> yaml \<Rightarrow> 'o vars \<times> 'e \<Rightarrow>
   config_exn option \<times> 'o vars \<times> 'e" where
  "LoadFromYaml dump from_string rt s = load_entries dump from_string (YamlToList [] rt) s"

section \<open>The listener of the logger configuration\<close>

definition conf_formatter :: "string \<Rightarrow> formatter_item list" where
  "conf_formatter fmt = (if fmt = [] then LogFormatter default_pattern else LogFormatter fmt)"

definition add_appender_conf :: "file_system \<Rightarrow> nat \<Rightarrow> log_appender_conf \<Rightarrow> log_state \<Rightarrow> log_state" where
  "add_appender_conf fs lg j st =
     (if ac_type j = ''logappendertostd''
      then case new_std_appender st of
             (a, st1) \<Rightarrow> AddAppender lg a (SetFormatter a (conf_formatter (ac_formatter j)) st1)
      else if ac_type j = ''logappendertofile'' \<and> ac_file j \<noteq> []
      then case new_file_appender fs (ac_file j) st of
             (a, st1) \<Rightarrow> AddAppender lg a (SetFormatter a (conf_formatter (ac_formatter j)) st1)
      else st)"

text \<open>The line the listener logs for a new logger, on the root logger of the moment.\<close>

definition announce ::
  "(string \<Rightarrow> u64 \<Rightarrow> string) \<Rightarrow> file_system \<Rightarrow> string \<Rightarrow> u32 \<Rightarrow> (string \<Rightarrow> u64) \<Rightarrow> string \<Rightarrow> log_state \<Rightarrow> log_state" where
  "announce strftime fs file tid now name st =
     SYLAR_LOG strftime fs (GetRoot st) INFO file 88 tid (now name) (''log add: '' @ name) st"

text \<open>One configuration; \<open>say\<close> is \<open>announce\<close> with what the environment decides.\<close>

definition add_logger_conf :: "file_system \<Rightarrow> (string \<Rightarrow> log_state \<Rightarrow> log_state) \<Rightarrow> logger_conf \<Rightarrow> log_state \<Rightarrow> log_state" where
  "add_logger_conf fs say i st =
     (case NewLogger (lc_name i) (say (lc_name i) st) of
        (lg, st1) \<Rightarrow>
          (let st2 = SetMaxLevel lg (LevelFromString (lc_level i)) st1;
               st3 = fold (add_appender_conf fs lg) (lc_appenders i) st2
           in if lc_name i = ''root'' then SetRoot lg st3 else st3))"

definition LogConfListener ::
  "file_system \<Rightarrow> (string \<Rightarrow> log_state \<Rightarrow> log_state) \<Rightarrow> logger_conf list \<Rightarrow> logger_conf list \<Rightarrow> log_state \<Rightarrow> log_state" where
  "LogConfListener fs say old_val new_val st =
     fold (add_logger_conf fs say) new_val (fold (\<lambda>i. DelLogger (lc_name i)) old_val st)"

definition LogConfInit ::
  "file_system \<Rightarrow> (string \<Rightarrow> log_state \<Rightarrow> log_state) \<Rightarrow> (logger_conf list, log_state) config_var \<times> log_state \<Rightarrow>
   config_exn option \<times> (logger_conf list, log_state) config_var \<times> log_state" where
  "LogConfInit fs say s =
     (let lc = \<lparr>lc_name = ''root'', lc_level = LevelToString FATAL,
                lc_appenders = [\<lparr>ac_type = ''logappendertostd'', ac_file = [], ac_formatter = []\<rparr>]\<rparr>
      in case SetValue [lc] s of
           (Some x, s') \<Rightarrow> (Some x, s')
         | (None, v, e) \<Rightarrow> (None, AddListener 1 (\<lambda>old new st. (None, LogConfListener fs say old new st)) v, e))"

end
