(* ===== verification/Config_Laws.thy ===== *)
theory Config_Laws
  imports Config Log_Laws "HOL-Library.Countable"
begin

text \<open>
  Laws of the configuration module: which casts round-trip through YAML text, what listeners
  see, how a tree is loaded into the registry, and what a change of the logger
  configuration leaves in the manager of loggers.
\<close>

section \<open>Casts\<close>

text \<open>The documented behaviour of the library the casts rely on: parsing what was printed gives the tree back.\<close>

definition yaml_documented :: "load \<Rightarrow> dump \<Rightarrow> bool" where
  "yaml_documented load dump \<longleftrightarrow> (\<forall>n. load (dump n) = Inr n)"

text \<open>
  A value survives a cast: its text is YAML, and it is read back from the text and from what
  the library prints for the parsed text.
\<close>

definition cast_ok ::
  "load \<Rightarrow> dump \<Rightarrow> (string \<Rightarrow> config_exn + 'a) \<Rightarrow> ('a \<Rightarrow> config_exn + string) \<Rightarrow> 'a \<Rightarrow> bool" where
  "cast_ok load dump from to x \<longleftrightarrow>
     (\<exists>s n. to x = Inr s \<and> load s = Inr n \<and> from s = Inr x \<and> from (dump n) = Inr x)"

lemma map_res_Inr: "(\<forall>x\<in>set xs. f x = Inr (g x)) \<Longrightarrow> map_res f xs = Inr (map g xs)"
  by (induction xs) auto

lemma vector_cast_ok:
  assumes yaml: "yaml_documented load dump" and v: "\<forall>x\<in>set v. cast_ok load dump from to x"
  shows "cast_ok load dump (vector_from_string load dump from) (vector_to_string load dump to) v"
proof -
  define node where "node x = projr (load (projr (to x)))" for x
  have elem: "res_bind (to x) load = Inr (node x)" "from (dump (node x)) = Inr x" if "x \<in> set v" for x
    using v that by (auto simp: cast_ok_def node_def)
  let ?n = "if map node v = [] then Null else Sequence (map node v)"
  have "map_res (\<lambda>x. res_bind (to x) load) v = Inr (map node v)"
    by (rule map_res_Inr) (use elem in blast)
  then have to: "vector_to_string load dump to v = Inr (dump ?n)"
    by (simp add: vector_to_string_def)
  have "map_res (\<lambda>n. from (dump n)) (map node v) = Inr v"
    using elem(2) by (induction v) auto
  then have "vector_from_string load dump from (dump ?n) = Inr v"
    using yaml by (auto simp: vector_from_string_def yaml_documented_def)
  with to yaml show ?thesis by (auto simp: cast_ok_def yaml_documented_def)
qed

lemma list_cast_ok:
  assumes "yaml_documented load dump" and "\<forall>x\<in>set v. cast_ok load dump from to x"
  shows "cast_ok load dump (list_from_string load dump from) (list_to_string load dump to) v"
proof -
  have "list_from_string load dump from = vector_from_string load dump from"
    "list_to_string load dump to = vector_to_string load dump to"
    by (auto simp: list_from_string_def vector_from_string_def list_to_string_def vector_to_string_def)
  with vector_cast_ok [OF assms] show ?thesis by simp
qed

lemma set_insert_last:
  assumes "\<forall>y\<in>set ys. lt y x \<and> \<not> lt x y"
  shows "set_insert lt x ys = ys @ [x]"
  using assms by (induction ys) auto

lemma fold_set_insert:
  assumes "sorted_wrt (\<lambda>x y. lt x y \<and> \<not> lt y x) (ys @ xs)"
  shows "fold (set_insert lt) xs ys = ys @ xs"
  using assms
proof (induction xs arbitrary: ys)
  case (Cons x xs)
  then have "set_insert lt x ys = ys @ [x]" by (intro set_insert_last) (auto simp: sorted_wrt_append)
  with Cons.IH [of "ys @ [x]"] Cons.prems show ?case by simp
qed simp

lemma set_cast_ok:
  assumes "yaml_documented load dump" and "\<forall>x\<in>set v. cast_ok load dump from to x"
    and "sorted_wrt (\<lambda>x y. lt x y \<and> \<not> lt y x) v"
  shows "cast_ok load dump (set_from_string load dump lt from) (set_to_string load dump to) v"
  using vector_cast_ok [OF assms(1,2)] fold_set_insert [of lt "[]" v] assms(3)
  by (auto simp: cast_ok_def set_from_string_def set_to_string_def)

lemma fold_insert: "fold insert xs A = set xs \<union> A"
  by (induction xs arbitrary: A) auto

lemma unordered_set_cast_ok:
  assumes "yaml_documented load dump" and "\<forall>x\<in>S. cast_ok load dump from to x" and "set (iter S) = S"
  shows "cast_ok load dump (unordered_set_from_string load dump from) (unordered_set_to_string load dump iter to) S"
proof -
  have "unordered_set_from_string load dump from str = res_bind (vector_from_string load dump from str) (\<lambda>xs. Inr (set xs))" for str
    by (simp add: unordered_set_from_string_def vector_from_string_def fold_insert res_bind_def split: sum.split)
  moreover have "unordered_set_to_string load dump iter to S = vector_to_string load dump to (iter S)"
    by (simp add: unordered_set_to_string_def vector_to_string_def)
  moreover have "cast_ok load dump (vector_from_string load dump from) (vector_to_string load dump to) (iter S)"
    by (rule vector_cast_ok) (use assms in auto)
  ultimately show ?thesis using assms(3) by (auto simp: cast_ok_def)
qed

text \<open>Entries in ascending order are inserted as they come.\<close>

lemma map_put_last: "\<forall>j\<in>fst ` set m. j < k \<Longrightarrow> map_put k v m = m @ [(k, v)]"
  by (induction k v m rule: map_put.induct) auto

lemma fold_map_insert_append:
  "ordered_map (m @ ents) \<Longrightarrow> fold map_insert ents m = m @ ents"
proof (induction ents arbitrary: m)
  case (Cons kv ents)
  then have "\<forall>j\<in>fst ` set m. j < fst kv" by (auto simp: ordered_map_def sorted_wrt_append)
  moreover from this have "map_of m (fst kv) = None" by (auto simp: map_of_eq_None_iff)
  ultimately have "map_insert kv m = m @ [kv]" by (simp add: map_insert_def map_put_last)
  with Cons.IH [of "m @ [kv]"] Cons.prems show ?case by simp
qed simp

lemma fold_map_insert: "ordered_map ents \<Longrightarrow> fold map_insert ents [] = ents"
  using fold_map_insert_append [of "[]"] by simp

text \<open>
  Maps, ordered or not, survive when every value is read back from the scalar that holds its text.
\<close>

lemma map_res_entries:
  assumes "yaml_documented load dump" and "\<forall>(k, v)\<in>set m. \<exists>s. to v = Inr s \<and> from (dump (Scalar s)) = Inr v"
  obtains kvs where "map_res (\<lambda>(k, v). res_bind (to v) (\<lambda>s. Inr (k, Scalar s))) m = Inr kvs" "(kvs = []) = (m = [])"
    "map_res (\<lambda>(k, n). res_bind (from (dump n)) (\<lambda>v. Inr (k, v))) kvs = Inr m"
  using assms(2)
proof (induction m arbitrary: thesis)
  case (Cons kv m)
  from Cons.prems(2) obtain s where "to (snd kv) = Inr s" "from (dump (Scalar s)) = Inr (snd kv)" by force
  moreover obtain kvs where "map_res (\<lambda>(k, v). res_bind (to v) (\<lambda>s. Inr (k, Scalar s))) m = Inr kvs"
    "map_res (\<lambda>(k, n). res_bind (from (dump n)) (\<lambda>v. Inr (k, v))) kvs = Inr m"
    using Cons.IH Cons.prems(2) by auto
  ultimately show ?case
    by (cases kv; intro Cons.prems(1) [of "(fst kv, Scalar s) # kvs"]) simp_all
qed simp

lemma map_casts_keep_scalars:
  assumes "yaml_documented load dump" and "ordered_map m"
    and "\<forall>(k, v)\<in>set m. \<exists>s. to v = Inr s \<and> from (dump (Scalar s)) = Inr v"
  shows "res_bind (map_to_string dump to m) (map_from_string load dump from) = Inr m"
proof -
  obtain kvs where kvs: "map_res (\<lambda>(k, v). res_bind (to v) (\<lambda>s. Inr (k, Scalar s))) m = Inr kvs" "(kvs = []) = (m = [])"
    "map_res (\<lambda>(k, n). res_bind (from (dump n)) (\<lambda>v. Inr (k, v))) kvs = Inr m"
    by (rule map_res_entries [OF assms(1,3)])
  then show ?thesis
    using assms(1) fold_map_insert [OF assms(2)]
    by (auto simp: map_to_string_def map_from_string_def yaml_documented_def)
qed

lemma fold_unordered_map_insert: "fold unordered_map_insert ents m = map_of ents ++ m"
proof (induction ents arbitrary: m)
  case (Cons kv ents)
  have "map_of ents ++ unordered_map_insert kv m = map_of (kv # ents) ++ m"
    by (auto simp: unordered_map_insert_def map_add_def fun_eq_iff split: option.splits)
  with Cons show ?case by (simp only: fold_Cons comp_apply)
qed simp

lemma unordered_map_casts_keep_scalars:
  assumes "yaml_documented load dump" and "map_of (iter m) = m"
    and "\<forall>(k, v)\<in>set (iter m). \<exists>s. to v = Inr s \<and> from (dump (Scalar s)) = Inr v"
  shows "res_bind (unordered_map_to_string dump iter to m) (unordered_map_from_string load dump from) = Inr m"
proof -
  obtain kvs where kvs: "map_res (\<lambda>(k, v). res_bind (to v) (\<lambda>s. Inr (k, Scalar s))) (iter m) = Inr kvs" "(kvs = []) = (iter m = [])"
    "map_res (\<lambda>(k, n). res_bind (from (dump n)) (\<lambda>v. Inr (k, v))) kvs = Inr (iter m)"
    by (rule map_res_entries [OF assms(1,3)])
  then show ?thesis
    using assms(1,2)
    by (auto simp: unordered_map_to_string_def unordered_map_from_string_def yaml_documented_def fold_unordered_map_insert)
qed

section \<open>Listeners\<close>

lemma notify_None: "None \<in> snd ` set cbs \<Longrightarrow> fst (notify cbs old new e) \<noteq> None"
  by (induction cbs old new e rule: notify.induct) (auto split: prod.splits option.splits)

lemma set_map_put: "(k, v) \<in> set (map_put k v m)"
  by (induction k v m rule: map_put.induct) auto

text \<open>A listener that records its key and what it is told.\<close>

definition recorder :: "nat \<Rightarrow> ('a, (nat \<times> 'a \<times> 'a) list) listener" where
  "recorder k old new e = (None, e @ [(k, old, new)])"

lemma notify_recorders:
  "\<forall>(k, f)\<in>set cbs. f = Some (recorder k) \<Longrightarrow>
   notify cbs old new e = (None, e @ map (\<lambda>(k, f). (k, old, new)) cbs)"
  by (induction cbs arbitrary: e) (auto simp: recorder_def)

definition add_recorders :: "nat list \<Rightarrow> ('a, (nat \<times> 'a \<times> 'a) list) config_var \<Rightarrow> ('a, (nat \<times> 'a \<times> 'a) list) config_var" where
  "add_recorders ks v = fold (\<lambda>k. AddListener k (recorder k)) ks v"

lemma add_recorders_callbacks:
  "ordered_map (callbacks v) \<Longrightarrow> \<forall>(k, f)\<in>set (callbacks v). f = Some (recorder k) \<Longrightarrow>
   ordered_map (callbacks (add_recorders ks v)) \<and>
   (\<forall>(k, f)\<in>set (callbacks (add_recorders ks v)). f = Some (recorder k)) \<and>
   fst ` set (callbacks (add_recorders ks v)) = fst ` set (callbacks v) \<union> set ks \<and>
   var_value (add_recorders ks v) = var_value v"
proof (induction ks arbitrary: v)
  case (Cons k ks)
  let ?v = "AddListener k (recorder k) v"
  have "set (map_put k x m) \<subseteq> insert (k, x) (set m)" for x and m :: "(nat \<times> 'b) list"
    by (induction k x m rule: map_put.induct) auto
  then have "\<forall>(j, f)\<in>set (callbacks ?v). f = Some (recorder j)"
    using Cons.prems(2) by (fastforce simp: AddListener_def)
  moreover have "ordered_map (callbacks ?v)" using Cons.prems(1) by (simp add: AddListener_def ordered_map_put)
  ultimately show ?case
    using Cons.IH [of ?v] by (auto simp: add_recorders_def AddListener_def fst_set_map_put)
qed (simp add: add_recorders_def)

section \<open>Rebuilding the loggers\<close>

text \<open>Every registered name leads to a logger of that name.\<close>

definition manager_ok :: "log_state \<Rightarrow> bool" where
  "manager_ok st \<longleftrightarrow> (\<forall>n l. map_of (loggers st) n = Some l \<longrightarrow> l < length (lgs st) \<and> lg_name (lgs st ! l) = n)"

text \<open>The part of the state that logging leaves alone.\<close>

definition same_loggers :: "log_state \<Rightarrow> log_state \<Rightarrow> bool" where
  "same_loggers st st' \<longleftrightarrow> lgs st' = lgs st \<and> loggers st' = loggers st"

lemma LoggerLog_same: "same_loggers st (LoggerLog sf fs l ev st)"
proof -
  have "same_loggers st (fold (AppenderLog sf fs e) as st)" for e as
    by (induction as arbitrary: st) (auto simp: same_loggers_def AppenderLog_other)
  then show ?thesis unfolding LoggerLog_def fold_level Let_def by (simp add: same_loggers_def)
qed

lemma SYLAR_LOG_same: "same_loggers st (SYLAR_LOG sf fs l level file line tid now msg st)"
  by (simp add: SYLAR_LOG_def LogEventWrapper_end_def LoggerLog_same) (simp add: same_loggers_def)

lemma announce_same: "same_loggers st (announce sf fs file tid now name st)"
  by (simp add: announce_def SYLAR_LOG_same)

lemma set_logger_simps [simp]:
  "loggers (set_logger l f st) = loggers st" "length (lgs (set_logger l f st)) = length (lgs st)"
  "lgs (set_logger l f st) ! k = (if k = l \<and> l < length (lgs st) then f (lgs st ! l) else lgs st ! k)"
  by (cases "l < length (lgs st)"; cases "k = l"; simp add: set_logger_def list_update_beyond)+

text \<open>Adding appenders to one logger: names, levels and the other loggers stay.\<close>

lemma add_appender_conf_simps:
  "loggers (add_appender_conf fs l j st) = loggers st" "length (lgs (add_appender_conf fs l j st)) = length (lgs st)"
  "lg_name (lgs (add_appender_conf fs l j st) ! k) = lg_name (lgs st ! k)"
  "max_level (lgs (add_appender_conf fs l j st) ! k) = max_level (lgs st ! k)"
  by (auto simp: add_appender_conf_def new_std_appender_def new_file_appender_def AddAppender_def SetFormatter_def split: prod.splits)

lemma fold_add_appender_conf:
  "loggers (fold (add_appender_conf fs l) js st) = loggers st \<and>
   length (lgs (fold (add_appender_conf fs l) js st)) = length (lgs st) \<and>
   lg_name (lgs (fold (add_appender_conf fs l) js st) ! k) = lg_name (lgs st ! k) \<and>
   max_level (lgs (fold (add_appender_conf fs l) js st) ! k) = max_level (lgs st ! k)"
  by (induction js arbitrary: st) (simp_all add: add_appender_conf_simps)

lemma add_logger_conf_ok:
  assumes ok: "manager_ok st" and say: "\<And>n st. same_loggers st (say n st)"
  shows "manager_ok (add_logger_conf fs say i st)"
    "dom (map_of (loggers (add_logger_conf fs say i st))) = insert (lc_name i) (dom (map_of (loggers st)))"
    "\<exists>l. map_of (loggers (add_logger_conf fs say i st)) (lc_name i) = Some l \<and>
       max_level (lgs (add_logger_conf fs say i st) ! l) = LevelFromString (lc_level i)"
    "n \<noteq> lc_name i \<Longrightarrow> map_of (loggers st) n = Some k \<Longrightarrow>
     map_of (loggers (add_logger_conf fs say i st)) n = Some k \<and>
     max_level (lgs (add_logger_conf fs say i st) ! k) = max_level (lgs st ! k)"
proof -
  obtain l st1 where new: "NewLogger (lc_name i) (say (lc_name i) st) = (l, st1)" by (cases "NewLogger (lc_name i) (say (lc_name i) st)")
  define st2 where "st2 = SetMaxLevel l (LevelFromString (lc_level i)) st1"
  define st3 where "st3 = fold (add_appender_conf fs l) (lc_appenders i) st2"
  have res: "loggers (add_logger_conf fs say i st) = loggers st3" "lgs (add_logger_conf fs say i st) = lgs st3"
    by (simp_all add: add_logger_conf_def new Let_def st2_def st3_def SetRoot_def)
  note keep = fold_add_appender_conf [of fs l "lc_appenders i" st2, folded st3_def]
  have say': "lgs (say (lc_name i) st) = lgs st" "loggers (say (lc_name i) st) = loggers st"
    using say by (simp_all add: same_loggers_def)
  have bound: "k < Suc (length (lgs st))" if "map_of (loggers st) n = Some k" for n k
    using ok that by (auto simp: manager_ok_def less_Suc_eq)
  have l: "l < length (lgs st1)" "lg_name (lgs st1 ! l) = lc_name i"
    and old: "\<And>n k. map_of (loggers st) n = Some k \<Longrightarrow> k < length (lgs st) \<and> k < length (lgs st1) \<and> lgs st1 ! k = lgs st ! k \<and> lg_name (lgs st ! k) = n"
    and logs: "map_of (loggers st1) = (map_of (loggers st))(lc_name i \<mapsto> l)"
    using new ok by (auto simp: NewLogger_def say' manager_ok_def Logger_def nth_append split: option.splits dest: bound)
  have st2: "loggers st2 = loggers st1" "length (lgs st2) = length (lgs st1)"
    "\<And>k. lg_name (lgs st2 ! k) = lg_name (lgs st1 ! k)"
    "\<And>k. max_level (lgs st2 ! k) = (if k = l then LevelFromString (lc_level i) else max_level (lgs st1 ! k))"
    using l(1) by (auto simp: st2_def SetMaxLevel_def)
  show "manager_ok (add_logger_conf fs say i st)"
    using keep st2 l old by (auto simp: manager_ok_def res logs split: if_splits)
  show "dom (map_of (loggers (add_logger_conf fs say i st))) = insert (lc_name i) (dom (map_of (loggers st)))"
    using keep st2 by (simp add: res logs)
  show "\<exists>l. map_of (loggers (add_logger_conf fs say i st)) (lc_name i) = Some l \<and>
      max_level (lgs (add_logger_conf fs say i st) ! l) = LevelFromString (lc_level i)"
    using keep st2 by (simp add: res logs)
  show "map_of (loggers (add_logger_conf fs say i st)) n = Some k \<and>
      max_level (lgs (add_logger_conf fs say i st) ! k) = max_level (lgs st ! k)"
    if "n \<noteq> lc_name i" "map_of (loggers st) n = Some k"
  proof -
    have "k \<noteq> l" using old [OF that(2)] l(2) that(1) by auto
    with that keep st2 old [OF that(2)] show ?thesis by (simp add: res logs)
  qed
qed

lemma fold_add_logger_conf:
  assumes "manager_ok st" and say: "\<And>n st. same_loggers st (say n st)" and "distinct (map lc_name new)"
  shows "manager_ok (fold (add_logger_conf fs say) new st) \<and>
     dom (map_of (loggers (fold (add_logger_conf fs say) new st))) = dom (map_of (loggers st)) \<union> lc_name ` set new \<and>
     (\<forall>i\<in>set new. \<exists>l. map_of (loggers (fold (add_logger_conf fs say) new st)) (lc_name i) = Some l \<and>
        max_level (lgs (fold (add_logger_conf fs say) new st) ! l) = LevelFromString (lc_level i)) \<and>
     (\<forall>n k. n \<notin> lc_name ` set new \<longrightarrow> map_of (loggers st) n = Some k \<longrightarrow>
        map_of (loggers (fold (add_logger_conf fs say) new st)) n = Some k \<and>
        max_level (lgs (fold (add_logger_conf fs say) new st) ! k) = max_level (lgs st ! k))"
  using assms(1,3)
proof (induction new arbitrary: st)
  case (Cons i new)
  define st1 where "st1 = add_logger_conf fs say i st"
  note one = add_logger_conf_ok [where fs = fs and say = say and i = i, OF Cons.prems(1) say, folded st1_def]
  note IH = Cons.IH [OF one(1)]
  obtain l where l: "map_of (loggers st1) (lc_name i) = Some l" "max_level (lgs st1 ! l) = LevelFromString (lc_level i)"
    using one(3) by blast
  have "lc_name i \<notin> lc_name ` set new" using Cons.prems(2) by auto
  then have "map_of (loggers (fold (add_logger_conf fs say) new st1)) (lc_name i) = Some l"
    "max_level (lgs (fold (add_logger_conf fs say) new st1) ! l) = LevelFromString (lc_level i)"
    using IH Cons.prems(2) l by auto
  with IH Cons.prems(2) one(2,4) show ?case by (auto simp: st1_def [symmetric])
qed simp

lemma manager_ok_delete: "manager_ok st \<Longrightarrow> manager_ok (fold (\<lambda>i. DelLogger (lc_name i)) old st)"
proof (induction old arbitrary: st)
  case (Cons i old)
  have "lgs (DelLogger (lc_name i) st) = lgs st" by (simp add: DelLogger_def)
  with Cons.prems have "manager_ok (DelLogger (lc_name i) st)"
    unfolding manager_ok_def manager.delete_found by (auto split: if_splits)
  with Cons.IH show ?case by simp
qed simp

lemma fold_delete_names:
  "dom (map_of (loggers (fold (\<lambda>i. DelLogger (lc_name i)) old st))) = dom (map_of (loggers st)) - lc_name ` set old"
  using manager.delete_all [of "map lc_name old" st] by (simp add: fold_map comp_def)

section \<open>Logger configurations as text\<close>

text \<open>A configuration that reading can produce: a level's name, and types in lower case.\<close>

definition appender_conf_ok :: "log_appender_conf \<Rightarrow> bool" where
  "appender_conf_ok a \<longleftrightarrow> ac_type a \<noteq> [] \<and> map tolower (ac_type a) = ac_type a"

definition logger_conf_ok :: "logger_conf \<Rightarrow> bool" where
  "logger_conf_ok lc \<longleftrightarrow> (\<exists>l. lc_level lc = LevelToString l) \<and> (\<forall>a\<in>set (lc_appenders lc). appender_conf_ok a)"

lemma appender_conf_of_node: "appender_conf_ok a \<Longrightarrow> appender_conf_of (appender_conf_node a) = Inr a"
  by (cases a)
    (auto simp: appender_conf_ok_def appender_conf_of_def appender_conf_node_def required_def opt_string_def field_def Let_def)

lemma map_res_appender_conf:
  "\<forall>a\<in>set as. appender_conf_ok a \<Longrightarrow> map_res appender_conf_of (map appender_conf_node as) = Inr as"
  by (induction as) (auto simp: appender_conf_of_node)

section \<open>Paths of a tree\<close>

text \<open>A node of a tree with the keys that lead to it.\<close>

inductive node_at :: "yaml \<Rightarrow> string list \<Rightarrow> yaml \<Rightarrow> bool" where
  node_here: "node_at n [] n"
| node_below: "(k, m) \<in> set kvs \<Longrightarrow> node_at m ks n \<Longrightarrow> node_at (Map kvs) (k # ks) n"

inductive_simps node_at_Nil [simp]: "node_at rt [] n"
inductive_simps node_at_Cons: "node_at rt (k # ks) n"

text \<open>The name of a path: its keys, separated by dots.\<close>

definition path_name :: "string \<Rightarrow> string list \<Rightarrow> string" where
  "path_name pref ks = fold (\<lambda>k p. if p = [] then k else p @ ''.'' @ k) ks pref"

lemma path_name_simps [simp]:
  "path_name pref [] = pref"
  "path_name pref (k # ks) = path_name (if pref = [] then k else pref @ ''.'' @ k) ks"
  by (simp_all add: path_name_def)

lemma path_name_prefix: "set pref \<subseteq> set (path_name pref ks)"
proof (induction ks arbitrary: pref)
  case (Cons k ks)
  show ?case using Cons.IH [of k] Cons.IH [of "pref @ ''.'' @ k"] by auto
qed simp

lemma split_path: "(\<exists>ks. P ks) \<longleftrightarrow> P [] \<or> (\<exists>k ks. P (k # ks))"
  by (metis neq_Nil_conv)

lemma YamlToList_paths:
  "(s, n) \<in> set (YamlToList pref rt) \<longleftrightarrow>
   (\<exists>ks. node_at rt ks n \<and> s = path_name pref ks \<and> set s \<subseteq> set name_chars)"
proof (induction pref rt arbitrary: s n rule: YamlToList.induct)
  case (1 pref rt)
  show ?case
  proof (cases "set pref \<subseteq> set name_chars")
    case False
    then show ?thesis using path_name_prefix [of pref] by (auto simp: YamlToList.simps)
  next
    case True
    define ext where "ext k = (if pref = [] then k else pref @ ''.'' @ k)" for k
    have "YamlToList pref rt =
        (pref, rt) # (case rt of Map kvs \<Rightarrow> concat (map (\<lambda>kv. YamlToList (ext (fst kv)) (snd kv)) kvs) | _ \<Rightarrow> [])"
      using True by (subst YamlToList.simps) (cases rt, simp_all add: ext_def)
    then have here: "(s, n) \<in> set (YamlToList pref rt) \<longleftrightarrow> (s, n) = (pref, rt) \<or>
        (\<exists>kvs k m. rt = Map kvs \<and> (k, m) \<in> set kvs \<and> (s, n) \<in> set (YamlToList (ext k) m))"
      by (cases rt) force+
    have below: "(s, n) \<in> set (YamlToList (ext k) m) \<longleftrightarrow>
        (\<exists>ks. node_at m ks n \<and> s = path_name pref (k # ks) \<and> set s \<subseteq> set name_chars)"
      if "rt = Map kvs" "(k, m) \<in> set kvs" for kvs k m
      using "1.IH" [of kvs "(k, m)"] True that unfolding fst_conv snd_conv ext_def [symmetric]
      by (simp add: ext_def [symmetric])
    have "(\<exists>ks. node_at rt ks n \<and> s = path_name pref ks \<and> set s \<subseteq> set name_chars) \<longleftrightarrow>
        (s, n) = (pref, rt) \<or> (\<exists>k ks. node_at rt (k # ks) n \<and> s = path_name pref (k # ks) \<and> set s \<subseteq> set name_chars)"
      using True by (subst split_path) auto
    also have "\<dots> \<longleftrightarrow> (s, n) = (pref, rt) \<or>
        (\<exists>kvs k m. rt = Map kvs \<and> (k, m) \<in> set kvs \<and> (\<exists>ks. node_at m ks n \<and> s = path_name pref (k # ks) \<and> set s \<subseteq> set name_chars))"
      unfolding node_at_Cons by blast
    finally show ?thesis unfolding here by (simp only: below cong: conj_cong)
  qed
qed

section \<open>Properties of the configuration module\<close>

text \<open>A YAML library for the witnesses: trees are numbered, and a tree's text is its number in unary.\<close>

instance yaml :: countable
  by countable_datatype

definition unary_dump :: dump where
  "unary_dump n = replicate (to_nat n) (CHR ''1'')"

definition unary_load :: load where
  "unary_load s = Inr (from_nat (length s))"

lemma unary_documented: "yaml_documented unary_load unary_dump"
  by (simp add: yaml_documented_def unary_load_def unary_dump_def)

text \<open>
  C21: A change of the logger configuration leaves a consistent manager: every registered name
  leads to a logger of that name; the names are the old ones, less those of the old
  configuration, with those of the new; each configured logger has the configured level,
  and a logger that neither configuration names keeps its object and its level.
\<close>

theorem LogConfListener_rebuilds:
  assumes "manager_ok st" and "distinct (map lc_name new)"
    and st': "st' = LogConfListener fs (announce strftime fs file tid now) old new st"
  shows "manager_ok st' \<and>
    dom (map_of (loggers st')) = (dom (map_of (loggers st)) - lc_name ` set old) \<union> lc_name ` set new \<and>
    (\<forall>i\<in>set new. \<exists>l. map_of (loggers st') (lc_name i) = Some l \<and> max_level (lgs st' ! l) = LevelFromString (lc_level i)) \<and>
    (\<forall>n l. n \<notin> lc_name ` set old \<union> lc_name ` set new \<longrightarrow> map_of (loggers st) n = Some l \<longrightarrow>
       map_of (loggers st') n = Some l \<and> max_level (lgs st' ! l) = max_level (lgs st ! l))"
proof -
  define st1 where "st1 = fold (\<lambda>i. DelLogger (lc_name i)) old st"
  have lgs1: "lgs st1 = lgs st" and keep: "n \<notin> lc_name ` set old \<Longrightarrow> map_of (loggers st1) n = map_of (loggers st) n" for n
    unfolding st1_def by (induction old arbitrary: st) (auto simp: DelLogger_def)
  have dom1: "dom (map_of (loggers st1)) = dom (map_of (loggers st)) - lc_name ` set old"
    by (simp add: st1_def fold_delete_names)
  have ok1: "manager_ok st1" unfolding st1_def by (rule manager_ok_delete) (rule assms(1))
  have fold: "st' = fold (add_logger_conf fs (announce strftime fs file tid now)) new st1"
    by (simp add: st' LogConfListener_def st1_def)
  note new = fold_add_logger_conf [where fs = fs and say = "announce strftime fs file tid now", OF ok1 announce_same assms(2),
      folded fold, unfolded dom1 lgs1]
  have "map_of (loggers st') n = Some l \<and> max_level (lgs st' ! l) = max_level (lgs st ! l)"
    if "n \<notin> lc_name ` set old \<union> lc_name ` set new" "map_of (loggers st) n = Some l" for n l
    using new that keep [of n] by (metis (lifting) Un_iff)
  with new show ?thesis by blast
qed

theorem LogConfListener_rebuilds_witness:
  "dom (map_of (loggers (LogConfListener every_path (announce (\<lambda>f t. []) every_path ''config.cc'' 7 (\<lambda>n. 0)) []
     [\<lparr>lc_name = ''system'', lc_level = ''INFO'', lc_appenders = []\<rparr>] LoggerManager))) =
   dom (map_of (loggers LoggerManager)) \<union> {''system''}"
proof -
  have "manager_ok LoggerManager"
    by (simp add: manager_ok_def LoggerManager_def Let_def SetMaxLevel_def set_logger_def new_std_appender_def LogAppender_def AddAppender_def Logger_def)
  from LogConfListener_rebuilds [OF this, where old = "[]" and
      new = "[\<lparr>lc_name = ''system'', lc_level = ''INFO'', lc_appenders = []\<rparr>]", OF _ refl]
  show ?thesis by simp
qed

text \<open>
  C31: Flattening a configuration tree lists, with its dotted path, every node of the tree whose
  path has only legal characters, and nothing else; a node below a name with an illegal
  character is left out.
\<close>

theorem YamlToList_lists_paths:
  "set (YamlToList [] rt) = {(path_name [] ks, n) |ks n. node_at rt ks n \<and> set (path_name [] ks) \<subseteq> set name_chars}"
  using YamlToList_paths [of _ _ "[]" rt] by auto

text \<open>
  Loading one scalar: an unregistered name is ignored, and a registered name written in lower
  case hands the text to the variable. A registered name written with an upper-case letter
  is found, but the call goes through a null pointer that the lookup has just inserted.
\<close>

theorem LoadFromYaml_scalar:
  assumes "k \<noteq> []" and "set k \<subseteq> set name_chars"
    and "\<forall>(name, v)\<in>set vs. map tolower name = name \<and> v \<noteq> None"
  shows "LoadFromYaml dump from_string (Map [(k, Scalar x)]) (vs, e) =
    (case map_of vs (map tolower k) of
       Some (Some v) \<Rightarrow>
         if map tolower k = k then (case from_string v x e of (err, v', e') \<Rightarrow> (err, map_put k (Some v') vs, e'))
         else (Some NullVar, map_put k None vs, e)
     | _ \<Rightarrow> (None, vs, e))"
proof -
  have list: "YamlToList [] (Map [(k, Scalar x)]) = [([], Map [(k, Scalar x)]), (k, Scalar x)]"
    using assms(1,2) by (simp add: YamlToList.simps)
  have vars: "map tolower n = n \<and> v \<noteq> None" if "map_of vs n = Some v" for n v
    using assms(3) map_of_SomeD [OF that] by blast
  have "map_of vs k = None" if "map tolower k \<noteq> k"
    using vars that by (cases "map_of vs k") auto
  then show ?thesis
    using assms(1) vars by (auto simp: LoadFromYaml_def list load_entry_def Let_def split: option.splits prod.splits)
qed

theorem LoadFromYaml_scalar_witness:
  "LoadFromYaml unary_dump (\<lambda>v x e. (None, x, e)) (Map [(''Port'', Scalar ''8080'')]) ([(''port'', Some ''80'')], ()) =
   (Some NullVar, [(''Port'', None), (''port'', Some ''80'')], ())"
proof -
  have low: "map tolower ''Port'' = ''port''" "map tolower ''port'' = ''port''"
    by code_simp+
  show ?thesis
    using LoadFromYaml_scalar [of "''Port''" "[(''port'', Some ''80'')]" unary_dump "\<lambda>v x e. (None, x, e)" "''8080''" "()"] low
    by (simp add: name_chars_def less_list_code)
qed

text \<open>
  C32: Vectors, lists and sets survive being written to text and read back when their elements do,
  provided the YAML library reads back what it prints; the result again is text that
  survives, so that containers nest to any depth. Sets are listed in ascending order, unordered
  ones in the order in which they iterate.
\<close>

theorem container_casts_round_trip:
  assumes "yaml_documented load dump" and "\<forall>x\<in>set v. cast_ok load dump from to x"
  shows "cast_ok load dump (vector_from_string load dump from) (vector_to_string load dump to) v \<and>
    cast_ok load dump (list_from_string load dump from) (list_to_string load dump to) v \<and>
    (sorted_wrt (\<lambda>x y. lt x y \<and> \<not> lt y x) v \<longrightarrow>
     cast_ok load dump (set_from_string load dump lt from) (set_to_string load dump to) v) \<and>
    (set (iter (set v)) = set v \<longrightarrow>
     cast_ok load dump (unordered_set_from_string load dump from) (unordered_set_to_string load dump iter to) (set v))"
  using vector_cast_ok [OF assms] list_cast_ok [OF assms] set_cast_ok [OF assms] unordered_set_cast_ok [OF assms] by blast

theorem container_casts_round_trip_witness:
  "res_bind (vector_to_string unary_load unary_dump Inr [unary_dump Null, unary_dump (Scalar ''a'')])
     (vector_from_string unary_load unary_dump Inr) = Inr [unary_dump Null, unary_dump (Scalar ''a'')]"
proof -
  have "cast_ok unary_load unary_dump Inr Inr (unary_dump n)" for n
    using unary_documented by (simp add: cast_ok_def yaml_documented_def)
  then have "\<forall>x\<in>set [unary_dump Null, unary_dump (Scalar ''a'')]. cast_ok unary_load unary_dump Inr Inr x" by simp
  from container_casts_round_trip [OF unary_documented this, THEN conjunct1] show ?thesis by (auto simp: cast_ok_def)
qed

text \<open>
  A logger configuration survives being written to text and read back, unless it has no
  appender: then the text has no list of appenders and reading it throws.
\<close>

theorem logger_conf_text:
  assumes "yaml_documented load dump" and "logger_conf_ok lc"
  shows "logger_conf_from_string load (logger_conf_to_string dump lc) =
    (if lc_appenders lc = [] then Inl (ConfLogicError ''log config logic error: appenders is not defined'') else Inr lc)"
proof -
  obtain l where "lc_level lc = LevelToString l" using assms(2) by (auto simp: logger_conf_ok_def)
  then have level: "LevelToString (LevelFromString (lc_level lc)) = lc_level lc" by (simp add: LevelFromString_LevelToString)
  have "map_res appender_conf_of (map appender_conf_node (lc_appenders lc)) = Inr (lc_appenders lc)"
    using assms(2) by (intro map_res_appender_conf) (simp add: logger_conf_ok_def)
  with assms(1) level show ?thesis
    by (auto simp: yaml_documented_def logger_conf_from_string_def logger_conf_to_string_def required_def field_def)
qed

theorem logger_conf_text_witness:
  "logger_conf_from_string unary_load (logger_conf_to_string unary_dump
     \<lparr>lc_name = ''root'', lc_level = LevelToString FATAL, lc_appenders = [\<lparr>ac_type = ''logappendertostd'', ac_file = [], ac_formatter = []\<rparr>]\<rparr>) =
   Inr \<lparr>lc_name = ''root'', lc_level = LevelToString FATAL, lc_appenders = [\<lparr>ac_type = ''logappendertostd'', ac_file = [], ac_formatter = []\<rparr>]\<rparr>"
proof -
  have "map tolower ''logappendertostd'' = ''logappendertostd''" by code_simp
  then have "logger_conf_ok \<lparr>lc_name = ''root'', lc_level = LevelToString FATAL,
      lc_appenders = [\<lparr>ac_type = ''logappendertostd'', ac_file = [], ac_formatter = []\<rparr>]\<rparr>"
    by (auto simp: logger_conf_ok_def appender_conf_ok_def)
  from logger_conf_text [OF unary_documented this] show ?thesis by simp
qed

text \<open>
  C33: Setting a variable tells each of its listeners, in ascending order of their keys, the old and
  the new value once, and then stores the value; setting the value it has tells nobody.
\<close>

theorem SetValue_tells_listeners:
  assumes "val \<noteq> old"
  shows "SetValue val (add_recorders ks (ConfigVar name old dscp), []) =
    (None, (add_recorders ks (ConfigVar name old dscp))\<lparr>var_value := val\<rparr>, map (\<lambda>k. (k, old, val)) (sorted_list_of_set (set ks)))
    \<and> SetValue old (add_recorders ks (ConfigVar name old dscp), []) = (None, add_recorders ks (ConfigVar name old dscp), [])"
proof -
  let ?v = "add_recorders ks (ConfigVar name old dscp)"
  have "ordered_map (callbacks (ConfigVar name old dscp))" "\<forall>(k, f)\<in>set (callbacks (ConfigVar name old dscp)). f = Some (recorder k)"
    by (simp_all add: ConfigVar_def ordered_map_def)
  note cbs = add_recorders_callbacks [OF this, of ks]
  have keys: "map fst (callbacks ?v) = sorted_list_of_set (set ks)"
  proof (rule sorted_distinct_set_unique)
    show "set (map fst (callbacks ?v)) = set (sorted_list_of_set (set ks))" using cbs by (simp add: ConfigVar_def)
  qed (use cbs in \<open>auto simp: ordered_map_def strict_sorted_iff\<close>)
  have "notify (callbacks ?v) old val [] = (None, map (\<lambda>(k, f). (k, old, val)) (callbacks ?v))"
    using notify_recorders [of "callbacks ?v" old val "[]"] cbs by simp
  moreover have "map (\<lambda>(k, f). (k, old, val)) (callbacks ?v) = map (\<lambda>k. (k, old, val)) (map fst (callbacks ?v))"
    by (simp add: comp_def case_prod_beta)
  moreover have "var_value ?v = old" using cbs by (simp add: ConfigVar_def)
  ultimately show ?thesis using assms by (simp add: SetValue_def keys)
qed

theorem SetValue_tells_listeners_witness:
  "snd (snd (SetValue (8080 :: nat) (add_recorders [7, 3, 7] (ConfigVar ''port'' 80 []), []))) = [(3, 80, 8080), (7, 80, 8080)]"
proof -
  have "sorted_list_of_set {3, 7 :: nat} = [3, 7]" by code_simp
  then show ?thesis
    using SetValue_tells_listeners [of "8080 :: nat" 80 "[7, 3, 7]" "''port''" "[]"] by (simp add: insert_commute)
qed

text \<open>
  Printing the variables lists each once, in the order of their names, unless a null pointer that
  loading inserted is among them: then the program ends.
\<close>

lemma PrintAllVarsMap_lists:
  "fst (PrintAllVarsMap description type_name vs out) = (if None \<in> snd ` set vs then Some NullVar else None)"
  "None \<notin> snd ` set vs \<Longrightarrow> snd (PrintAllVarsMap description type_name vs out) =
     out @ concat (map (\<lambda>(k, v). ''['' @ k @ '', '' @ description (the v) @ '', '' @ type_name (the v) @ '']'' @ [LF]) vs)"
  by (induction description type_name vs out rule: PrintAllVarsMap.induct) auto

lemma LoadFromYaml_breaks_PrintAllVarsMap:
  "fst (PrintAllVarsMap description type_name (fst (snd (load_entry dump from_string (''Port'', Scalar x) ([(''port'', Some v)], e)))) out) =
   Some NullVar"
proof -
  have "map tolower ''Port'' = ''port''" by code_simp
  then show ?thesis by (simp add: load_entry_def Let_def less_list_code)
qed

text \<open>
  Asking a variable for a listener it does not have breaks it: the lookup inserts an empty
  function, and every later change of the value throws and is lost, until the key is
  given a listener or removed.
\<close>

lemma GetListener_breaks_SetValue:
  assumes "map_of (callbacks v) key = None" and "val \<noteq> var_value v"
  shows "\<exists>x e'. SetValue val (snd (GetListener key v), e) = (Some x, snd (GetListener key v), e')"
proof -
  let ?v = "snd (GetListener key v)"
  have v: "?v = v\<lparr>callbacks := map_put key None (callbacks v)\<rparr>" using assms(1) by (simp add: GetListener_def)
  have "None \<in> snd ` set (callbacks ?v)" using set_map_put [of key None "callbacks v"] by (force simp: v)
  from notify_None [OF this, of "var_value v" val e] show ?thesis
    using assms(2) by (auto simp: SetValue_def v split: prod.splits option.splits)
qed

lemma GetListener_breaks_SetValue_witness:
  "\<exists>x e'. SetValue (8080 :: nat) (snd (GetListener 1 (ConfigVar ''port'' 80 [])), ()) =
     (Some x, snd (GetListener 1 (ConfigVar ''port'' 80 [])), e')"
  by (rule GetListener_breaks_SetValue) (simp_all add: ConfigVar_def)

text \<open>
  A map of vectors does not survive: each value is written as a scalar that holds the text of
  the vector, and reading it back gives every key an empty vector.
\<close>

lemma map_of_vectors_lost:
  assumes "yaml_documented load dump" and "ordered_map m"
    and "\<forall>(k, v)\<in>set m. \<forall>x\<in>set v. cast_ok load dump from to x"
  shows "res_bind (map_to_string dump (vector_to_string load dump to) m) (map_from_string load dump (vector_from_string load dump from)) =
    Inr (map (\<lambda>(k, v). (k, [])) m)"
proof -
  have ok: "cast_ok load dump (vector_from_string load dump from) (vector_to_string load dump to) v" if "(k, v) \<in> set m" for k v
    using assms(3) that by (intro vector_cast_ok [OF assms(1)]) auto
  define string_of where "string_of v = projr (vector_to_string load dump to v)" for v
  have string_of: "vector_to_string load dump to v = Inr (string_of v)" if "(k, v) \<in> set m" for k v
    using ok [OF that] by (auto simp: string_of_def cast_ok_def)
  have "map_res (\<lambda>(k, v). res_bind (vector_to_string load dump to v) (\<lambda>s. Inr (k, Scalar s))) m = Inr (map (\<lambda>(k, v). (k, Scalar (string_of v))) m)"
    by (subst map_res_Inr [where g = "\<lambda>(k, v). (k, Scalar (string_of v))"]) (auto simp: string_of)
  moreover have "map_res (\<lambda>(k, n). res_bind (vector_from_string load dump from (dump n)) (\<lambda>v. Inr (k, v)))
      (map (\<lambda>(k, v). (k, Scalar (string_of v))) m) = Inr (map (\<lambda>(k, v). (k, [])) m)"
    using assms(1) by (induction m) (auto simp: vector_from_string_def yaml_documented_def)
  moreover have "fold map_insert (map (\<lambda>(k, v). (k, [])) m) [] = map (\<lambda>(k, v). (k, [])) m"
    using assms(2) by (intro fold_map_insert) (simp add: ordered_map_def comp_def case_prod_beta)
  ultimately show ?thesis
    using assms(1) by (auto simp: map_to_string_def map_from_string_def yaml_documented_def)
qed

lemma map_of_vectors_lost_witness:
  "res_bind (map_to_string unary_dump (vector_to_string unary_load unary_dump Inr) [(''hosts'', [unary_dump (Scalar ''a'')])])
     (map_from_string unary_load unary_dump (vector_from_string unary_load unary_dump Inr)) = Inr [(''hosts'', [])]"
proof -
  have "cast_ok unary_load unary_dump Inr Inr (unary_dump n)" for n
    using unary_documented by (simp add: cast_ok_def yaml_documented_def)
  then show ?thesis
    using map_of_vectors_lost [OF unary_documented, of "[(''hosts'', [unary_dump (Scalar ''a'')])]" Inr Inr]
    by (simp add: ordered_map_def)
qed

end
