(* ===== verification/Log_Manager.thy ===== *)
theory Log_Manager
  imports Config_Laws
begin

text \<open>
  The manager of the loggers over a whole history of calls: when two calls of \<^verbatim>\<open>NewLogger\<close> return the same
  logger, what \<^verbatim>\<open>GetLogger\<close> finds, and what becomes of loggers that callers still hold after
  their name was deleted.
\<close>

section \<open>Histories\<close>










section \<open>Properties of the manager\<close>



end
