(* ===== verification/Utilities.thy ===== *)
theory Utilities
  imports Sylar_Strings
begin

text \<open>
  The helpers of \<^verbatim>\<open>src/src/util.cc\<close> and \<^verbatim>\<open>src/src/include/util.hh\<close>, and the singletons of
  \<^verbatim>\<open>src/src/include/singleton.hh\<close>. What the C library and the kernel answer is an argument: the
  symbols of a stack, and the time of the monotonic clock.
\<close>

section \<open>Stack traces\<close>

text \<open>
  \<open>backtrace sz\<close> is the list of symbols of at most \<open>sz\<close> frames, or nothing when the library has no memory for it.
  The loop starts at \<open>skip\<close> converted to \<^verbatim>\<open>size_t\<close>. The state is the caller's vector and the text on
  standard error.
\<close>

definition BackTrace :: "(int \<Rightarrow> string list option) \<Rightarrow> int \<Rightarrow> int \<Rightarrow> string list \<times> string \<Rightarrow> string list \<times> string" where
  "BackTrace backtrace sz skip s =
     (case s of (bt, err) \<Rightarrow>
        case backtrace sz of
          None \<Rightarrow> (bt, err @ ''BackTrace error'' @ [LF])
        | Some str \<Rightarrow> (bt @ map (\<lambda>i. str ! i) [unat (word_of_int skip :: u64)..<length str], err))"

definition BacktraceToString ::
  "(int \<Rightarrow> string list option) \<Rightarrow> int \<Rightarrow> int \<Rightarrow> string \<Rightarrow> string \<Rightarrow> string \<times> string" where
  "BacktraceToString backtrace sz skip prefix err =
     (case BackTrace backtrace sz skip ([], err) of
        (bt, err') \<Rightarrow> (fold (\<lambda>b ss. ss @ prefix @ b @ [LF]) bt [], err'))"

text \<open>
  \<^verbatim>\<open>SYLAR_ASSERT\<close> and \<^verbatim>\<open>SYLAR_ASSERT_PREFIX\<close> on the texts on standard output and error, with the text of
  the condition. The first component tells whether the program goes on: a build with
  \<^verbatim>\<open>NDEBUG\<close> removes the \<^verbatim>\<open>assert\<close>.
\<close>

definition SYLAR_ASSERT_PREFIX ::
  "bool \<Rightarrow> (int \<Rightarrow> string list option) \<Rightarrow> bool \<Rightarrow> string \<Rightarrow> string \<Rightarrow> string \<times> string \<Rightarrow> bool \<times> string \<times> string" where
  "SYLAR_ASSERT_PREFIX ndebug backtrace x condition prefix s =
     (case s of (out, err) \<Rightarrow>
        if \<not> x
        then (case BacktraceToString backtrace 100 2 prefix err of
                (bt, err') \<Rightarrow> (ndebug, out @ ''assert error: '' @ condition @ bt, err'))
        else (True, s))"

definition SYLAR_ASSERT ::
  "bool \<Rightarrow> (int \<Rightarrow> string list option) \<Rightarrow> bool \<Rightarrow> string \<Rightarrow> string \<times> string \<Rightarrow> bool \<times> string \<times> string" where
  "SYLAR_ASSERT ndebug backtrace x condition s =
     (case s of (out, err) \<Rightarrow>
        if \<not> x
        then (case BacktraceToString backtrace 100 2 [] err of
                (bt, err') \<Rightarrow> (ndebug, out @ ''assert error: '' @ condition @ bt, err'))
        else (True, s))"

section \<open>Time\<close>

text \<open>The two fields of \<^verbatim>\<open>timespec\<close> are signed; the result is converted to \<^verbatim>\<open>uint64_t\<close>.\<close>

definition GetElapseFromRebootMS :: "int \<Rightarrow> int \<Rightarrow> u64" where
  "GetElapseFromRebootMS tv_sec tv_nsec = word_of_int (tv_sec * 1000 + tv_nsec div 1000000)"

section \<open>Singletons\<close>

text \<open>
  The function-local objects of \<^verbatim>\<open>GetInstance\<close>, one for each class that instantiates the template: the
  first call constructs it. For \<^verbatim>\<open>SingletonPtr\<close> the object is a shared pointer, of which the callers
  get a reference, so that they can make it point elsewhere.
\<close>

record ('k, 'a) statics =
  built :: "'a list"
  instances :: "('k \<times> nat) list"

definition GetInstance :: "'k \<Rightarrow> 'a \<Rightarrow> ('k, 'a) statics \<Rightarrow> nat \<times> ('k, 'a) statics" where
  "GetInstance k new s =
     (case map_of (instances s) k of
        Some p \<Rightarrow> (p, s)
      | None \<Rightarrow> (length (built s), \<lparr>built = built s @ [new], instances = (k, length (built s)) # instances s\<rparr>))"

definition SingletonPtr_GetInstance :: "'k \<Rightarrow> 'a \<Rightarrow> ('k, 'a) statics \<Rightarrow> nat \<times> ('k, 'a) statics" where
  "SingletonPtr_GetInstance k new s =
     (case map_of (instances s) k of
        Some p \<Rightarrow> (p, s)
      | None \<Rightarrow> (length (built s), \<lparr>built = built s @ [new], instances = (k, length (built s)) # instances s\<rparr>))"

definition assign_instance :: "'k \<Rightarrow> nat \<Rightarrow> ('k, 'a) statics \<Rightarrow> ('k, 'a) statics" where
  "assign_instance k p s = s\<lparr>instances := (k, p) # instances s\<rparr>"

section \<open>Laws\<close>

lemma map_nth_upt: "map (\<lambda>i. xs ! i) [k..<length xs] = drop k xs"
  by (rule nth_equalityI) simp_all

lemma fold_lines: "fold (\<lambda>b ss. ss @ prefix @ b @ [LF]) bt ss = ss @ concat (map (\<lambda>b. prefix @ b @ [LF]) bt)"
  by (induction bt arbitrary: ss) simp_all

text \<open>
  A trace has a line for every frame after the skipped ones; a negative number of frames to
  skip is a huge one after the conversion, and the trace is empty.
\<close>

lemma BacktraceToString_lines:
  assumes "backtrace sz = Some str" and "- (2 ^ 31) \<le> skip" "skip < 2 ^ 31" and "length str < 2 ^ 63"
  shows "BacktraceToString backtrace sz skip prefix err =
    (if 0 \<le> skip then concat (map (\<lambda>b. prefix @ b @ [LF]) (drop (nat skip) str)) else [], err)"
proof -
  have k: "unat (word_of_int skip :: u64) = nat (skip mod 2 ^ 64)"
    by (simp add: unat_eq_nat_uint uint_word_of_int)
  have "drop (unat (word_of_int skip :: u64)) str = (if 0 \<le> skip then drop (nat skip) str else [])"
  proof (cases "0 \<le> skip")
    case True
    with assms(3) show ?thesis by (simp add: k)
  next
    case False
    have "(skip + 2 ^ 64) mod 2 ^ 64 = skip + 2 ^ 64"
      using False assms(2,3) by (intro mod_pos_pos_trivial) simp_all
    then have "skip mod 2 ^ 64 = skip + 2 ^ 64" by simp
    then have "2 ^ 63 \<le> nat (skip mod 2 ^ 64)" using assms(2) by simp
    with False assms(4) show ?thesis by (simp add: k)
  qed
  with assms(1) show ?thesis by (simp add: BacktraceToString_def BackTrace_def map_nth_upt fold_lines)
qed

lemma BackTrace_error:
  "backtrace sz = None \<Longrightarrow> BackTrace backtrace sz skip (bt, err) = (bt, err @ ''BackTrace error'' @ [LF])"
  by (simp add: BackTrace_def)

lemma SYLAR_ASSERT_stops: "fst (SYLAR_ASSERT ndebug backtrace x condition s) \<longleftrightarrow> x \<or> ndebug"
  by (simp add: SYLAR_ASSERT_def split: prod.split)

lemma SYLAR_ASSERT_PREFIX_Nil: "SYLAR_ASSERT_PREFIX ndebug backtrace x condition [] = SYLAR_ASSERT ndebug backtrace x condition"
  by (simp add: fun_eq_iff SYLAR_ASSERT_PREFIX_def SYLAR_ASSERT_def)

text \<open>The milliseconds are those of the clock, rounded down, for the next 500 million years.\<close>

lemma GetElapseFromRebootMS_floor:
  assumes "0 \<le> tv_sec" "tv_sec < 2 ^ 53" "0 \<le> tv_nsec" "tv_nsec < 1000000000"
  shows "uint (GetElapseFromRebootMS tv_sec tv_nsec) = (tv_sec * 1000000000 + tv_nsec) div 1000000"
proof -
  have "(tv_sec * 1000000000 + tv_nsec) div 1000000 = tv_sec * 1000 + tv_nsec div 1000000"
    by (simp add: mult.commute [of tv_sec] flip: div_mult_self4 [of 1000000 "1000 * tv_sec" tv_nsec])
  moreover have "tv_nsec div 1000000 < 1000" "0 \<le> tv_nsec div 1000000" using assms by auto
  moreover from this assms have "(tv_sec * 1000 + tv_nsec div 1000000) mod 2 ^ 64 = tv_sec * 1000 + tv_nsec div 1000000"
    by (intro mod_pos_pos_trivial) simp_all
  ultimately show ?thesis
    unfolding GetElapseFromRebootMS_def uint_word_of_int by simp
qed

lemma GetElapseFromRebootMS_mono:
  assumes "0 \<le> s" "s < 2 ^ 53" "0 \<le> n" "n < 1000000000" and "0 \<le> s'" "s' < 2 ^ 53" "0 \<le> n'" "n' < 1000000000"
    and "s * 1000000000 + n \<le> s' * 1000000000 + n'"
  shows "GetElapseFromRebootMS s n \<le> GetElapseFromRebootMS s' n'"
  using assms(9) GetElapseFromRebootMS_floor [OF assms(1-4)] GetElapseFromRebootMS_floor [OF assms(5-8)]
  by (simp add: word_le_def zdiv_mono1)

text \<open>
  What users of a singleton rely on: asking again gives the same object and constructs
  nothing, and classes do not share one.
\<close>

definition statics_ok :: "('k, 'a) statics \<Rightarrow> bool" where
  "statics_ok s \<longleftrightarrow> distinct (map fst (instances s)) \<and> map snd (instances s) = rev [0..<length (built s)]"

locale singleton =
  fixes get :: "'k \<Rightarrow> 'a \<Rightarrow> ('k, 'a) statics \<Rightarrow> nat \<times> ('k, 'a) statics"
  assumes get_known: "map_of (instances s) k = Some p \<Longrightarrow> get k new s = (p, s)"
    and get_new: "map_of (instances s) k = None \<Longrightarrow>
      get k new s = (length (built s), \<lparr>built = built s @ [new], instances = (k, length (built s)) # instances s\<rparr>)"
begin

lemma get_ok: "statics_ok s \<Longrightarrow> statics_ok (snd (get k new s))"
  by (cases "map_of (instances s) k") (auto simp: get_known get_new statics_ok_def map_of_eq_None_iff)

lemma get_keeps: "map_of (instances s) k = Some p \<Longrightarrow> map_of (instances (snd (get j new s))) k = Some p"
  by (cases "map_of (instances s) j") (auto simp: get_known get_new)

lemma get_registers: "map_of (instances (snd (get k new s))) k = Some (fst (get k new s))"
  by (cases "map_of (instances s) k") (auto simp: get_known get_new)

text \<open>However many calls for other classes come between, a class gets its first object again.\<close>

lemma get_same:
  "fst (get k new' (fold (\<lambda>(j, x) s. snd (get j x s)) calls (snd (get k new s)))) = fst (get k new s)"
proof -
  have "map_of (instances (fold (\<lambda>(j, x) s. snd (get j x s)) calls t)) k = Some p"
    if "map_of (instances t) k = Some p" for p t
    using that by (induction calls arbitrary: t) (auto simp: get_keeps)
  from this [OF get_registers] show ?thesis by (simp add: get_known)
qed

text \<open>One object for each class that was asked for, and different classes have different objects.\<close>

lemma one_object_each:
  assumes "statics_ok s"
  shows "length (built s) = card (fst ` set (instances s))"
    and "map_of (instances s) k = Some p \<Longrightarrow> map_of (instances s) j = Some p \<Longrightarrow> j = k"
proof -
  have "length (instances s) = length (built s)" using assms by (metis statics_ok_def length_map length_rev length_upt diff_zero)
  with assms show "length (built s) = card (fst ` set (instances s))"
    by (metis statics_ok_def distinct_card length_map list.set_map)
  have "inj_on snd (set (instances s))"
    using assms by (metis statics_ok_def distinct_map distinct_rev distinct_upt)
  then show "j = k" if "map_of (instances s) k = Some p" "map_of (instances s) j = Some p"
    using that [THEN map_of_SomeD] by (metis inj_onD prod.inject snd_conv)
qed

end

interpretation raw: singleton GetInstance
  by unfold_locales (simp_all add: GetInstance_def)

interpretation shared: singleton SingletonPtr_GetInstance
  by unfold_locales (simp_all add: SingletonPtr_GetInstance_def)

text \<open>A caller that assigns through the reference changes what everyone gets.\<close>

lemma SingletonPtr_assigned: "fst (SingletonPtr_GetInstance k new (assign_instance k p s)) = p"
  by (simp add: SingletonPtr_GetInstance_def assign_instance_def)

end
