(* ===== verification/Spec2Isabelle.thy ===== *)
theory Spec2Isabelle
  imports Codec_Laws Byte_Memory Timer_Laws Coroutine_Laws Epoll Hook_Laws Event_Loop Blocking_Io Http_Laws Http_Automata
    Http_Hooked Http_Lifecycle Guarded Log_Manager Utilities Address_Laws Socket_Laws
begin

text \<open>
  \<^bold>\<open>The Sylar framework.\<close> Sylar is a C++ framework for network servers. A thread has a scheduler of
  coroutines, a registry of descriptors over \<^verbatim>\<open>epoll\<close>, and a timer wheel; its event loop
  dispatches events and executes timers. Blocking system calls are hooked: a call that would block
  registers the coroutine and yields, and the loop resumes it. On this stand a socket wrapper with
  its addresses and an HTTP server with its messages. Byte arrays with their codecs, logging,
  configuration, locks and singletons are used beside it. All sources are under \<^verbatim>\<open>src/src\<close>.

  \<^bold>\<open>Method.\<close> Every operation is a function on explicit state. Structures are records, enumerations
  are datatypes, exceptions and undefined behaviour are the left side of a sum or \<open>None\<close>. Machine
  integers are words, or numbers with the reduction written out. Pointers to shared objects
  are indices into a list of objects. What the code gets from outside (kernel, clock, YAML
  library, name resolution) is an argument of the operation that asks for it; hypotheses on it are
  named after the documentation they state (\<open>yaml_documented\<close>, \<open>ntop_documented\<close>).
  Memory that the code does not initialise is an argument too.

  \<^bold>\<open>Shared theories.\<close>
  \<^item> \<open>Sylar_Prelude\<close>: results and their sequencing, memory cells, linked lists in a heap, and the
    locale \<open>total_steps\<close> for operations that succeed and keep an invariant; the event registry
    and the sockets interpret it.
  \<^item> \<open>Sylar_Strings\<close>: what the sources use of \<^verbatim>\<open>std::string\<close>, streams and \<^verbatim>\<open>std::map\<close>.

  \<^bold>\<open>Components.\<close>
  \<^item> \<open>Byte_Array\<close>, \<open>Byte_Queue\<close> (\<^verbatim>\<open>bytearray.cc\<close>, the buffer): a linked list of blocks with a read and a
    write position. The buffer refines a queue of bytes (locale \<open>byte_stream\<close>); what happens at the
    ends of blocks and after \<^verbatim>\<open>Clear\<close>. \<open>Byte_Memory\<close>: the same when \<^verbatim>\<open>malloc\<close> fails.
  \<^item> \<open>Byte_Codec\<close>, \<open>Codec_Laws\<close> (\<^verbatim>\<open>endian.hh\<close>, the rest of \<^verbatim>\<open>bytearray.cc\<close>): byte order, fixed and variable
    width integers, strings. Written values are read back (locale \<open>codec\<close>); which are not.
  \<^item> \<open>Time_Wheel\<close>, \<open>Timer_Laws\<close> (\<^verbatim>\<open>timewheel.cc\<close>): the wheel refines a schedule of ticks. Its inner loop may
    not end, so it is a partial function: that it ends is proved, and that it does
    not for a task that re-arms itself.
  \<^item> \<open>Coroutine\<close>, \<open>Coroutine_Laws\<close> (\<^verbatim>\<open>coroutine.cc\<close>): the stack of running coroutines, their states, and
    copying of shared stacks; an invariant of all reachable states. A machine context is not modelled.
  \<^item> \<open>Epoll\<close> (\<^verbatim>\<open>epoll.cc\<close>): registration and cancellation with the calls of \<^verbatim>\<open>epoll_ctl\<close>; the registry
    and the kernel's interest list stay in step.
  \<^item> \<open>Hook\<close>, \<open>Hook_Laws\<close> (\<^verbatim>\<open>hook.cc\<close>): the hooked calls on scheduler, registry and wheel.
  \<^item> \<open>Event_Loop\<close> (\<^verbatim>\<open>Schedule::Eventloop\<close>): the rounds of the loop, which refine an abstract loop of events and a
    schedule of timers, for handlers and tasks that may change the registry, add timers and stop the loop. In which
    rounds a sleeping coroutine is resumed.
  \<^item> \<open>Http_Message\<close>, \<open>Http_Laws\<close> (\<^verbatim>\<open>http_message.cc\<close>): messages, printing, the parser. \<open>Http_Date\<close>: the
    date of a response, with the calendar it is printed from.
  \<^item> \<open>Http_Server\<close>, \<open>Http_Server_Laws\<close>, \<open>Http_Lifecycle\<close> (\<^verbatim>\<open>http_server.cc\<close>): the connection state machine in
    both variants, with objects on a heap and \<^verbatim>\<open>epoll\<close> data pointing to them; no freed object
    is used and requests are answered (locale \<open>connection_loop\<close>). Starting and stopping. \<open>Http_Session\<close>: the
    loops of the threads. \<open>Http_Automata\<close>: a worker in both variants refines a product of automata, one for
    each connection (locale \<open>connection_steps\<close>), so that interleaved sessions of clients whose events
    the kernel reports are all answered; a response longer than the buffer ends the worker in its overflow.
    \<open>Http_Hooked\<close>: both loops on the hooked calls and the scheduler of the thread; with coroutines the worker behaves
    as on the original calls, without them a refused call blocks it.
  \<^item> \<open>Log\<close>, \<open>Log_Laws\<close> (\<^verbatim>\<open>log.cc\<close>): the compiler of patterns, equal to a recursive parser; appenders, loggers,
    and their manager (locale \<open>named_objects\<close>). \<open>Log_Manager\<close>: loggers are shared by name until the
    name is deleted, over any history of calls. \<open>Guarded\<close>: the calls
    of threads on one logger, in steps behind its spin lock, are equivalent to a sequence.
  \<^item> \<open>Locks\<close>, \<open>Shared_Locks\<close> (\<^verbatim>\<open>mutex.hh\<close>, \<^verbatim>\<open>mutex.cc\<close>): the locks, the scope objects and the semaphore, under every
    interleaving of threads (locales \<open>exclusive_lock\<close>, \<open>shared_lock\<close>); what dropped error codes break.
  \<^item> \<open>Config\<close>, \<open>Config_Laws\<close> (\<^verbatim>\<open>config.cc\<close>): casts to and from YAML text, variables with listeners, the
    registry, loading of trees, and rebuilding of the loggers.
  \<^item> \<open>Address\<close>, \<open>Address_Laws\<close> (\<^verbatim>\<open>address.cc\<close>): socket addresses in memory, factories, printing, the lookup.
  \<^item> \<open>Sockets\<close>, \<open>Socket_Laws\<close> (\<^verbatim>\<open>socket.cc\<close>): the socket wrapper on the hooked calls; ownership of
    descriptors. \<open>Blocking_Io\<close> follows a receive that blocks through the hook, the registry, the scheduler and
    the loop until it returns.
  \<^item> \<open>Utilities\<close> (\<^verbatim>\<open>util.cc\<close>, \<^verbatim>\<open>singleton.hh\<close>): traces as text, the clock in milliseconds, singletons (locale
    \<open>singleton\<close>).

  \<^bold>\<open>Bounds and scripts.\<close> No loop is cut off by fuel. Loops over input from outside (\<^verbatim>\<open>do_io\<close>, the event
  loops, the server's loops) are recursions over the sequence of answers or rounds: an empty
  sequence means that the loop is still waiting, and theorems that it returns give the
  sequence. Loops inside an operation terminate by a measure, except the two partial functions
  \<open>visit_loop\<close> and \<open>thread_loop\<close>, where not returning is \<open>None\<close>.

  \<^bold>\<open>Not modelled.\<close> Machine contexts and the assembly of stacks; a lack of memory for the copies of shared stacks and for
  standard containers; the POSIX locks below the lock
  classes, beyond what their manual says of the states that the wrappers reach; process and thread
  ids; exceptions of the file system while logging; the log lines that the other components
  write. Data races between threads are outside the model: the threads of the
  server share only the registration of clients, which is a step.
\<close>

end
